(* ===== verification/Prelude.thy ===== *)
theory Prelude
  imports Main "HOL-Library.Word" "HOL-Library.Multiset" "HOL-Library.Sublist"
begin

text \<open>
  What every component of the development shares: the type synonyms of the program's
  machine types, the errors a C++ execution of it can end in, sequencing of fallible
  steps, and the generic lemmas on words, bits and lists.
\<close>

unbundle bit_operations_syntax

section \<open>Machine types\<close>

text \<open>
  \<^item> \<open>uint\<close> is C++'s \<open>unsigned int\<close>: its arithmetic wraps around at 32 bits;
  \<^item> \<open>key\<close> is \<open>std::bitset<KEYBITS>\<close> with \<open>KEYBITS = 160\<close>; bit \<open>i\<close> of the bitset
    is \<open>bit k i\<close>;
  \<^item> \<open>time\<close> counts the ticks (nanoseconds) of \<open>std::chrono::system_clock\<close>.
\<close>

type_synonym uint = "32 word"
type_synonym key = "160 word"
type_synonym time = int

text \<open>\<open>std::chrono::duration_cast<std::chrono::seconds>\<close> truncates towards zero.\<close>

definition ticks_per_second :: int where
  "ticks_per_second = 1000000000"

definition to_seconds :: "time \<Rightarrow> int" where
  "to_seconds d = sgn d * (\<bar>d\<bar> div ticks_per_second)"

section \<open>Errors and their sequencing\<close>

text \<open>
  The ways in which an operation of the program fails to return normally.
  \<^item> \<open>Out_Of_Range\<close>: \<open>std::out_of_range\<close> from \<open>at\<close> or \<open>std::stoi\<close>;
  \<^item> \<open>Invalid_Argument\<close>: \<open>std::invalid_argument\<close> from \<open>std::bitset\<close>'s string constructor or \<open>std::stoi\<close>;
  \<^item> \<open>Division_By_Zero\<close>: the remainder of an integer by zero;
  \<^item> \<open>Out_Of_Bounds\<close>: a read past the end of a buffer or of a vector;
  \<^item> \<open>Wild_Pointer\<close>: the use of a pointer variable that was never set;
  \<^item> \<open>Null_Pointer\<close>: a member call through a null pointer;
  \<^item> \<open>Filesystem_Error\<close>: \<open>std::filesystem::filesystem_error\<close>;
  \<^item> \<open>Deadlock\<close>: a thread locks a \<open>std::mutex\<close> it already holds;
  \<^item> \<open>Diverges\<close>: a loop did not end within the number of rounds it was given.
\<close>

datatype cpp_error =
    Out_Of_Range
  | Invalid_Argument
  | Division_By_Zero
  | Out_Of_Bounds
  | Wild_Pointer
  | Null_Pointer
  | Filesystem_Error
  | Deadlock
  | Diverges

fun and_then :: "cpp_error + 'a \<Rightarrow> ('a \<Rightarrow> cpp_error + 'b) \<Rightarrow> cpp_error + 'b" where
  "and_then (Inl e) f = Inl e"
| "and_then (Inr x) f = f x"

lemma and_then_eq_Inr [simp]:
  "and_then m f = Inr y \<longleftrightarrow> (\<exists>x. m = Inr x \<and> f x = Inr y)"
  by (cases m) auto

lemma and_then_eq_Inl:
  "and_then m f = Inl e \<longleftrightarrow> m = Inl e \<or> (\<exists>x. m = Inr x \<and> f x = Inl e)"
  by (cases m) auto

lemma and_then_cong [fundef_cong]:
  "m = m' \<Longrightarrow> (\<And>x. m' = Inr x \<Longrightarrow> f x = f' x) \<Longrightarrow> and_then m f = and_then m' f'"
  by (cases m') auto

lemma and_then_assoc: "and_then (and_then m f) g = and_then m (\<lambda>x. and_then (f x) g)"
  by (cases m) auto

lemma and_then_Inr [simp]: "and_then m Inr = m"
  by (cases m) auto

section \<open>Bits decide the order of words\<close>

lemma nat_less_by_bit:
  fixes a b :: nat
  assumes "\<not> bit a n" and "bit b n" and "\<And>j. n < j \<Longrightarrow> bit a j = bit b j"
  shows "a < b"
  using assms
proof (induction n arbitrary: a b)
  case 0
  have "a div 2 = b div 2"
    by (rule bit_eqI) (use 0(3) in \<open>simp flip: bit_Suc\<close>)
  moreover have "even a" and "odd b"
    using 0 by (simp_all add: bit_0)
  ultimately show ?case
    by presburger
next
  case (Suc n)
  have "a div 2 < b div 2"
    by (rule Suc.IH) (use Suc.prems in \<open>simp_all flip: bit_Suc\<close>)
  then show ?case
    by presburger
qed

lemma word_less_by_bit:
  fixes a b :: "'a::len word"
  assumes "\<not> bit a n" and "bit b n" and "\<And>j. n < j \<Longrightarrow> bit a j = bit b j"
  shows "a < b"
  unfolding word_less_nat_alt
  by (rule nat_less_by_bit [of _ n]) (use assms in \<open>simp_all add: bit_unsigned_iff\<close>)

section \<open>Characters\<close>

abbreviation nul :: char where
  "nul \<equiv> CHR 0x00"

end
