(* ===== verification/Keys.thy ===== *)
theory Keys
  imports Prelude
begin

text \<open>
  \<open>src/utils/utils.h\<close> and \<open>src/utils/utils.cpp\<close>: keys, their text form, the distance
  between keys and its order, peers and chunks.
\<close>

section \<open>Keys\<close>

text \<open>\<open>key[i] = b\<close>\<close>

definition assign_bit :: "nat \<Rightarrow> bool \<Rightarrow> key \<Rightarrow> key" where
  "assign_bit i b k = (if b then set_bit i k else unset_bit i k)"

text \<open>\<open>draw i\<close> is the \<open>i\<close>-th value drawn from the uniform distribution on 0 and 1.\<close>

definition random_key :: "(nat \<Rightarrow> bool) \<Rightarrow> key" where
  "random_key draw = fold (\<lambda>i k. assign_bit i (draw i) k) [0..<160] 0"

text \<open>
  \<open>sha1\<close> stands for OpenSSL's \<open>SHA1\<close>, which fills a buffer of \<open>SHA_DIGEST_LENGTH = 20\<close>
  bytes; bit \<open>j\<close> of byte \<open>i\<close> becomes bit \<open>8 * i + j\<close> of the key.
\<close>

definition key_from_data :: "(string \<Rightarrow> 8 word list) \<Rightarrow> string \<Rightarrow> key" where
  "key_from_data sha1 data =
     (let hash = sha1 data in
      fold (\<lambda>i k. fold (\<lambda>j k. assign_bit (8 * i + j) (bit (hash ! i) j) k) [0..<8] k)
        [0..<20] 0)"

definition key_from_string :: "(string \<Rightarrow> 8 word list) \<Rightarrow> string \<Rightarrow> key" where
  "key_from_string sha1 s = key_from_data sha1 s"

subsection \<open>The text form of a bitset\<close>

text \<open>
  \<open>std::bitset<N>::to_string\<close>: the character at position \<open>i\<close> is bit \<open>N - 1 - i\<close>.
  The string constructor reads at most the first \<open>N\<close> characters, the last of them into
  bit 0, clears the bits above, and throws \<open>std::invalid_argument\<close> when the string holds
  any other character than \<open>0\<close> and \<open>1\<close>.
\<close>

definition bit_char :: "bool \<Rightarrow> char" where
  "bit_char b = (if b then CHR ''1'' else CHR ''0'')"

definition bitset_to_string :: "'n::len word \<Rightarrow> string" where
  "bitset_to_string w = map (\<lambda>i. bit_char (bit w i)) (rev [0..<LENGTH('n)])"

definition bitset_of_string :: "string \<Rightarrow> cpp_error + 'n::len word" where
  "bitset_of_string s =
     (if list_all (\<lambda>c. c = CHR ''0'' \<or> c = CHR ''1'') s
      then Inr (horner_sum of_bool 2 (rev (map (\<lambda>c. c = CHR ''1'') (take LENGTH('n) s))))
      else Inl Invalid_Argument)"

text \<open>\<open>std::hex <<\<close> prints a number without leading zeros.\<close>

definition hex_digit :: "nat \<Rightarrow> char" where
  "hex_digit n = ''0123456789abcdef'' ! n"

fun hex_of_nat :: "nat \<Rightarrow> string" where
  "hex_of_nat n = (if n < 16 then [hex_digit n] else hex_of_nat (n div 16) @ [hex_digit (n mod 16)])"

declare hex_of_nat.simps [simp del]

text \<open>\<open>s.substr(pos, count)\<close>; \<open>count\<close> is cut at the end of the string.\<close>

definition substr :: "nat \<Rightarrow> nat \<Rightarrow> string \<Rightarrow> cpp_error + string" where
  "substr pos n s = (if length s < pos then Inl Out_Of_Range else Inr (take n (drop pos s)))"

fun hex_string_loop :: "string \<Rightarrow> nat list \<Rightarrow> string \<Rightarrow> cpp_error + string" where
  "hex_string_loop bits [] res = Inr res"
| "hex_string_loop bits (i # is) res =
     and_then (substr (8 * i) (8 * (i + 1)) bits) (\<lambda>byte.
     and_then (bitset_of_string byte) (\<lambda>byte_bitset :: 8 word.
     hex_string_loop bits is (res @ hex_of_nat (unat byte_bitset))))"

definition hex_string :: "key \<Rightarrow> cpp_error + string" where
  "hex_string k =
     and_then (hex_string_loop (bitset_to_string k) [0..<20] []) (\<lambda>res. substr 0 6 res)"

section \<open>Distances\<close>

datatype dist = Dist (dist_value: key)

text \<open>The default constructor sets every bit; the other one is the exclusive or of two keys.\<close>

definition dist_max :: dist where
  "dist_max = Dist (NOT 0)"

definition dist_between :: "key \<Rightarrow> key \<Rightarrow> dist" where
  "dist_between k1 k2 = Dist (k1 XOR k2)"

text \<open>
  \<open>operator<\<close> and \<open>operator>=\<close> scan the bits from the most significant one down; the
  first argument counts the bits that are still to scan.
\<close>

fun dist_lt_loop :: "nat \<Rightarrow> key \<Rightarrow> key \<Rightarrow> bool" where
  "dist_lt_loop 0 a b = False"
| "dist_lt_loop (Suc i) a b =
     (if bit a i \<and> \<not> bit b i then False
      else if \<not> bit a i \<and> bit b i then True
      else dist_lt_loop i a b)"

definition dist_lt :: "dist \<Rightarrow> dist \<Rightarrow> bool" where
  "dist_lt d e = dist_lt_loop 160 (dist_value d) (dist_value e)"

fun dist_ge_loop :: "nat \<Rightarrow> key \<Rightarrow> key \<Rightarrow> bool" where
  "dist_ge_loop 0 a b = True"
| "dist_ge_loop (Suc i) a b =
     (if bit a i \<and> \<not> bit b i then True
      else if \<not> bit a i \<and> bit b i then False
      else dist_ge_loop i a b)"

definition dist_ge :: "dist \<Rightarrow> dist \<Rightarrow> bool" where
  "dist_ge d e = dist_ge_loop 160 (dist_value d) (dist_value e)"

lemma dist_lt_loop_iff_less:
  "(\<And>j. n \<le> j \<Longrightarrow> bit a j = bit b j) \<Longrightarrow> dist_lt_loop n a b \<longleftrightarrow> a < b"
proof (induction n)
  case 0
  then have "a = b" by (simp add: bit_eq_iff)
  then show ?case by simp
next
  case (Suc n)
  consider "bit a n \<and> \<not> bit b n" | "\<not> bit a n \<and> bit b n" | "bit a n = bit b n" by blast
  then show ?case
  proof cases
    case 1
    then have "b < a" using Suc.prems by (intro word_less_by_bit [of b n a]) auto
    with 1 show ?thesis by auto
  next
    case 2
    then have "a < b" using Suc.prems by (intro word_less_by_bit [of a n b]) auto
    with 2 show ?thesis by auto
  next
    case 3
    have "dist_lt_loop n a b \<longleftrightarrow> a < b"
      using Suc.prems 3 by (intro Suc.IH) (metis le_antisym not_less_eq_eq)
    with 3 show ?thesis by auto
  qed
qed

lemma dist_ge_loop_not_lt: "dist_ge_loop n a b \<longleftrightarrow> \<not> dist_lt_loop n a b"
  by (induction n) auto

lemma dist_lt_iff: "dist_lt d e \<longleftrightarrow> dist_value d < dist_value e"
  unfolding dist_lt_def
  by (rule dist_lt_loop_iff_less) (simp add: bit_imp_le_length impossible_bit)

lemma dist_ge_iff: "dist_ge d e \<longleftrightarrow> dist_value e \<le> dist_value d"
  by (simp add: dist_ge_def dist_ge_loop_not_lt flip: dist_lt_def) (simp add: dist_lt_iff not_less)

text \<open>
  The two operators make distances a linear order, so that \<open>std::min\<close>, \<open>std::max\<close> and
  \<open>std::sort\<close> on them are the library's \<open>min\<close>, \<open>max\<close> and sorting.
\<close>

instantiation dist :: linorder
begin

definition less_dist :: "dist \<Rightarrow> dist \<Rightarrow> bool" where
  "less_dist d e = dist_lt d e"

definition less_eq_dist :: "dist \<Rightarrow> dist \<Rightarrow> bool" where
  "less_eq_dist d e = dist_ge e d"

instance
  by standard (auto simp: less_dist_def less_eq_dist_def dist_lt_iff dist_ge_iff intro: dist.expand)

end

lemma dist_le_iff: "d \<le> e \<longleftrightarrow> dist_value d \<le> dist_value e"
  by (simp add: less_eq_dist_def dist_ge_iff)

lemma dist_less_iff: "d < e \<longleftrightarrow> dist_value d < dist_value e"
  by (simp add: less_dist_def dist_lt_iff)

lemma dist_le_max: "d \<le> dist_max"
  by (simp add: dist_le_iff dist_max_def)

lemma dist_between_inject [simp]: "dist_between k a = dist_between k b \<longleftrightarrow> a = b"
  by (auto simp: dist_between_def bit_eq_iff bit_xor_iff)

lemma dist_between_less_by_bit:
  assumes "bit a n \<noteq> bit k n" and "bit b n = bit k n"
    and "\<And>j. n < j \<Longrightarrow> bit a j = bit b j"
  shows "dist_between k b < dist_between k a"
  unfolding dist_less_iff dist_between_def dist.sel
  by (rule word_less_by_bit [of _ n]) (use assms in \<open>auto simp: bit_xor_iff dest: bit_imp_le_length\<close>)

section \<open>What the key operations compute\<close>

lemma bit_assign_bit:
  "bit (assign_bit i b k) n \<longleftrightarrow> (if n = i then b \<and> n < 160 else bit k n)"
  by (auto simp: assign_bit_def bit_simps dest: bit_imp_le_length)

lemma bit_fold_assign:
  "distinct is \<Longrightarrow> bit (fold (\<lambda>i k. assign_bit (f i) (g i) k) is k) n \<longleftrightarrow>
     (if n \<in> f ` set is \<and> inj_on f (set is) then (\<exists>i\<in>set is. f i = n \<and> g i) \<and> n < 160
      else bit (fold (\<lambda>i k. assign_bit (f i) (g i) k) is k) n)"
proof (induction "is" rule: rev_induct)
  case Nil
  then show ?case by simp
next
  case (snoc i "is")
  show ?case
  proof (cases "n = f i")
    case True
    with snoc.prems show ?thesis by (auto simp: bit_assign_bit inj_on_def)
  next
    case False
    with snoc.prems snoc.IH show ?thesis
      by (auto simp: bit_assign_bit inj_on_Un)
  qed
qed

lemma bit_fold_assign_other:
  "n \<notin> f ` set is \<Longrightarrow> bit (fold (\<lambda>i k. assign_bit (f i) (g i) k) is k) n \<longleftrightarrow> bit k n"
  by (induction "is" arbitrary: k) (auto simp: bit_assign_bit)

lemma random_key_bit: "i < 160 \<Longrightarrow> bit (random_key draw) i \<longleftrightarrow> draw i"
  unfolding random_key_def by (subst bit_fold_assign) (auto simp: inj_on_def)

lemma bit_key_from_bytes:
  assumes "distinct is" and "i < 20" and "j < 8"
  shows "bit (fold (\<lambda>i k. fold (\<lambda>j k. assign_bit (8 * i + j) (bit (h i) j) k) [0..<8] k) is k)
           (8 * i + j) \<longleftrightarrow>
         (if i \<in> set is then bit (h i :: 8 word) j else bit k (8 * i + j))"
  using assms(1)
proof (induction "is" rule: rev_induct)
  case Nil
  then show ?case by simp
next
  case (snoc m "is")
  show ?case
  proof (cases "m = i")
    case True
    with assms snoc.prems show ?thesis
      by simp (subst bit_fold_assign, auto simp: inj_on_def)
  next
    case False
    with assms(3) have "8 * i + j \<notin> (\<lambda>j. 8 * m + j) ` set [0..<8]" by auto
    with False snoc show ?thesis by (simp add: bit_fold_assign_other del: upt_rec_numeral)
  qed
qed

lemma key_from_data_bit:
  "i < 20 \<Longrightarrow> j < 8 \<Longrightarrow> bit (key_from_data sha1 data) (8 * i + j) \<longleftrightarrow> bit (sha1 data ! i) j"
  unfolding key_from_data_def Let_def by (subst bit_key_from_bytes) auto

lemma key_from_data_eq_iff:
  assumes "length (sha1 d) = 20" and "length (sha1 e) = 20"
  shows "key_from_data sha1 d = key_from_data sha1 e \<longleftrightarrow> sha1 d = sha1 e"
proof
  assume eq: "key_from_data sha1 d = key_from_data sha1 e"
  show "sha1 d = sha1 e"
  proof (rule nth_equalityI)
    fix i
    assume "i < length (sha1 d)"
    then have "i < 20" by (simp add: assms)
    show "sha1 d ! i = sha1 e ! i"
    proof (rule bit_word_eqI)
      fix j
      assume "j < LENGTH(8)"
      then have "j < 8" by simp
      with \<open>i < 20\<close> eq show "bit (sha1 d ! i) j \<longleftrightarrow> bit (sha1 e ! i) j"
        by (metis key_from_data_bit)
    qed
  qed (simp add: assms)
qed (simp add: key_from_data_def)

subsection \<open>Text form\<close>

lemma length_bitset_to_string [simp]: "length (bitset_to_string (w :: 'n::len word)) = LENGTH('n)"
  by (simp add: bitset_to_string_def)

lemma bit_char_eq [simp]: "bit_char b = CHR ''1'' \<longleftrightarrow> b" "bit_char b = CHR ''0'' \<longleftrightarrow> \<not> b"
  by (simp_all add: bit_char_def)

lemma bitset_to_string_chars: "c \<in> set (bitset_to_string w) \<Longrightarrow> c = CHR ''0'' \<or> c = CHR ''1''"
  by (auto simp: bitset_to_string_def bit_char_def)

lemma bitset_roundtrip: "bitset_of_string (bitset_to_string w) = Inr (w :: 'n::len word)"
proof -
  have "list_all (\<lambda>c. c = CHR ''0'' \<or> c = CHR ''1'') (bitset_to_string w)"
    by (auto simp: list_all_iff dest: bitset_to_string_chars)
  moreover have "rev (map (\<lambda>c. c = CHR ''1'') (bitset_to_string w)) = map (bit w) [0..<LENGTH('n)]"
    by (simp add: bitset_to_string_def rev_map o_def)
  moreover have "horner_sum of_bool 2 (map (bit w) [0..<LENGTH('n)]) = w"
    by (rule bit_word_eqI) (simp add: bit_horner_sum_bit_iff)
  ultimately show ?thesis
    by (simp add: bitset_of_string_def)
qed

lemma bitset_of_string_inverse:
  assumes "bitset_of_string s = Inr (w :: 'n::len word)" and "length s = LENGTH('n)"
  shows "bitset_to_string w = s"
proof (rule nth_equalityI)
  fix i
  assume "i < length (bitset_to_string w)"
  then have i: "i < LENGTH('n)" by simp
  from assms have chars: "s ! i = CHR ''0'' \<or> s ! i = CHR ''1''"
    using i by (auto simp: bitset_of_string_def list_all_length split: if_splits)
  have "bit w (LENGTH('n) - Suc i) \<longleftrightarrow> s ! i = CHR ''1''"
    using assms i by (auto simp: bitset_of_string_def bit_horner_sum_bit_iff rev_nth split: if_splits)
  with chars i show "bitset_to_string w ! i = s ! i"
    by (auto simp: bitset_to_string_def rev_nth bit_char_def)
qed (simp add: assms)

lemma bitset_of_string_total:
  "\<forall>c\<in>set s. c = CHR ''0'' \<or> c = CHR ''1'' \<Longrightarrow> \<exists>w. bitset_of_string s = Inr w"
  by (auto simp: bitset_of_string_def list_all_iff)

lemma length_hex_of_nat: "1 \<le> length (hex_of_nat n)"
  by (subst hex_of_nat.simps) simp

lemma hex_string_loop_ok:
  assumes "\<forall>c\<in>set bits. c = CHR ''0'' \<or> c = CHR ''1''" and "\<forall>i\<in>set is. 8 * i \<le> length bits"
  shows "\<exists>out. hex_string_loop bits is res = Inr out \<and> length res + length is \<le> length out"
  using assms(2)
proof (induction "is" arbitrary: res)
  case Nil
  then show ?case by simp
next
  case (Cons i "is")
  let ?byte = "take (8 * (i + 1)) (drop (8 * i) bits)"
  have sub: "substr (8 * i) (8 * (i + 1)) bits = Inr ?byte"
    using Cons.prems by (simp add: substr_def)
  have "\<forall>c\<in>set ?byte. c = CHR ''0'' \<or> c = CHR ''1''"
    using assms(1) by (meson in_set_dropD in_set_takeD)
  then obtain w :: "8 word" where w: "bitset_of_string ?byte = Inr w"
    using bitset_of_string_total by blast
  from Cons.IH [of "res @ hex_of_nat (unat w)"] Cons.prems
  obtain out where "hex_string_loop bits is (res @ hex_of_nat (unat w)) = Inr out"
    and "length res + length (hex_of_nat (unat w)) + length is \<le> length out" by auto
  with sub w length_hex_of_nat [of "unat w"] show ?case
    by (simp del: One_nat_def mult_Suc_right)
qed

lemma hex_string_ok: "\<exists>s. hex_string k = Inr s \<and> length s = 6"
proof -
  have "\<forall>i\<in>set [0..<20]. 8 * i \<le> length (bitset_to_string k)" by auto
  moreover have "\<forall>c\<in>set (bitset_to_string k). c = CHR ''0'' \<or> c = CHR ''1''"
    by (blast dest: bitset_to_string_chars)
  ultimately obtain out where "hex_string_loop (bitset_to_string k) [0..<20] [] = Inr out"
      and "20 \<le> length out"
    using hex_string_loop_ok [of "bitset_to_string k" "[0..<20]" "[]"] by auto
  then show ?thesis by (simp add: hex_string_def substr_def)
qed

section \<open>Peers\<close>

record peer =
  pkey :: key
  endpoint :: string

definition default_peer :: peer where
  "default_peer = \<lparr>pkey = 0, endpoint = ''0.0.0.0:80''\<rparr>"

text \<open>\<open>StaticDistComparator(k)\<close> and the \<open>std::sort\<close> the program calls with it.\<close>

definition closer_to :: "key \<Rightarrow> peer \<Rightarrow> peer \<Rightarrow> bool" where
  "closer_to k p1 p2 \<longleftrightarrow> dist_lt (dist_between k (pkey p1)) (dist_between k (pkey p2))"

definition sort_peers :: "key \<Rightarrow> peer list \<Rightarrow> peer list" where
  "sort_peers k ps = sort_key (\<lambda>p. dist_between k (pkey p)) ps"

section \<open>Chunks\<close>

record chunk =
  original_publisher :: bool
  chunk_key :: key
  chunk_data :: string
  last_published :: time
  original_publish :: time

definition new_chunk :: "time \<Rightarrow> key \<Rightarrow> string \<Rightarrow> bool \<Rightarrow> time \<Rightarrow> chunk" where
  "new_chunk now k data publisher publish =
     \<lparr>original_publisher = publisher, chunk_key = k, chunk_data = data,
      last_published = now, original_publish = publish\<rparr>"

end
