(* ===== verification/Keys_Properties.thy ===== *)
theory Keys_Properties
  imports Keys
begin

text \<open>
  The properties of keys and distances: the comparison operators, the metric they order,
  keys made from data, and the sorting of peers.
\<close>

text \<open>C40: Dist's operator< compares the distances of two keys to a third as the unsigned numbers
  their exclusive or with it denotes, and operator>= is its negation.
\<close>

theorem dist_order_correct:
  "dist_lt (dist_between k a) (dist_between k b) = (unat (k XOR a) < unat (k XOR b)) \<and>
   dist_ge d e = (\<not> dist_lt d e)"
  by (simp add: dist_lt_iff dist_ge_iff dist_between_def word_less_nat_alt word_le_nat_alt not_less)

lemma xor_le_plus: "x XOR y \<le> x + (y :: nat)"
proof (induction x arbitrary: y rule: less_induct)
  case (less x)
  show ?case
  proof (cases "x = 0")
    case False
    then have "(x div 2) XOR (y div 2) \<le> x div 2 + y div 2" by (intro less) simp
    moreover have "x XOR y = of_bool (odd x \<noteq> odd y) + 2 * (x div 2 XOR y div 2)" by (rule xor_rec)
    ultimately show ?thesis by (cases "even x"; cases "even y") (simp_all add: of_bool_def, presburger+)
  qed simp
qed

text \<open>The distance is a metric, and it is unidirectional: from a key there is exactly one
  key at each distance, so peers with different keys are never equally far from a key.\<close>

theorem dist_metric:
  "dist_between a b = dist_between b a \<and> (dist_between a b = Dist 0 \<longleftrightarrow> a = b) \<and>
   unat (dist_value (dist_between a c)) \<le> unat (dist_value (dist_between a b)) + unat (dist_value (dist_between b c)) \<and>
   (\<exists>!x. dist_between a x = d)"
proof -
  have "a XOR c = (a XOR b) XOR (b XOR c)"
    by (rule bit_eqI) (auto simp: bit_xor_iff)
  then have "unat (a XOR c) = unat (a XOR b) XOR unat (b XOR c)"
    by (simp add: unsigned_xor_eq)
  then have triangle: "unat (a XOR c) \<le> unat (a XOR b) + unat (b XOR c)"
    using xor_le_plus [of "unat (a XOR b)" "unat (b XOR c)"] by simp
  have zero: "dist_between a b = Dist 0 \<longleftrightarrow> a = b"
    using dist_between_inject [of a b a] by (auto simp: dist_between_def)
  have "dist_between a (a XOR dist_value d) = d"
    by (cases d) (simp add: dist_between_def flip: xor.assoc)
  then have "\<exists>!x. dist_between a x = d" by (metis dist_between_inject)
  with triangle zero show ?thesis by (simp add: dist_between_def xor.commute)
qed

text \<open>key_from_data puts bit j of byte i of the digest at bit 8 i + j of the key, so two
  pieces of data get the same key exactly when their digests are equal.\<close>

theorem key_from_data_layout:
  assumes "length (sha1 x) = 20" and "length (sha1 y) = 20"
  shows "(\<forall>i j. i < 20 \<and> j < 8 \<longrightarrow> bit (key_from_data sha1 x) (8 * i + j) = bit (sha1 x ! i) j) \<and>
    (key_from_data sha1 x = key_from_data sha1 y \<longleftrightarrow> sha1 x = sha1 y)"
  using assms by (simp add: key_from_data_bit key_from_data_eq_iff)

text \<open>Sorting peers with StaticDistComparator has one possible result when their keys are
  distinct: every permutation of the peers in which no later peer is closer than an
  earlier one is the list that the model's sort returns.\<close>

theorem sort_peers_unique:
  assumes "distinct (map pkey ps)" and "mset qs = mset ps"
    and "sorted_wrt (\<lambda>p q. \<not> closer_to k q p) qs"
  shows "sort_peers k ps = qs"
proof -
  let ?d = "\<lambda>p. dist_between k (pkey p)"
  have inj: "inj_on ?d (set qs)"
    using assms(1,2) by (auto simp: inj_on_def distinct_map dest: mset_eq_setD)
  have "sorted (map ?d qs)"
    using assms(3) by (simp add: sorted_map closer_to_def less_dist_def [symmetric] not_less)
  moreover have "mset (sort_peers k ps) = mset qs"
    using assms(2) by (simp add: sort_peers_def)
  ultimately show ?thesis
    unfolding sort_peers_def using inj assms(2) mset_eq_setD [OF assms(2)]
    by (intro sort_key_inj_key_eq) simp_all
qed

text \<open>hex_string never fails and always gives six characters, but it prints a byte below 16 as
  one digit, so keys that differ in their first two bytes can share their text.\<close>

theorem hex_string_ambiguous:
  "(\<exists>str. hex_string k = Inr str \<and> length str = 6) \<and>
   hex_string (push_bit 144 0x0123) = Inr ''123000'' \<and> hex_string (push_bit 144 0x1203) = Inr ''123000''"
proof -
  have "hex_string (push_bit 144 0x0123) = Inr ''123000''" by code_simp
  moreover have "hex_string (push_bit 144 0x1203) = Inr ''123000''" by code_simp
  ultimately show ?thesis using hex_string_ok by blast
qed

section \<open>Examples\<close>

theorem key_from_data_layout_witness:
  "key_from_data (\<lambda>s. replicate 20 (of_nat (length s))) ''ab'' \<noteq>
     key_from_data (\<lambda>s. replicate 20 (of_nat (length s))) ''abc''"
  using key_from_data_layout [of "\<lambda>s. replicate 20 (of_nat (length s))" "''ab''" "''abc''"]
  by (simp add: numeral_eq_Suc)

theorem sort_peers_unique_witness:
  "sort_peers 1 [\<lparr>pkey = 2, endpoint = ''a:1''\<rparr>, \<lparr>pkey = 0, endpoint = ''b:1''\<rparr>] =
     [\<lparr>pkey = 0, endpoint = ''b:1''\<rparr>, \<lparr>pkey = 2, endpoint = ''a:1''\<rparr>]"
  by (rule sort_peers_unique) (simp_all add: closer_to_def dist_lt_iff dist_between_def)

end
