(* ===== verification/Router.thy ===== *)
theory Router
  imports Keys
begin

text \<open>
  \<open>src/dht/router.h\<close> and \<open>src/dht/router.cpp\<close>: the routing table, an unbalanced binary
  tree over the bits of the keys whose leaves are kbuckets. This theory holds the
  definitions; \<open>Router_Invariant\<close> and \<open>Router_Closest\<close> hold what they guarantee.

  A \<open>BinaryTree\<close> object is one of two constructors, after its \<open>leaf\<close> flag. The kbucket of
  a joint is not represented: \<open>split\<close> empties it and nothing fills it again. The
  \<open>parent\<close> pointer is the position in the tree: where the code walks up the parents to
  adjust their key counts, the model adjusts them on the way back from the child.
  All clock readings of one operation are the parameter \<open>now\<close>.
\<close>

datatype bintree =
    Leaf (split_bit_index: uint) (key_count: uint) (latest_access: time) (kbucket: "peer list")
  | Joint (split_bit_index: uint) (key_count: uint) (latest_access: time)
      (zero_tree: bintree) (one_tree: bintree)

definition kbucket_max :: nat where
  "kbucket_max = 20"

lemmas kbucket_max [simp] = kbucket_max_def

definition new_tree :: "time \<Rightarrow> uint \<Rightarrow> bintree" where
  "new_tree now b = Leaf b 0 now []"

section \<open>Splitting a leaf\<close>

fun leaf_push_back :: "peer \<Rightarrow> bintree \<Rightarrow> bintree" where
  "leaf_push_back p (Leaf b c a kb) = Leaf b (c + 1) a (kb @ [p])"
| "leaf_push_back p t = t"

text \<open>The loop that hands the peers of the old kbucket to the two new leaves.\<close>

fun split_loop :: "uint \<Rightarrow> peer list \<Rightarrow> bintree \<Rightarrow> bintree \<Rightarrow> bintree \<times> bintree" where
  "split_loop b [] zt ot = (zt, ot)"
| "split_loop b (p # ps) zt ot =
     (if bit (pkey p) (unat b)
      then split_loop b ps zt (leaf_push_back p ot)
      else split_loop b ps (leaf_push_back p zt) ot)"

fun split :: "time \<Rightarrow> bintree \<Rightarrow> bintree" where
  "split now (Leaf b c a kb) =
     (let (zt, ot) = split_loop b kb (new_tree now (b - 1)) (new_tree now (b - 1))
      in Joint b c a zt ot)"
| "split now t = t"

section \<open>Inserting and evicting\<close>

text \<open>How the loop of \<open>attempt_insert_peer\<close> ends.\<close>

datatype insert_outcome = Refreshed | Inserted | Bucket_Full peer | Exhausted

text \<open>Index of the first peer of a kbucket with the given key.\<close>

fun key_index :: "key \<Rightarrow> peer list \<Rightarrow> nat option" where
  "key_index k [] = None"
| "key_index k (p # ps) = (if pkey p = k then Some 0 else map_option Suc (key_index k ps))"

text \<open>\<open>std::rotate(begin, begin + i, begin + i + 1)\<close>\<close>

definition rotate_to_front :: "nat \<Rightarrow> 'a list \<Rightarrow> 'a list" where
  "rotate_to_front i xs = xs ! i # take i xs @ drop (Suc i) xs"

text \<open>
  One step of a descent: \<open>f\<close> works on the child of the joint selected by the key, and
  \<open>adjust\<close> updates the key count of the joint from what \<open>f\<close> reports.
\<close>

definition into_child ::
  "('r \<Rightarrow> uint \<Rightarrow> uint) \<Rightarrow> (bintree \<Rightarrow> 'r \<times> bintree) \<Rightarrow> key \<Rightarrow> bintree \<Rightarrow> 'r \<times> bintree" where
  "into_child adjust f k t =
     (if bit k (unat (split_bit_index t))
      then (let (r, ot) = f (one_tree t)
            in (r, Joint (split_bit_index t) (adjust r (key_count t)) (latest_access t) (zero_tree t) ot))
      else (let (r, zt) = f (zero_tree t)
            in (r, Joint (split_bit_index t) (adjust r (key_count t)) (latest_access t) zt (one_tree t))))"

definition count_insert :: "insert_outcome \<Rightarrow> uint \<Rightarrow> uint" where
  "count_insert r c = (if r = Inserted then c + 1 else c)"

text \<open>The loop of \<open>attempt_insert_peer\<close>; the first argument is the number of iterations left.\<close>

primrec insert_loop ::
  "nat \<Rightarrow> time \<Rightarrow> key \<Rightarrow> key \<Rightarrow> string \<Rightarrow> bintree \<Rightarrow> insert_outcome \<times> bintree" where
  "insert_loop 0 now self k ep t = (Exhausted, t)"
| "insert_loop (Suc n) now self k ep t =
     (case t of
        Joint b c a zt ot \<Rightarrow> into_child count_insert (insert_loop n now self k ep) k t
      | Leaf b c a kb \<Rightarrow>
          (case key_index k kb of
             Some i \<Rightarrow>
               (Refreshed, Leaf b c now (rotate_to_front i (kb[i := (kb ! i)\<lparr>endpoint := ep\<rparr>])))
           | None \<Rightarrow>
               if length kb < kbucket_max
               then (Inserted, Leaf b (c + 1) now (\<lparr>pkey = k, endpoint = ep\<rparr> # kb))
               else if bit k (unat b) = bit self (unat b) \<and> 0 < b
               then into_child count_insert (insert_loop n now self k ep) k (split now t)
               else (Bucket_Full (last kb), t)))"

definition count_evict :: "bool \<Rightarrow> uint \<Rightarrow> uint" where
  "count_evict evicted c = (if evicted then c - 1 else c)"

text \<open>
  The loop of \<open>evict_peer\<close>. When the leaf does not hold the key the loop goes on at the
  same leaf until its iterations are used up.
\<close>

primrec evict_loop :: "nat \<Rightarrow> key \<Rightarrow> bintree \<Rightarrow> bool \<times> bintree" where
  "evict_loop 0 k t = (False, t)"
| "evict_loop (Suc n) k t =
     (case t of
        Joint b c a zt ot \<Rightarrow> into_child count_evict (evict_loop n k) k t
      | Leaf b c a kb \<Rightarrow>
          (case key_index k kb of
             Some i \<Rightarrow> (True, Leaf b (c - 1) a (take i kb @ drop (Suc i) kb))
           | None \<Rightarrow> evict_loop n k t))"

section \<open>Reading the tree\<close>

text \<open>
  \<open>tree_closest_peers\<close> appends to the buffer. The joint asks the alternate tree for
  \<open>preferred_tree->key_count - n\<close> peers when \<open>n < preferred_tree->key_count\<close>, as written
  in the code.
\<close>

fun tree_closest_peers ::
  "time \<Rightarrow> key \<Rightarrow> uint \<Rightarrow> bintree \<Rightarrow> peer list \<Rightarrow> peer list \<times> bintree" where
  "tree_closest_peers now s n (Leaf b c a kb) buffer =
     (buffer @ take (unat n) kb, Leaf b c now kb)"
| "tree_closest_peers now s n (Joint b c a zt ot) buffer =
     (if bit s (unat b)
      then (let (buffer1, ot1) = tree_closest_peers now s n ot buffer in
            if n < key_count ot1
            then (let (buffer2, zt1) = tree_closest_peers now s (key_count ot1 - n) zt buffer1
                  in (buffer2, Joint b c a zt1 ot1))
            else (buffer1, Joint b c a zt ot1))
      else (let (buffer1, zt1) = tree_closest_peers now s n zt buffer in
            if n < key_count zt1
            then (let (buffer2, ot1) = tree_closest_peers now s (key_count zt1 - n) ot buffer1
                  in (buffer2, Joint b c a zt1 ot1))
            else (buffer1, Joint b c a zt1 ot)))"

fun tree_all_peers :: "bintree \<Rightarrow> peer list \<Rightarrow> peer list" where
  "tree_all_peers (Leaf b c a kb) buffer = buffer @ kb"
| "tree_all_peers (Joint b c a zt ot) buffer = tree_all_peers zt (tree_all_peers ot buffer)"

text \<open>
  \<open>random_per_bucket_peers_helper\<close>. The environment is the sequence of clock readings and
  the sequence of \<open>std::rand()\<close> results; the state counts how many of each were taken
  and holds the peer buffer.
\<close>

record sampling =
  clock_reads :: nat
  rand_calls :: nat
  sampled :: "peer list"

fun random_per_bucket_peers_helper ::
  "(nat \<Rightarrow> time) \<Rightarrow> (nat \<Rightarrow> nat) \<Rightarrow> int \<Rightarrow> bintree \<Rightarrow> sampling \<Rightarrow> cpp_error + (bintree \<times> sampling)" where
  "random_per_bucket_peers_helper clock rand unaccessed (Leaf b c a kb) st =
     (let accessed = clock (clock_reads st);
          time_since_access = to_seconds (clock (Suc (clock_reads st)) - accessed);
          t = Leaf b c accessed kb;
          st = st\<lparr>clock_reads := clock_reads st + 2\<rparr>
      in if unaccessed \<le> time_since_access
         then if kb = [] then Inl Division_By_Zero
              else Inr (t, st\<lparr>rand_calls := Suc (rand_calls st),
                              sampled := sampled st @ [kb ! (rand (rand_calls st) mod length kb)]\<rparr>)
         else Inr (t, st))"
| "random_per_bucket_peers_helper clock rand unaccessed (Joint b c a zt ot) st =
     and_then (random_per_bucket_peers_helper clock rand unaccessed zt st) (\<lambda>(zt1, st1).
     and_then (random_per_bucket_peers_helper clock rand unaccessed ot st1) (\<lambda>(ot1, st2).
     Inr (Joint b c a zt1 ot1, st2)))"

section \<open>The router\<close>

record router =
  self_peer :: peer
  table :: bintree

text \<open>
  \<open>attempt_insert_peer\<close> returns its verdict and, when it wrote \<open>*lru_peer_buffer\<close>, the
  peer it wrote there.
\<close>

fun insert_verdict :: "insert_outcome \<Rightarrow> bool \<times> peer option" where
  "insert_verdict (Bucket_Full p) = (False, Some p)"
| "insert_verdict Exhausted = (False, None)"
| "insert_verdict r = (True, None)"

definition attempt_insert_peer ::
  "time \<Rightarrow> key \<Rightarrow> string \<Rightarrow> router \<Rightarrow> (bool \<times> peer option) \<times> router" where
  "attempt_insert_peer now k ep r =
     (if k = pkey (self_peer r) \<or> ep = endpoint (self_peer r) then ((True, None), r)
      else (let (res, t) = insert_loop 160 now (pkey (self_peer r)) k ep (table r)
            in (insert_verdict res, r\<lparr>table := t\<rparr>)))"

definition evict_peer :: "key \<Rightarrow> router \<Rightarrow> router" where
  "evict_peer k r =
     (if k = pkey (self_peer r) then r
      else r\<lparr>table := snd (evict_loop 160 k (table r))\<rparr>)"

definition new_router :: "time \<Rightarrow> key \<Rightarrow> string \<Rightarrow> key \<Rightarrow> string \<Rightarrow> router" where
  "new_router now self_key self_endpoint other_key other_endpoint =
     snd (attempt_insert_peer now other_key other_endpoint
       \<lparr>self_peer = \<lparr>pkey = self_key, endpoint = self_endpoint\<rparr>, table = new_tree now 159\<rparr>)"

definition closest_peers :: "time \<Rightarrow> key \<Rightarrow> uint \<Rightarrow> router \<Rightarrow> peer list \<times> router" where
  "closest_peers now s n r =
     (let (ps, t) = tree_closest_peers now s n (table r) [] in (ps, r\<lparr>table := t\<rparr>))"

definition all_peers :: "router \<Rightarrow> peer list" where
  "all_peers r = tree_all_peers (table r) []"

definition get_peer :: "time \<Rightarrow> key \<Rightarrow> router \<Rightarrow> peer option \<times> router" where
  "get_peer now s r =
     (let (buffer, r) = closest_peers now s 1 r in
      if buffer = [] \<or> pkey (buffer ! 0) \<noteq> s then (None, r) else (Some (buffer ! 0), r))"

definition get_self_peer :: "router \<Rightarrow> peer" where
  "get_self_peer r = self_peer r"

definition random_per_bucket_peers ::
  "(nat \<Rightarrow> time) \<Rightarrow> (nat \<Rightarrow> nat) \<Rightarrow> int \<Rightarrow> router \<Rightarrow> cpp_error + (peer list \<times> router)" where
  "random_per_bucket_peers clock rand unaccessed r =
     and_then (random_per_bucket_peers_helper clock rand unaccessed (table r)
                 \<lparr>clock_reads = 0, rand_calls = 0, sampled = []\<rparr>)
       (\<lambda>(t, st). Inr (sampled st, r\<lparr>table := t\<rparr>))"

end
