(* ===== verification/Router_Invariant.thy ===== *)
theory Router_Invariant
  imports Router
begin

text \<open>
  What the routing table keeps: the well-formedness of the tree (bit indices, kbucket
  bounds, exact key counts, distinct keys, every peer on the side of each joint that its
  key selects), and the effect of \<open>attempt_insert_peer\<close> and \<open>evict_peer\<close> on the set of
  contacts. The interface locale \<open>peer_table\<close> states what the session relies on.
\<close>

section \<open>The peers of a tree and its well-formedness\<close>

fun tree_peers :: "bintree \<Rightarrow> peer list" where
  "tree_peers (Leaf b c a kb) = kb"
| "tree_peers (Joint b c a zt ot) = tree_peers ot @ tree_peers zt"

fun wf_tree :: "nat \<Rightarrow> bintree \<Rightarrow> bool" where
  "wf_tree i (Leaf b c a kb) \<longleftrightarrow>
     unat b = i \<and> length kb \<le> 20 \<and> c = of_nat (length kb) \<and> distinct (map pkey kb)"
| "wf_tree i (Joint b c a zt ot) \<longleftrightarrow>
     unat b = i \<and> 0 < i \<and> c = of_nat (length (tree_peers zt) + length (tree_peers ot)) \<and>
     wf_tree (i - 1) zt \<and> wf_tree (i - 1) ot \<and>
     (\<forall>p\<in>set (tree_peers zt). \<not> bit (pkey p) i) \<and> (\<forall>p\<in>set (tree_peers ot). bit (pkey p) i)"

definition tree_keys :: "bintree \<Rightarrow> key set" where
  "tree_keys t = pkey ` set (tree_peers t)"

lemma tree_keys_notin: "k \<notin> tree_keys t \<longleftrightarrow> (\<forall>p\<in>set (tree_peers t). pkey p \<noteq> k)"
  by (auto simp: tree_keys_def image_iff)

text \<open>The kbucket of the leaf that a key leads to.\<close>

fun bucket_of :: "key \<Rightarrow> bintree \<Rightarrow> peer list" where
  "bucket_of k (Leaf b c a kb) = kb"
| "bucket_of k (Joint b c a zt ot) = (if bit k (unat b) then bucket_of k ot else bucket_of k zt)"

lemma tree_all_peers_eq: "tree_all_peers t buffer = buffer @ tree_peers t"
  by (induction t arbitrary: buffer) auto

lemma wf_tree_key_count: "wf_tree i t \<Longrightarrow> key_count t = of_nat (length (tree_peers t))"
  by (cases t) auto

lemma wf_tree_bit_index: "wf_tree i t \<Longrightarrow> unat (split_bit_index t) = i"
  by (cases t) auto

lemma wf_tree_distinct: "wf_tree i t \<Longrightarrow> distinct (map pkey (tree_peers t))"
  by (induction i t rule: wf_tree.induct) auto

lemma bucket_subset: "set (bucket_of k t) \<subseteq> set (tree_peers t)"
  by (induction t) auto

lemma wf_bucket: "wf_tree i t \<Longrightarrow> length (bucket_of k t) \<le> 20 \<and> distinct (map pkey (bucket_of k t))"
  by (induction i t rule: wf_tree.induct) auto

lemma wf_peer_in_bucket: "wf_tree i t \<Longrightarrow> p \<in> set (tree_peers t) \<Longrightarrow> p \<in> set (bucket_of (pkey p) t)"
  by (induction i t rule: wf_tree.induct) auto

lemma wf_key_in_bucket:
  "wf_tree i t \<Longrightarrow> k \<in> tree_keys t \<longleftrightarrow> k \<in> pkey ` set (bucket_of k t)"
  using wf_peer_in_bucket bucket_subset by (force simp: tree_keys_def)

section \<open>Splitting\<close>

lemma split_loop_eq:
  "split_loop b kb (Leaf bz cz az zs) (Leaf bo co ao os) =
     (Leaf bz (cz + of_nat (length (filter (\<lambda>p. \<not> bit (pkey p) (unat b)) kb))) az
        (zs @ filter (\<lambda>p. \<not> bit (pkey p) (unat b)) kb),
      Leaf bo (co + of_nat (length (filter (\<lambda>p. bit (pkey p) (unat b)) kb))) ao
        (os @ filter (\<lambda>p. bit (pkey p) (unat b)) kb))"
  by (induction kb arbitrary: cz zs co os) auto

lemma split_eq:
  "split now (Leaf b c a kb) =
     Joint b c a
       (Leaf (b - 1) (of_nat (length (filter (\<lambda>p. \<not> bit (pkey p) (unat b)) kb))) now
          (filter (\<lambda>p. \<not> bit (pkey p) (unat b)) kb))
       (Leaf (b - 1) (of_nat (length (filter (\<lambda>p. bit (pkey p) (unat b)) kb))) now
          (filter (\<lambda>p. bit (pkey p) (unat b)) kb))"
  by (simp add: new_tree_def split_loop_eq)

declare split.simps(1) [simp del]

lemma length_sides: "length (filter (\<lambda>p. \<not> P p) xs) + length (filter P xs) = length xs"
  using sum_length_filter_compl [of P xs] by simp

lemma wf_split:
  assumes "wf_tree i (Leaf b c a kb)" and "0 < b"
  shows "wf_tree i (split now (Leaf b c a kb))"
proof -
  have "unat (b - 1) = i - 1" and "0 < i"
    using assms by (auto simp: unat_minus_one unat_gt_0)
  moreover have "length (filter P kb) \<le> 20" for P
    using assms(1) by (auto intro: le_trans [OF length_filter_le])
  ultimately show ?thesis
    using assms by (simp add: split_eq length_sides distinct_map_filter del: of_nat_add)
qed

lemma mset_split: "mset (tree_peers (split now t)) = mset (tree_peers t)"
  by (cases t) (simp_all add: split_eq)

lemma bucket_split:
  "bucket_of k (split now (Leaf b c a kb)) =
     filter (\<lambda>p. bit (pkey p) (unat b) = bit k (unat b)) kb"
  by (auto simp: split_eq intro: filter_cong)

lemma bucket_split_subseq: "subseq (bucket_of k (split now t)) (bucket_of k t)"
  by (cases t) (auto simp: bucket_split)

lemma key_index_None: "key_index k kb = None \<longleftrightarrow> k \<notin> pkey ` set kb"
  by (induction kb) auto

lemma key_index_Some:
  "key_index k kb = Some i \<Longrightarrow> i < length kb \<and> pkey (kb ! i) = k \<and> k \<notin> pkey ` set (take i kb)"
  by (induction kb arbitrary: i) (auto split: if_splits)

lemma key_index_remove:
  assumes "key_index k kb = Some i" and "distinct (map pkey kb)"
  shows "take i kb @ drop (Suc i) kb = filter (\<lambda>p. pkey p \<noteq> k) kb"
  using assms
proof (induction kb arbitrary: i)
  case Nil
  then show ?case by simp
next
  case (Cons p kb)
  show ?case
  proof (cases "pkey p = k")
    case True
    with Cons.prems have "\<forall>q\<in>set kb. pkey q \<noteq> k" by (auto simp: image_iff)
    then have "filter (\<lambda>q. pkey q \<noteq> k) kb = kb" by simp
    with True Cons.prems show ?thesis by simp
  next
    case False
    with Cons show ?thesis by auto
  qed
qed

lemma refresh_bucket:
  assumes "key_index k kb = Some i"
  shows "rotate_to_front i (kb[i := (kb ! i)\<lparr>endpoint := ep\<rparr>]) =
         \<lparr>pkey = k, endpoint = ep\<rparr> # take i kb @ drop (Suc i) kb"
  using key_index_Some [OF assms] by (cases "kb ! i") (simp add: rotate_to_front_def)

section \<open>What an insertion does\<close>

text \<open>
  The contract of the insertion loop on a tree: the peer is put in place of the peer with
  its key, if any, or the tree keeps its peers and the peer returned is the least
  recently used one of the full kbucket the key leads to.
\<close>

definition insert_spec :: "key \<Rightarrow> string \<Rightarrow> bintree \<Rightarrow> insert_outcome \<times> bintree \<Rightarrow> bool" where
  "insert_spec k ep t res \<longleftrightarrow>
     (case res of
        (Inserted, t') \<Rightarrow> k \<notin> tree_keys t \<and>
          mset (tree_peers t') = add_mset \<lparr>pkey = k, endpoint = ep\<rparr> (mset (tree_peers t))
      | (Refreshed, t') \<Rightarrow> k \<in> tree_keys t \<and> length (tree_peers t') = length (tree_peers t) \<and>
          mset (tree_peers t') = add_mset \<lparr>pkey = k, endpoint = ep\<rparr>
            (filter_mset (\<lambda>p. pkey p \<noteq> k) (mset (tree_peers t)))
      | (Bucket_Full p, t') \<Rightarrow> k \<notin> tree_keys t \<and> mset (tree_peers t') = mset (tree_peers t) \<and>
          length (bucket_of k t') = 20 \<and> p = last (bucket_of k t')
      | (Exhausted, t') \<Rightarrow> False)"

lemma insert_spec_cong:
  "mset (tree_peers t) = mset (tree_peers u) \<Longrightarrow> insert_spec k ep t res \<longleftrightarrow> insert_spec k ep u res"
proof -
  assume eq: "mset (tree_peers t) = mset (tree_peers u)"
  then have "tree_keys t = tree_keys u" and "length (tree_peers t) = length (tree_peers u)"
    by (auto simp: tree_keys_def dest: mset_eq_setD mset_eq_length)
  with eq show ?thesis
    by (cases res; cases "fst res") (simp_all add: insert_spec_def)
qed

lemma filter_mset_idle: "k \<notin> pkey ` set_mset M \<Longrightarrow> filter_mset (\<lambda>p. pkey p \<noteq> k) M = M"
  by (induction M) auto

lemma into_child_insert:
  assumes wf: "wf_tree i (Joint b c a zt ot)"
    and step: "\<And>t. wf_tree (i - 1) t \<Longrightarrow> wf_tree (i - 1) (snd (f t)) \<and> insert_spec k ep t (f t)"
  shows "wf_tree i (snd (into_child count_insert f k (Joint b c a zt ot))) \<and>
         insert_spec k ep (Joint b c a zt ot) (into_child count_insert f k (Joint b c a zt ot))"
proof (cases "bit k i")
  case True
  obtain r ot' where f: "f ot = (r, ot')" by fastforce
  have wf': "wf_tree (i - 1) ot'" and spec: "insert_spec k ep ot (r, ot')"
    using step [of ot] wf f by auto
  have away: "k \<notin> tree_keys zt" using wf True by (auto simp: tree_keys_def)
  have sides: "\<forall>p\<in>set (tree_peers ot'). bit (pkey p) i" if "r \<noteq> Exhausted"
    using spec wf True that
    by (cases r) (auto simp: insert_spec_def simp flip: set_mset_mset)
  have size: "length (tree_peers ot') = length (tree_peers ot) + (if r = Inserted then 1 else 0)"
    using spec by (cases r) (auto simp: insert_spec_def dest: mset_eq_length simp flip: size_mset)
  show ?thesis
    using wf True f wf' spec away sides size
    by (cases r)
       (auto simp: into_child_def insert_spec_def count_insert_def tree_keys_def filter_mset_idle)
next
  case False
  obtain r zt' where f: "f zt = (r, zt')" by fastforce
  have wf': "wf_tree (i - 1) zt'" and spec: "insert_spec k ep zt (r, zt')"
    using step [of zt] wf f by auto
  have away: "k \<notin> tree_keys ot" using wf False by (auto simp: tree_keys_def)
  have sides: "\<forall>p\<in>set (tree_peers zt'). \<not> bit (pkey p) i" if "r \<noteq> Exhausted"
    using spec wf False that
    by (cases r) (auto simp: insert_spec_def simp flip: set_mset_mset)
  have size: "length (tree_peers zt') = length (tree_peers zt) + (if r = Inserted then 1 else 0)"
    using spec by (cases r) (auto simp: insert_spec_def dest: mset_eq_length simp flip: size_mset)
  show ?thesis
    using wf False f wf' spec away sides size
    by (cases r)
       (auto simp: into_child_def insert_spec_def count_insert_def tree_keys_def filter_mset_idle)
qed

lemma insert_loop_leaf_found:
  assumes "wf_tree i (Leaf b c a kb)" and "key_index k kb = Some j"
  shows "wf_tree i (Leaf b c now (rotate_to_front j (kb[j := (kb ! j)\<lparr>endpoint := ep\<rparr>])))" (is ?wf)
    and "insert_spec k ep (Leaf b c a kb)
           (Refreshed, Leaf b c now (rotate_to_front j (kb[j := (kb ! j)\<lparr>endpoint := ep\<rparr>])))" (is ?spec)
proof -
  have kb: "rotate_to_front j (kb[j := (kb ! j)\<lparr>endpoint := ep\<rparr>]) =
      \<lparr>pkey = k, endpoint = ep\<rparr> # filter (\<lambda>p. pkey p \<noteq> k) kb"
    using assms by (simp add: refresh_bucket key_index_remove)
  have j: "j < length kb" and k: "k \<in> pkey ` set kb"
    using key_index_Some [OF assms(2)] by auto
  have "take j kb @ drop (Suc j) kb = filter (\<lambda>p. pkey p \<noteq> k) kb"
    using assms by (simp add: key_index_remove)
  then have "length (filter (\<lambda>p. pkey p \<noteq> k) kb) = length (take j kb @ drop (Suc j) kb)"
    by simp
  with j have len: "Suc (length (filter (\<lambda>p. pkey p \<noteq> k) kb)) = length kb"
    by simp
  have "distinct (map pkey (filter (\<lambda>p. pkey p \<noteq> k) kb))"
    using assms(1) by (simp add: distinct_map_filter)
  then show ?wf
    using assms(1) len by (auto simp: kb)
  show ?spec
    using k len by (simp add: insert_spec_def kb tree_keys_def)
qed

lemma insert_loop_correct:
  "wf_tree i t \<Longrightarrow> i < n \<Longrightarrow>
     wf_tree i (snd (insert_loop n now self k ep t)) \<and> insert_spec k ep t (insert_loop n now self k ep t)"
proof (induction n arbitrary: i t)
  case 0
  then show ?case by simp
next
  case (Suc n)
  show ?case
  proof (cases t)
    case (Joint b c a zt ot)
    have "i - 1 < n" using Suc.prems Joint by auto
    from into_child_insert [OF _ Suc.IH [OF _ this]] Suc.prems(1)
    show ?thesis by (simp only: Joint insert_loop.simps bintree.case)
  next
    case (Leaf b c a kb)
    show ?thesis
    proof (cases "key_index k kb")
      case (Some j)
      with Leaf Suc.prems insert_loop_leaf_found [OF _ Some] show ?thesis by simp
    next
      case None
      then have new: "k \<notin> pkey ` set kb" by (simp add: key_index_None)
      consider "length kb < 20" | "\<not> length kb < 20" "bit k (unat b) = bit self (unat b) \<and> 0 < b"
        | "\<not> length kb < 20" "\<not> (bit k (unat b) = bit self (unat b) \<and> 0 < b)" by blast
      then show ?thesis
      proof cases
        case 1
        with Leaf None new Suc.prems show ?thesis
          by (auto simp: insert_spec_def tree_keys_def)
      next
        case 2
        let ?j = "split now (Leaf b c a kb)"
        have wf: "wf_tree i ?j" using Suc.prems Leaf 2 by (intro wf_split) auto
        have "0 < unat b" using 2 by (simp add: word_less_nat_alt)
        then have "i - 1 < n" using Suc.prems Leaf by auto
        from into_child_insert [OF _ Suc.IH [OF _ this]] wf
        have "wf_tree i (snd (into_child count_insert (insert_loop n now self k ep) k ?j)) \<and>
            insert_spec k ep ?j (into_child count_insert (insert_loop n now self k ep) k ?j)"
          unfolding split_eq by blast
        with Leaf None 2 show ?thesis
          by (simp add: insert_spec_cong [OF mset_split])
      next
        case 3
        with Leaf None new Suc.prems show ?thesis
          by (auto simp: insert_spec_def tree_keys_def)
      qed
    qed
  qed
qed

section \<open>What an eviction does\<close>

definition evict_spec :: "key \<Rightarrow> bintree \<Rightarrow> bool \<times> bintree \<Rightarrow> bool" where
  "evict_spec k t res \<longleftrightarrow>
     (if fst res
      then k \<in> tree_keys t \<and> length (tree_peers t) = Suc (length (tree_peers (snd res))) \<and>
           tree_peers (snd res) = filter (\<lambda>p. pkey p \<noteq> k) (tree_peers t)
      else k \<notin> tree_keys t \<and> snd res = t)"

lemma into_child_evict:
  assumes wf: "wf_tree i (Joint b c a zt ot)"
    and step: "\<And>t. wf_tree (i - 1) t \<Longrightarrow> wf_tree (i - 1) (snd (f t)) \<and> evict_spec k t (f t)"
  shows "wf_tree i (snd (into_child count_evict f k (Joint b c a zt ot))) \<and>
         evict_spec k (Joint b c a zt ot) (into_child count_evict f k (Joint b c a zt ot))"
proof (cases "bit k i")
  case True
  obtain r ot' where f: "f ot = (r, ot')" by fastforce
  have wf': "wf_tree (i - 1) ot'" and spec: "evict_spec k ot (r, ot')"
    using step [of ot] wf f by auto
  have away: "\<forall>p\<in>set (tree_peers zt). pkey p \<noteq> k" using wf True by auto
  have count: "(of_nat (length (tree_peers zt) + length (tree_peers ot)) :: uint) - 1 =
      of_nat (length (tree_peers zt) + length (tree_peers ot'))" if r
  proof -
    have "length (tree_peers ot) = Suc (length (tree_peers ot'))"
      using spec that by (simp add: evict_spec_def)
    then show ?thesis by (simp only: add_Suc_right) simp
  qed
  show ?thesis
    using wf True f wf' spec away count
    by (cases r) (auto simp: into_child_def evict_spec_def count_evict_def tree_keys_def)
next
  case False
  obtain r zt' where f: "f zt = (r, zt')" by fastforce
  have wf': "wf_tree (i - 1) zt'" and spec: "evict_spec k zt (r, zt')"
    using step [of zt] wf f by auto
  have away: "\<forall>p\<in>set (tree_peers ot). pkey p \<noteq> k" using wf False by auto
  have count: "(of_nat (length (tree_peers zt) + length (tree_peers ot)) :: uint) - 1 =
      of_nat (length (tree_peers zt') + length (tree_peers ot))" if r
  proof -
    have "length (tree_peers zt) = Suc (length (tree_peers zt'))"
      using spec that by (simp add: evict_spec_def)
    then show ?thesis by (simp only: add_Suc) simp
  qed
  show ?thesis
    using wf False f wf' spec away count
    by (cases r) (auto simp: into_child_def evict_spec_def count_evict_def tree_keys_def)
qed

lemma evict_leaf_absent:
  "k \<notin> pkey ` set kb \<Longrightarrow> evict_loop n k (Leaf b c a kb) = (False, Leaf b c a kb)"
  by (induction n) (auto simp flip: key_index_None)

lemma evict_loop_correct:
  "wf_tree i t \<Longrightarrow> i < n \<Longrightarrow>
     wf_tree i (snd (evict_loop n k t)) \<and> evict_spec k t (evict_loop n k t)"
proof (induction n arbitrary: i t)
  case 0
  then show ?case by simp
next
  case (Suc n)
  show ?case
  proof (cases t)
    case (Joint b c a zt ot)
    have "i - 1 < n" using Suc.prems Joint by auto
    from into_child_evict [OF _ Suc.IH [OF _ this]] Suc.prems(1)
    show ?thesis by (simp only: Joint evict_loop.simps bintree.case)
  next
    case (Leaf b c a kb)
    show ?thesis
    proof (cases "key_index k kb")
      case None
      then have "k \<notin> pkey ` set kb" by (simp add: key_index_None)
      with Leaf Suc.prems show ?thesis
        by (simp add: evict_leaf_absent evict_spec_def tree_keys_def del: evict_loop.simps)
    next
      case (Some j)
      have j: "j < length kb" "k \<in> pkey ` set kb" using key_index_Some [OF Some] by auto
      have kb: "take j kb @ drop (Suc j) kb = filter (\<lambda>p. pkey p \<noteq> k) kb"
        using key_index_remove [OF Some] Suc.prems(1) Leaf by simp
      have "length (take j kb @ drop (Suc j) kb) = length kb - 1" using j by simp
      then have len: "length kb = Suc (length (filter (\<lambda>p. pkey p \<noteq> k) kb))"
        using j unfolding kb by simp
      show ?thesis
        using Leaf Some Suc.prems j(2) len
        by (auto simp: kb evict_spec_def tree_keys_def distinct_map_filter)
    qed
  qed
qed

section \<open>The kbuckets as least-recently-used lists\<close>

lemma into_child_result:
  "fst (into_child adjust f k (Joint b c a zt ot)) = fst (f (if bit k (unat b) then ot else zt))"
  "bucket_of k (snd (into_child adjust f k (Joint b c a zt ot))) =
     bucket_of k (snd (f (if bit k (unat b) then ot else zt)))"
  by (auto simp: into_child_def split: prod.splits)

lemma bucket_of_Joint: "bucket_of k (Joint b c a zt ot) = bucket_of k (if bit k (unat b) then ot else zt)"
  by simp

lemma insert_loop_front:
  assumes "fst (insert_loop n now self k ep t) = Inserted \<or> fst (insert_loop n now self k ep t) = Refreshed"
  shows "\<exists>rest. bucket_of k (snd (insert_loop n now self k ep t)) = \<lparr>pkey = k, endpoint = ep\<rparr> # rest \<and>
           subseq rest (bucket_of k t)"
  using assms
proof (induction n arbitrary: t)
  case 0
  then show ?case by simp
next
  case (Suc n)
  show ?case
  proof (cases t)
    case (Joint b c a zt ot)
    with Suc.IH [of ot] Suc.IH [of zt] Suc.prems show ?thesis
      by (simp add: into_child_result split: if_splits)
  next
    case (Leaf b c a kb)
    show ?thesis
    proof (cases "key_index k kb")
      case (Some j)
      have "drop (Suc j) kb = drop 1 (drop j kb)" by simp
      then have "subseq (drop (Suc j) kb) (drop j kb)" by (simp only: suffix_drop suffix_imp_subseq)
      then have "subseq (take j kb @ drop (Suc j) kb) (take j kb @ drop j kb)"
        by (intro list_emb_append_mono) simp_all
      with Leaf Some show ?thesis by (simp add: refresh_bucket)
    next
      case None
      consider "length kb < 20" | "\<not> length kb < 20" "bit k (unat b) = bit self (unat b) \<and> 0 < b"
        using Leaf None Suc.prems by (auto split: if_splits)
      then show ?thesis
      proof cases
        case 1
        with Leaf None show ?thesis by simp
      next
        case 2
        let ?u = "split now (Leaf b c a kb)"
        obtain u where "insert_loop (Suc n) now self k ep t =
              into_child count_insert (insert_loop n now self k ep) k ?u"
          and u: "fst (insert_loop (Suc n) now self k ep t) = fst (insert_loop n now self k ep u)"
             "bucket_of k (snd (insert_loop (Suc n) now self k ep t)) = bucket_of k (snd (insert_loop n now self k ep u))"
             "bucket_of k ?u = bucket_of k u"
          using Leaf None 2 by (simp add: split_eq into_child_result bucket_of_Joint del: bucket_of.simps)
        with Suc.prems Suc.IH [of u] obtain rest where
          "bucket_of k (snd (insert_loop n now self k ep u)) = \<lparr>pkey = k, endpoint = ep\<rparr> # rest"
          "subseq rest (bucket_of k ?u)" by auto
        moreover have "subseq (bucket_of k ?u) (bucket_of k t)"
          unfolding Leaf by (rule bucket_split_subseq)
        ultimately show ?thesis unfolding u(2) by (blast intro: subseq_order.trans)
      qed
    qed
  qed
qed

lemma insert_loop_room:
  assumes "wf_tree i t" and "i < n" and "length (bucket_of k t) < 20"
  shows "fst (insert_loop n now self k ep t) = Inserted \<or> fst (insert_loop n now self k ep t) = Refreshed"
  using assms
proof (induction n arbitrary: i t)
  case 0
  then show ?case by simp
next
  case (Suc n)
  show ?case
  proof (cases t)
    case (Joint b c a zt ot)
    have "i - 1 < n" using Suc.prems Joint by auto
    with Suc.IH [of "i - 1" "if bit k (unat b) then ot else zt"] Suc.prems Joint
    show ?thesis by (auto simp: into_child_result split: if_splits)
  next
    case (Leaf b c a kb)
    with Suc.prems show ?thesis by (auto split: option.split)
  qed
qed

lemma evict_loop_bucket:
  assumes "wf_tree i t" and "i < n" and "p \<in> set (bucket_of k t)"
  shows "bucket_of k (snd (evict_loop n (pkey p) t)) = filter (\<lambda>q. pkey q \<noteq> pkey p) (bucket_of k t)"
  using assms
proof (induction n arbitrary: i t)
  case 0
  then show ?case by simp
next
  case (Suc n)
  show ?case
  proof (cases t)
    case (Joint b c a zt ot)
    have "i - 1 < n" using Suc.prems Joint by auto
    moreover have "bit (pkey p) (unat b) = bit k (unat b)"
      using Suc.prems Joint bucket_subset [of k ot] bucket_subset [of k zt] by (auto split: if_splits)
    ultimately show ?thesis
      using Suc.IH [of "i - 1" "if bit k (unat b) then ot else zt"] Suc.prems Joint
      by (auto simp: into_child_def split: prod.splits if_splits)
  next
    case (Leaf b c a kb)
    then obtain j where "key_index (pkey p) kb = Some j"
      using Suc.prems key_index_None [of "pkey p" kb] by auto
    with Leaf Suc.prems show ?thesis by (simp add: key_index_remove)
  qed
qed

end
