(* ===== verification/Peer_Table.thy ===== *)
theory Peer_Table
  imports Keys
begin

text \<open>
  The interface through which a session uses its routing table. The first locale is the
  mutating side (insert, evict), the second adds the query for close peers. The laws are
  about the partial map of contacts, from keys to endpoints; the shape of the table is
  the provider's affair.
\<close>

locale peer_table =
  fixes inv :: "'t \<Rightarrow> bool"
    and contacts :: "'t \<Rightarrow> key \<Rightarrow> string option"
    and self :: "'t \<Rightarrow> peer"
    and insert :: "time \<Rightarrow> key \<Rightarrow> string \<Rightarrow> 't \<Rightarrow> (bool \<times> peer option) \<times> 't"
    and evict :: "key \<Rightarrow> 't \<Rightarrow> 't"
  assumes inv_insert: "inv t \<Longrightarrow> inv (snd (insert now k ep t))"
    and inv_evict: "inv t \<Longrightarrow> inv (evict k t)"
    and self_insert: "self (snd (insert now k ep t)) = self t"
    and self_evict: "self (evict k t) = self t"
    and self_key_absent: "inv t \<Longrightarrow> contacts t (pkey (self t)) = None"
    and self_endpoint_absent: "inv t \<Longrightarrow> contacts t k \<noteq> Some (endpoint (self t))"
    and insert_self:
      "k = pkey (self t) \<or> ep = endpoint (self t) \<Longrightarrow> insert now k ep t = ((True, None), t)"
    and insert_ok:
      "inv t \<Longrightarrow> insert now k ep t = ((True, lru), t') \<Longrightarrow> k \<noteq> pkey (self t) \<Longrightarrow>
       ep \<noteq> endpoint (self t) \<Longrightarrow> contacts t' = (contacts t)(k \<mapsto> ep)"
    and insert_full:
      "inv t \<Longrightarrow> insert now k ep t = ((False, lru), t') \<Longrightarrow>
       \<exists>p. lru = Some p \<and> contacts t k = None \<and> contacts t' = contacts t \<and>
           contacts t (pkey p) = Some (endpoint p)"
    and evict_contacts: "inv t \<Longrightarrow> contacts (evict k t) = (contacts t)(k := None)"
    and evict_absent: "inv t \<Longrightarrow> contacts t k = None \<Longrightarrow> evict k t = t"
    and insert_retry:
      "inv t \<Longrightarrow> insert now k ep t = ((False, Some p), t') \<Longrightarrow>
       fst (fst (insert now' k ep (evict (pkey p) t')))"
begin

lemma evict_twice: "inv t \<Longrightarrow> evict k (evict k t) = evict k t"
  by (rule evict_absent) (simp_all add: inv_evict evict_contacts)

lemma full_not_self:
  assumes "inv t" and "insert now k ep t = ((False, lru), t')"
  shows "k \<noteq> pkey (self t)" and "ep \<noteq> endpoint (self t)"
  using assms insert_self [of k t ep now] by auto

lemma lru_not_self:
  assumes "inv t" and "insert now k ep t = ((False, Some p), t')"
  shows "pkey p \<noteq> pkey (self t)"
  using insert_full [OF assms] self_key_absent [OF assms(1)] by auto

text \<open>Evicting the peer an insertion returned makes room: the retry replaces it.\<close>

lemma replace_lru:
  assumes "inv t" and "insert now k ep t = ((False, Some p), t')"
  obtains lru' u where "insert now' k ep (evict (pkey p) t') = ((True, lru'), u)" and "inv u"
    and "contacts u = (contacts t)(pkey p := None, k \<mapsto> ep)" and "self u = self t"
proof -
  obtain res u where ins: "insert now' k ep (evict (pkey p) t') = (res, u)" by fastforce
  have t': "inv t'" "self t' = self t"
    using inv_insert [OF assms(1), of now k ep] self_insert [of now k ep t] assms(2) by auto
  then have ev: "inv (evict (pkey p) t')" "self (evict (pkey p) t') = self t"
    by (simp_all add: inv_evict self_evict)
  obtain lru' where res: "res = (True, lru')"
    using insert_retry [OF assms, of now'] ins by (cases res) auto
  have "contacts u = (contacts (evict (pkey p) t'))(k \<mapsto> ep)"
    using insert_ok [OF ev(1)] ins res full_not_self [OF assms] ev(2) by simp
  then have "contacts u = (contacts t)(pkey p := None, k \<mapsto> ep)"
    using insert_full [OF assms] by (simp add: evict_contacts [OF t'(1)])
  moreover have "inv u" "self u = self t"
    using inv_insert [OF ev(1), of now' k ep] self_insert [of now' k ep "evict (pkey p) t'"] ins ev(2)
    by simp_all
  ultimately show thesis using that ins res by blast
qed

end

locale peer_lookup = peer_table +
  fixes closest :: "time \<Rightarrow> key \<Rightarrow> uint \<Rightarrow> 'a \<Rightarrow> peer list \<times> 'a"
  assumes inv_closest: "inv t \<Longrightarrow> inv (snd (closest now s n t))"
    and self_closest: "self (snd (closest now s n t)) = self t"
    and contacts_closest: "contacts (snd (closest now s n t)) = contacts t"
    and closest_known:
      "inv t \<Longrightarrow> p \<in> set (fst (closest now s n t)) \<Longrightarrow> contacts t (pkey p) = Some (endpoint p)"
    and closest_distinct: "inv t \<Longrightarrow> distinct (map pkey (fst (closest now s n t)))"
begin

lemma closest_not_self:
  assumes "inv t" and "p \<in> set (fst (closest now s n t))"
  shows "pkey p \<noteq> pkey (self t)" and "endpoint p \<noteq> endpoint (self t)"
  using closest_known [OF assms] self_key_absent [OF assms(1)]
    self_endpoint_absent [OF assms(1), of "pkey p"] by auto

lemma closest_evict_absent:
  assumes "inv t" and "p \<in> set (fst (closest now s n (evict k t)))"
  shows "pkey p \<noteq> k"
  using closest_known [OF inv_evict [OF assms(1)] assms(2)] evict_contacts [OF assms(1)] by auto

end

end
