(* ===== verification/Router_Contract.thy ===== *)
theory Router_Contract
  imports Router_Invariant Peer_Table
begin

text \<open>
  The router as a provider of the interface \<open>peer_table\<close>: its invariant, the map of its
  contacts, and the proof of the laws for the model of \<open>src/dht/router.cpp\<close>.
\<close>

definition wf_router :: "router \<Rightarrow> bool" where
  "wf_router r \<longleftrightarrow> wf_tree 159 (table r) \<and> pkey (self_peer r) \<notin> tree_keys (table r) \<and>
     (\<forall>p\<in>set (tree_peers (table r)). endpoint p \<noteq> endpoint (self_peer r))"

definition contacts :: "router \<Rightarrow> key \<Rightarrow> string option" where
  "contacts r = map_of (map (\<lambda>p. (pkey p, endpoint p)) (tree_peers (table r)))"

lemma peer_eqI: "pkey p = pkey q \<Longrightarrow> endpoint p = endpoint q \<Longrightarrow> p = (q :: peer)"
  by (rule peer.equality) auto

lemma peer_of_fields [simp]: "\<lparr>pkey = pkey p, endpoint = endpoint p\<rparr> = (p :: peer)"
  by (rule peer_eqI) simp_all

lemma contacts_iff:
  "wf_tree i (table r) \<Longrightarrow>
     contacts r k = Some ep \<longleftrightarrow> \<lparr>pkey = k, endpoint = ep\<rparr> \<in> set (tree_peers (table r))"
  using wf_tree_distinct [of i "table r"]
  by (auto simp: contacts_def o_def image_iff intro: rev_bexI)

lemma contacts_None: "contacts r k = None \<longleftrightarrow> k \<notin> tree_keys (table r)"
  by (auto simp: contacts_def tree_keys_def map_of_eq_None_iff image_image)

lemma contacts_peer:
  "wf_router r \<Longrightarrow> p \<in> set (tree_peers (table r)) \<Longrightarrow> contacts r (pkey p) = Some (endpoint p)"
  unfolding wf_router_def by (subst contacts_iff) auto

lemma contacts_eqI:
  assumes "wf_tree i (table r)"
    and "\<And>k ep. \<lparr>pkey = k, endpoint = ep\<rparr> \<in> set (tree_peers (table r)) \<longleftrightarrow> m k = Some ep"
  shows "contacts r = m"
proof
  fix k
  have "contacts r k = Some ep \<longleftrightarrow> m k = Some ep" for ep
    using assms by (simp add: contacts_iff)
  then show "contacts r k = m k"
    by (cases "m k"; cases "contacts r k") auto
qed

lemma contacts_mset:
  assumes "wf_tree i (table r)" and "wf_tree j (table r')"
    and "mset (tree_peers (table r')) = mset (tree_peers (table r))"
  shows "contacts r' = contacts r"
proof (rule contacts_eqI [OF assms(2)])
  fix k ep
  show "\<lparr>pkey = k, endpoint = ep\<rparr> \<in> set (tree_peers (table r')) \<longleftrightarrow> contacts r k = Some ep"
    using assms by (simp add: contacts_iff flip: set_mset_mset)
qed

section \<open>Insertion\<close>

lemma attempt_insert_loop:
  assumes "wf_router r" and "k \<noteq> pkey (self_peer r)" and "ep \<noteq> endpoint (self_peer r)"
  obtains res t where "insert_loop 160 now (pkey (self_peer r)) k ep (table r) = (res, t)"
    and "attempt_insert_peer now k ep r = (insert_verdict res, r\<lparr>table := t\<rparr>)"
    and "wf_tree 159 t" and "insert_spec k ep (table r) (res, t)"
proof -
  obtain res t where ins: "insert_loop 160 now (pkey (self_peer r)) k ep (table r) = (res, t)"
    by fastforce
  moreover have "wf_tree 159 t \<and> insert_spec k ep (table r) (res, t)"
    using insert_loop_correct [of 159 "table r" 160 now "pkey (self_peer r)" k ep] assms ins
    by (simp add: wf_router_def)
  ultimately show thesis
    using that assms by (simp add: attempt_insert_peer_def)
qed

lemma insert_wf:
  assumes "wf_router r"
  shows "wf_router (snd (attempt_insert_peer now k ep r))"
proof (cases "k = pkey (self_peer r) \<or> ep = endpoint (self_peer r)")
  case True
  with assms show ?thesis by (simp add: attempt_insert_peer_def)
next
  case False
  then obtain res t where t: "attempt_insert_peer now k ep r = (insert_verdict res, r\<lparr>table := t\<rparr>)"
      "wf_tree 159 t" "insert_spec k ep (table r) (res, t)"
    using attempt_insert_loop [OF assms] by metis
  have "set (tree_peers t) \<subseteq> Set.insert \<lparr>pkey = k, endpoint = ep\<rparr> (set (tree_peers (table r)))"
    using t(3) by (cases res) (auto simp: insert_spec_def simp flip: set_mset_mset)
  with t False assms show ?thesis
    by (auto simp: wf_router_def tree_keys_def)
qed

lemma insert_contacts:
  assumes "wf_router r" and "attempt_insert_peer now k ep r = ((True, lru), r')"
    and "k \<noteq> pkey (self_peer r)" and "ep \<noteq> endpoint (self_peer r)"
  shows "contacts r' = (contacts r)(k \<mapsto> ep)"
proof -
  obtain res t where t: "attempt_insert_peer now k ep r = (insert_verdict res, r\<lparr>table := t\<rparr>)"
      "wf_tree 159 t" "insert_spec k ep (table r) (res, t)"
    using attempt_insert_loop [OF assms(1,3,4)] by metis
  have wf: "wf_tree 159 (table r)" using assms(1) by (simp add: wf_router_def)
  have r': "r' = r\<lparr>table := t\<rparr>" and res: "res = Inserted \<or> res = Refreshed"
    using t(1) assms(2) by (cases res; simp)+
  show ?thesis
  proof (rule contacts_eqI)
    show "wf_tree 159 (table r')" using t(2) r' by simp
    fix k' ep'
    show "\<lparr>pkey = k', endpoint = ep'\<rparr> \<in> set (tree_peers (table r')) \<longleftrightarrow>
        ((contacts r)(k \<mapsto> ep)) k' = Some ep'"
      using t(3) res r' wf
      by (force simp: insert_spec_def contacts_iff tree_keys_def image_iff simp flip: set_mset_mset)
  qed
qed

lemma insert_full_result:
  assumes "wf_router r" and "attempt_insert_peer now k ep r = ((False, lru), r')"
  obtains p where "lru = Some p" and "k \<notin> tree_keys (table r)" and "p = last (bucket_of k (table r'))"
    and "length (bucket_of k (table r')) = 20" and "contacts r' = contacts r" and "wf_router r'"
    and "p \<in> set (bucket_of k (table r'))"
proof -
  have not_self: "k \<noteq> pkey (self_peer r)" "ep \<noteq> endpoint (self_peer r)"
    using assms(2) by (auto simp: attempt_insert_peer_def split: if_splits)
  obtain res t where t: "attempt_insert_peer now k ep r = (insert_verdict res, r\<lparr>table := t\<rparr>)"
      "wf_tree 159 t" "insert_spec k ep (table r) (res, t)"
    using attempt_insert_loop [OF assms(1) not_self] by metis
  then obtain p where p: "res = Bucket_Full p" "lru = Some p" "r' = r\<lparr>table := t\<rparr>"
    using assms(2) by (cases res) (auto simp: insert_spec_def)
  have "wf_router r'" using insert_wf [OF assms(1), of now k ep] assms(2) by simp
  moreover have "contacts r' = contacts r"
    using t p assms(1) by (intro contacts_mset) (auto simp: insert_spec_def wf_router_def)
  moreover have "last (bucket_of k t) \<in> set (bucket_of k t)"
    using t p by (intro last_in_set) (auto simp: insert_spec_def)
  ultimately show thesis
    using that t p by (auto simp: insert_spec_def)
qed

section \<open>Eviction\<close>

lemma evict_loop_160:
  assumes "wf_router r"
  shows "wf_tree 159 (snd (evict_loop 160 k (table r)))"
    and "evict_spec k (table r) (evict_loop 160 k (table r))"
  using evict_loop_correct [of 159 "table r" 160 k] assms by (simp_all add: wf_router_def)

lemma evict_peers:
  assumes "wf_router r"
  shows "tree_peers (table (evict_peer k r)) = filter (\<lambda>p. pkey p \<noteq> k) (tree_peers (table r))"
proof -
  have "filter (\<lambda>p. pkey p \<noteq> k) (tree_peers (table r)) = tree_peers (table r)" if "k \<notin> tree_keys (table r)"
    using that by (auto simp: tree_keys_def intro!: filter_True)
  with evict_loop_160 [OF assms, of k] assms show ?thesis
    by (auto simp: evict_peer_def evict_spec_def wf_router_def split: if_splits)
qed

lemma evict_wf: "wf_router r \<Longrightarrow> wf_router (evict_peer k r)"
  using evict_loop_160 [of r k] evict_peers [of r k]
  by (auto simp: wf_router_def evict_peer_def tree_keys_def)

lemma evict_self [simp]: "self_peer (evict_peer k r) = self_peer r"
  by (simp add: evict_peer_def)

lemma insert_self [simp]: "self_peer (snd (attempt_insert_peer now k ep r)) = self_peer r"
  by (simp add: attempt_insert_peer_def split: prod.split)

lemma evict_contacts:
  assumes "wf_router r"
  shows "contacts (evict_peer k r) = (contacts r)(k := None)"
proof (rule contacts_eqI)
  show "wf_tree 159 (table (evict_peer k r))"
    using evict_wf [OF assms] by (simp add: wf_router_def)
  fix k' ep'
  show "\<lparr>pkey = k', endpoint = ep'\<rparr> \<in> set (tree_peers (table (evict_peer k r))) \<longleftrightarrow>
      ((contacts r)(k := None)) k' = Some ep'"
    using assms by (auto simp: evict_peers wf_router_def contacts_iff)
qed

lemma evict_absent:
  assumes "wf_router r" and "contacts r k = None"
  shows "evict_peer k r = r"
  using evict_loop_160(2) [OF assms(1), of k] assms(2)
  by (auto simp: evict_peer_def evict_spec_def contacts_None split: if_splits)

text \<open>
  Evicting the least recently used peer of the full kbucket frees a place for the key
  that was refused.
\<close>

lemma insert_retry:
  assumes "wf_router r" and "attempt_insert_peer now k ep r = ((False, Some p), r')"
  shows "fst (fst (attempt_insert_peer now' k ep (evict_peer (pkey p) r')))"
proof -
  have full: "length (bucket_of k (table r')) = 20" and wf: "wf_router r'"
    and p: "p \<in> set (bucket_of k (table r'))"
    using insert_full_result [OF assms] by auto
  have self: "self_peer r' = self_peer r"
    using insert_self [of now k ep r] assms(2) by simp
  have not_self: "k \<noteq> pkey (self_peer r)" "ep \<noteq> endpoint (self_peer r)"
    using assms(2) by (auto simp: attempt_insert_peer_def split: if_splits)
  have "pkey p \<noteq> pkey (self_peer r')"
    using wf p bucket_subset [of k "table r'"] by (auto simp: wf_router_def tree_keys_notin)
  then have "bucket_of k (table (evict_peer (pkey p) r')) =
      filter (\<lambda>q. pkey q \<noteq> pkey p) (bucket_of k (table r'))"
    using wf p evict_loop_bucket [of 159 "table r'" 160 p k]
    by (simp add: evict_peer_def wf_router_def)
  moreover have "length (filter (\<lambda>q. pkey q \<noteq> pkey p) (bucket_of k (table r'))) < 20"
    using p length_filter_less [of p "bucket_of k (table r')"] full by simp
  moreover have "wf_tree 159 (table (evict_peer (pkey p) r'))"
    using evict_wf [OF wf] by (simp add: wf_router_def)
  ultimately have "fst (insert_loop 160 now' (pkey (self_peer r)) k ep (table (evict_peer (pkey p) r')))
      \<in> {Inserted, Refreshed}"
    using insert_loop_room [of 159 "table (evict_peer (pkey p) r')" 160 k] by simp
  with not_self self show ?thesis
    by (auto simp: attempt_insert_peer_def split: prod.split)
qed

section \<open>The router provides the interface\<close>

lemma insert_own:
  "k = pkey (self_peer r) \<or> ep = endpoint (self_peer r) \<Longrightarrow>
     attempt_insert_peer now k ep r = ((True, None), r)"
  by (simp add: attempt_insert_peer_def)

lemma contacts_self: "wf_router r \<Longrightarrow> contacts r (pkey (self_peer r)) = None"
  by (simp add: contacts_None wf_router_def)

interpretation router: peer_table wf_router contacts self_peer attempt_insert_peer evict_peer
proof unfold_locales
  fix r now k ep lru r'
  assume "wf_router r" and "attempt_insert_peer now k ep r = ((False, lru), r')"
  then show "\<exists>p. lru = Some p \<and> contacts r k = None \<and> contacts r' = contacts r \<and>
      contacts r (pkey p) = Some (endpoint p)"
  proof (rule insert_full_result)
    fix p
    assume p: "lru = Some p" "k \<notin> tree_keys (table r)" "contacts r' = contacts r" "wf_router r'"
      "p \<in> set (bucket_of k (table r'))"
    then have "contacts r' (pkey p) = Some (endpoint p)"
      using bucket_subset contacts_peer by blast
    with p show ?thesis by (auto simp: contacts_None)
  qed
next
  fix r k
  assume "wf_router r"
  then show "contacts r k \<noteq> Some (endpoint (self_peer r))"
    by (fastforce simp: wf_router_def contacts_iff)
qed (simp_all add: insert_wf evict_wf insert_contacts evict_contacts evict_absent insert_own
       contacts_self insert_retry)

end
