(* ===== verification/Router_Closest.thy ===== *)
theory Router_Closest
  imports Router_Contract
begin

text \<open>
  What the queries of the routing table return: which contacts \<open>closest_peers\<close> finds, how
  its answer is ordered by distance, and where it falls short of the \<open>n\<close> closest ones.
\<close>

section \<open>The query as a list\<close>

text \<open>The peers \<open>tree_closest_peers\<close> appends, without the buffer and the access times.\<close>

fun closest_list :: "key \<Rightarrow> uint \<Rightarrow> bintree \<Rightarrow> peer list" where
  "closest_list s n (Leaf b c a kb) = take (unat n) kb"
| "closest_list s n (Joint b c a zt ot) =
     (if bit s (unat b)
      then closest_list s n ot @ (if n < key_count ot then closest_list s (key_count ot - n) zt else [])
      else closest_list s n zt @ (if n < key_count zt then closest_list s (key_count zt - n) ot else []))"

lemma tree_closest_key_count [simp]:
  "key_count (snd (tree_closest_peers now s n t buffer)) = key_count t"
  by (cases t) (auto split: prod.splits)

lemma tree_closest_buffer: "fst (tree_closest_peers now s n t buffer) = buffer @ closest_list s n t"
proof (induction t arbitrary: n buffer)
  case (Leaf b c a kb)
  then show ?case by simp
next
  case (Joint b c a zt ot)
  have "key_count ot1 = key_count ot" if "tree_closest_peers now s n ot buffer = (bf, ot1)" for ot1 bf
    using tree_closest_key_count [of now s n ot buffer] that by simp
  moreover have "key_count zt1 = key_count zt" if "tree_closest_peers now s n zt buffer = (bf, zt1)" for zt1 bf
    using tree_closest_key_count [of now s n zt buffer] that by simp
  ultimately show ?case
    using Joint.IH [of n buffer] Joint.IH(1) [of "key_count ot - n" "buffer @ closest_list s n ot"]
      Joint.IH(2) [of "key_count zt - n" "buffer @ closest_list s n zt"]
    by (auto split: prod.splits)
qed

text \<open>A query changes nothing but access times.\<close>

fun same_but_access :: "bintree \<Rightarrow> bintree \<Rightarrow> bool" where
  "same_but_access (Leaf b c a kb) (Leaf b' c' a' kb') \<longleftrightarrow> b = b' \<and> c = c' \<and> kb = kb'"
| "same_but_access (Joint b c a zt ot) (Joint b' c' a' zt' ot') \<longleftrightarrow>
     b = b' \<and> c = c' \<and> same_but_access zt zt' \<and> same_but_access ot ot'"
| "same_but_access t t' \<longleftrightarrow> False"

lemma same_but_access_refl [simp]: "same_but_access t t"
  by (induction t) auto

lemma tree_closest_same: "same_but_access t (snd (tree_closest_peers now s n t buffer))"
proof (induction t arbitrary: n buffer)
  case (Joint b c a zt ot)
  have "same_but_access ot u" if "tree_closest_peers now s m ot bf = (bf', u)" for m bf bf' u
    using Joint.IH(2) [of m bf] that by simp
  moreover have "same_but_access zt u" if "tree_closest_peers now s m zt bf = (bf', u)" for m bf bf' u
    using Joint.IH(1) [of m bf] that by simp
  ultimately show ?case by (auto split: prod.splits)
qed simp

lemma same_but_access_peers: "same_but_access t u \<Longrightarrow> tree_peers u = tree_peers t"
  by (induction t u rule: same_but_access.induct) auto

lemma same_but_access_bucket: "same_but_access t u \<Longrightarrow> bucket_of k u = bucket_of k t"
  by (induction t u rule: same_but_access.induct) auto

lemma same_but_access_wf: "same_but_access t u \<Longrightarrow> wf_tree i u = wf_tree i t"
  by (induction t u arbitrary: i rule: same_but_access.induct) (auto simp: same_but_access_peers)

section \<open>The answer consists of contacts\<close>

lemma closest_list_subset: "set (closest_list s n t) \<subseteq> set (tree_peers t)"
  by (induction s n t rule: closest_list.induct) (auto dest: in_set_takeD)

lemma closest_list_distinct: "wf_tree i t \<Longrightarrow> distinct (map pkey (closest_list s n t))"
proof (induction t arbitrary: n i)
  case (Leaf b c a kb)
  then show ?case by (auto simp: take_map [symmetric])
next
  case (Joint b c a zt ot)
  have apart: "pkey p \<noteq> pkey q"
    if "p \<in> set (closest_list s m ot)" and "q \<in> set (closest_list s m' zt)" for p q m m'
    using Joint.prems closest_list_subset [of s m ot] closest_list_subset [of s m' zt] that
    by fastforce
  have "distinct (map pkey (closest_list s m zt))" "distinct (map pkey (closest_list s m ot))" for m
    using Joint by auto
  with apart show ?case by (auto dest: apart sym)
qed

lemma closest_peers_eq:
  "closest_peers now s n r =
     (closest_list s n (table r), r\<lparr>table := snd (tree_closest_peers now s n (table r) [])\<rparr>)"
  using tree_closest_buffer [of now s n "table r" "[]"]
  by (auto simp: closest_peers_def split: prod.splits)

lemma closest_wf: "wf_router r \<Longrightarrow> wf_router (snd (closest_peers now s n r))"
  using tree_closest_same [of "table r" now s n "[]"]
  by (simp add: closest_peers_eq wf_router_def same_but_access_wf same_but_access_peers tree_keys_def)

lemma closest_contacts: "contacts (snd (closest_peers now s n r)) = contacts r"
  using tree_closest_same [of "table r" now s n "[]"]
  by (simp add: closest_peers_eq contacts_def same_but_access_peers)

interpretation router: peer_lookup wf_router contacts self_peer attempt_insert_peer evict_peer closest_peers
proof unfold_locales
  fix r p now s n
  assume wf: "wf_router r" and "p \<in> set (fst (closest_peers now s n r))"
  then have "p \<in> set (tree_peers (table r))"
    using closest_list_subset by (auto simp: closest_peers_eq)
  with wf show "contacts r (pkey p) = Some (endpoint p)" by (rule contacts_peer)
next
  fix r now s n
  assume "wf_router r"
  then show "distinct (map pkey (fst (closest_peers now s n r)))"
    by (auto simp: closest_peers_eq wf_router_def intro: closest_list_distinct)
qed (simp_all add: closest_wf closest_contacts, simp add: closest_peers_eq)

section \<open>The answer and the distance to the search key\<close>

text \<open>
  In a subtree below bit \<open>i\<close> the keys agree on the bits above \<open>i\<close>; then every peer of the
  preferred child of a joint is strictly closer to the search key than every peer of the
  other child.
\<close>

definition agree_above :: "nat \<Rightarrow> bintree \<Rightarrow> bool" where
  "agree_above i t \<longleftrightarrow>
     (\<forall>p\<in>set (tree_peers t). \<forall>q\<in>set (tree_peers t). \<forall>j>i. bit (pkey p) j = bit (pkey q) j)"

lemma agree_above_root: "agree_above 159 t"
  by (auto simp: agree_above_def dest: bit_imp_le_length)

lemma agree_above_children:
  assumes "wf_tree i (Joint b c a zt ot)" and "agree_above i (Joint b c a zt ot)"
  shows "agree_above (i - 1) zt" and "agree_above (i - 1) ot"
proof -
  have split: "j = i \<or> i < j" if "i - 1 < j" for j using that by auto
  show "agree_above (i - 1) zt"
    unfolding agree_above_def
  proof (intro ballI allI impI)
    fix p q j
    assume "p \<in> set (tree_peers zt)" "q \<in> set (tree_peers zt)" "i - 1 < j"
    with assms split [of j] show "bit (pkey p) j = bit (pkey q) j" by (auto simp: agree_above_def)
  qed
  show "agree_above (i - 1) ot"
    unfolding agree_above_def
  proof (intro ballI allI impI)
    fix p q j
    assume "p \<in> set (tree_peers ot)" "q \<in> set (tree_peers ot)" "i - 1 < j"
    with assms split [of j] show "bit (pkey p) j = bit (pkey q) j" by (auto simp: agree_above_def)
  qed
qed

lemma preferred_closer:
  assumes "wf_tree i (Joint b c a zt ot)" and "agree_above i (Joint b c a zt ot)"
    and "p \<in> set (tree_peers (if bit s i then ot else zt))"
    and "q \<in> set (tree_peers (if bit s i then zt else ot))"
  shows "dist_between s (pkey p) < dist_between s (pkey q)"
  by (rule dist_between_less_by_bit [of _ i]) (use assms in \<open>auto simp: agree_above_def split: if_splits\<close>)

lemma bucket_closer:
  assumes "wf_tree i t" and "agree_above i t"
    and "p \<in> set (bucket_of s t)" and "q \<in> set (tree_peers t)" and "q \<notin> set (bucket_of s t)"
  shows "dist_between s (pkey p) < dist_between s (pkey q)"
  using assms
proof (induction t arbitrary: i)
  case (Leaf b c a kb)
  then show ?case by simp
next
  case (Joint b c a zt ot)
  let ?near = "if bit s i then ot else zt"
  have b: "unat b = i" and wf: "wf_tree (i - 1) ?near" using Joint.prems(1) by auto
  have bucket: "bucket_of s (Joint b c a zt ot) = bucket_of s ?near" using b by simp
  show ?case
  proof (cases "q \<in> set (tree_peers ?near)")
    case True
    have "agree_above (i - 1) ?near"
      using agree_above_children [OF Joint.prems(1,2)] by simp
    with True wf bucket Joint.IH [of "i - 1"] Joint.prems(3,5) show ?thesis
      by (cases "bit s i") auto
  next
    case False
    then have "q \<in> set (tree_peers (if bit s i then zt else ot))"
      using Joint.prems(4) by (auto split: if_splits)
    moreover have "p \<in> set (tree_peers ?near)"
      using Joint.prems(3) bucket bucket_subset by (metis subsetD)
    ultimately show ?thesis
      using preferred_closer [OF Joint.prems(1,2)] by blast
  qed
qed

text \<open>The answer starts with the kbucket of the search key, cut to \<open>n\<close> peers.\<close>

lemma closest_list_prefix:
  assumes "wf_tree i t"
  shows "\<exists>rest. closest_list s n t = take (unat n) (bucket_of s t) @ rest \<and>
           set rest \<inter> set (bucket_of s t) = {}"
  using assms
proof (induction t arbitrary: i)
  case (Leaf b c a kb)
  show ?case by simp
next
  case (Joint b c a zt ot)
  define near where "near = (if bit s (unat b) then ot else zt)"
  define far where "far = (if bit s (unat b) then zt else ot)"
  let ?more = "if n < key_count near then closest_list s (key_count near - n) far else []"
  have "wf_tree (i - 1) near" using Joint.prems by (simp add: near_def)
  then obtain rest where near: "closest_list s n near = take (unat n) (bucket_of s near) @ rest"
      "set rest \<inter> set (bucket_of s near) = {}"
    using Joint.IH(1) [of "i - 1"] Joint.IH(2) [of "i - 1"] unfolding near_def by (cases "bit s (unat b)") auto
  have list: "closest_list s n (Joint b c a zt ot) = closest_list s n near @ ?more"
    and bucket: "bucket_of s (Joint b c a zt ot) = bucket_of s near"
    by (simp_all add: near_def far_def)
  have "set ?more \<subseteq> set (tree_peers far)"
    using closest_list_subset by auto
  moreover have "set (tree_peers far) \<inter> set (bucket_of s near) = {}"
    using Joint.prems bucket_subset [of s near] by (auto simp: near_def far_def split: if_splits)
  ultimately have "set (rest @ ?more) \<inter> set (bucket_of s near) = {}"
    using near(2) by auto
  with near(1) show ?case
    unfolding list bucket by (intro exI [of _ "rest @ ?more"]) simp
qed

lemma closest_list_bucket:
  assumes "wf_tree i t" and "20 \<le> unat n"
  obtains rest where "closest_list s n t = bucket_of s t @ rest" and "set rest \<inter> set (bucket_of s t) = {}"
proof -
  obtain rest where "closest_list s n t = take (unat n) (bucket_of s t) @ rest"
      "set rest \<inter> set (bucket_of s t) = {}"
    using closest_list_prefix [OF assms(1)] by blast
  moreover have "length (bucket_of s t) \<le> unat n"
    using wf_bucket [OF assms(1), of s] assms(2) by simp
  ultimately show thesis using that by simp
qed

text \<open>Where the preferred child holds no more than \<open>n\<close> peers, the other child is not asked.\<close>

lemma closest_list_near_only:
  assumes "wf_tree i (Joint b c a zt ot)" and "near = (if bit s i then ot else zt)"
    and "length (tree_peers near) \<le> unat n"
  shows "closest_list s n (Joint b c a zt ot) = closest_list s n near"
proof -
  have "key_count near = of_nat (length (tree_peers near))"
    using assms(1,2) wf_tree_key_count by (cases "bit s i") auto
  moreover have "of_nat (length (tree_peers near)) \<le> n"
    using assms(3) by (simp add: word_le_nat_alt unat_of_nat)
  ultimately show ?thesis
    using assms by auto
qed

section \<open>Sampling the kbuckets\<close>

text \<open>The kbuckets in the order the sampling visits them.\<close>

fun tree_buckets :: "bintree \<Rightarrow> peer list list" where
  "tree_buckets (Leaf b c a kb) = [kb]"
| "tree_buckets (Joint b c a zt ot) = tree_buckets zt @ tree_buckets ot"

lemma tree_buckets_peers: "set (concat (tree_buckets t)) = set (tree_peers t)"
  by (induction t) auto

lemma to_seconds_nonneg: "0 \<le> d \<Longrightarrow> 0 \<le> to_seconds d"
  by (simp add: to_seconds_def ticks_per_second_def sgn_if)

lemma to_seconds_less: "d < s * ticks_per_second \<Longrightarrow> 0 < s \<Longrightarrow> to_seconds d < s"
  by (auto simp: to_seconds_def ticks_per_second_def sgn_if)

lemma sampling_recent:
  assumes "\<And>i. to_seconds (clock (Suc i) - clock i) < unaccessed"
  shows "\<exists>u st'. random_per_bucket_peers_helper clock rand unaccessed t st = Inr (u, st') \<and>
           sampled st' = sampled st \<and> same_but_access t u"
proof (induction t arbitrary: st)
  case (Leaf b c a kb)
  from assms [of "clock_reads st"] show ?case by (simp add: Let_def)
next
  case (Joint b c a zt ot)
  from Joint.IH(1) [of st] obtain u st1 where
    1: "random_per_bucket_peers_helper clock rand unaccessed zt st = Inr (u, st1)"
      "sampled st1 = sampled st" "same_but_access zt u" by blast
  from Joint.IH(2) [of st1] obtain v st2 where
    "random_per_bucket_peers_helper clock rand unaccessed ot st1 = Inr (v, st2)"
      "sampled st2 = sampled st1" "same_but_access ot v" by blast
  with 1 show ?case by simp
qed

lemma sampling_all:
  assumes "\<And>i. clock i \<le> clock (Suc i)"
  shows "(if [] \<in> set (tree_buckets t)
          then random_per_bucket_peers_helper clock rand 0 t st = Inl Division_By_Zero
          else \<exists>u st' ps. random_per_bucket_peers_helper clock rand 0 t st = Inr (u, st') \<and>
            same_but_access t u \<and> sampled st' = sampled st @ ps \<and>
            list_all2 (\<lambda>p kb. p \<in> set kb) ps (tree_buckets t))"
proof (induction t arbitrary: st)
  case (Leaf b c a kb)
  have "0 \<le> to_seconds (clock (Suc (clock_reads st)) - clock (clock_reads st))"
    by (rule to_seconds_nonneg) (simp add: assms)
  then show ?case by (auto simp: Let_def)
next
  case (Joint b c a zt ot)
  show ?case
  proof (cases "[] \<in> set (tree_buckets zt)")
    case True
    with Joint.IH(1) [of st] show ?thesis by simp
  next
    case False
    with Joint.IH(1) [of st] obtain u st1 ps where
      1: "random_per_bucket_peers_helper clock rand 0 zt st = Inr (u, st1)" "same_but_access zt u"
        "sampled st1 = sampled st @ ps" "list_all2 (\<lambda>p kb. p \<in> set kb) ps (tree_buckets zt)" by auto
    with False Joint.IH(2) [of st1] show ?thesis
      by (auto intro!: list_all2_appendI split: if_splits)
  qed
qed

lemma sampling_outcome:
  "(random_per_bucket_peers_helper clock rand unaccessed t st = Inl e \<longrightarrow> e = Division_By_Zero) \<and>
   (random_per_bucket_peers_helper clock rand unaccessed t st = Inr (u, st') \<longrightarrow> same_but_access t u)"
proof (induction t arbitrary: st u st')
  case (Joint b c a zt ot)
  then show ?case by (fastforce simp: and_then_eq_Inl)
qed (auto simp: Let_def split: if_splits)

lemma random_per_bucket_outcome:
  assumes "wf_router r"
  shows "case random_per_bucket_peers clock rand unaccessed r of
      Inl e \<Rightarrow> e = Division_By_Zero
    | Inr (ps, r') \<Rightarrow> wf_router r' \<and> self_peer r' = self_peer r \<and> contacts r' = contacts r"
  using assms
  by (cases "random_per_bucket_peers_helper clock rand unaccessed (table r)
        \<lparr>clock_reads = 0, rand_calls = 0, sampled = []\<rparr>")
     (auto simp: random_per_bucket_peers_def wf_router_def contacts_def tree_keys_def same_but_access_wf
       same_but_access_peers dest: sampling_outcome [THEN conjunct1, rule_format]
       sampling_outcome [THEN conjunct2, rule_format])

end
