(* ===== verification/Session_State.thy ===== *)
theory Session_State
  imports Router_Closest "HOL-Library.AList"
begin

text \<open>
  The data of \<open>src/dht/session.h\<close> and the messages of \<open>src/dht/dht.proto\<close>: what a session
  keeps, what travels between sessions, the environment a session runs in, and the
  mutexes. The lemmas at the end are the calculus the session proofs share.
\<close>

section \<open>Messages\<close>

record rpc_peer =
  rpc_key :: string
  rpc_endpoint :: string

record find_node_request =
  fn_sender :: rpc_peer
  fn_search_key :: string

record find_node_response =
  fn_receiver :: rpc_peer
  fn_closest_peers :: "rpc_peer list"

record find_value_request =
  fv_sender :: rpc_peer
  fv_search_key :: string

record find_value_response =
  fv_receiver :: rpc_peer
  fv_found_value :: bool
  fv_data :: string
  fv_size :: "32 word"
  fv_closest_peers :: "rpc_peer list"

record store_init_request =
  si_sender :: rpc_peer
  si_chunk_key :: string

record store_init_response =
  si_receiver :: rpc_peer
  si_continue_store :: bool

record store_request =
  st_sender :: rpc_peer
  st_chunk_key :: string
  st_data :: string
  st_size :: "32 word"
  st_original_publish :: int

record store_response =
  st_receiver :: rpc_peer

record ping_request =
  pg_sender :: rpc_peer

record ping_response =
  pg_receiver :: rpc_peer

section \<open>The environment of a session\<close>

text \<open>
  gRPC, the remote sessions and the system are an environment with a state of its own,
  of any type \<open>'w\<close>. A call names the endpoint it goes to; \<open>None\<close> is a status that is not
  OK. The environment also gives the clock and \<open>std::rand()\<close>: the time of the current
  state, and the sequences of readings an operation takes from there on.
\<close>

record 'w env =
  rpc_ping :: "string \<Rightarrow> ping_request \<Rightarrow> 'w \<Rightarrow> ping_response option \<times> 'w"
  rpc_find_node :: "string \<Rightarrow> find_node_request \<Rightarrow> 'w \<Rightarrow> find_node_response option \<times> 'w"
  rpc_find_value :: "string \<Rightarrow> find_value_request \<Rightarrow> 'w \<Rightarrow> find_value_response option \<times> 'w"
  rpc_store_init :: "string \<Rightarrow> store_init_request \<Rightarrow> 'w \<Rightarrow> store_init_response option \<times> 'w"
  rpc_store :: "string \<Rightarrow> store_request \<Rightarrow> 'w \<Rightarrow> store_response option \<times> 'w"
  now_at :: "'w \<Rightarrow> time"
  clock_at :: "'w \<Rightarrow> nat \<Rightarrow> time"
  rand_at :: "'w \<Rightarrow> nat \<Rightarrow> nat"

section \<open>The state of a session\<close>

text \<open>
  \<open>chunks\<close> is an \<open>unordered_map\<close>: an association list with distinct keys whose order
  stands for the map's iteration order. \<open>router_locked\<close> and \<open>chunks_locked\<close> tell whether
  the running thread holds the mutex. \<open>dead_peers\<close> is the counter of the shared
  \<open>session_metadata\<close>.
\<close>

record 'w session =
  dying :: bool
  router_of :: router
  router_locked :: bool
  chunks :: "(key \<times> chunk) list"
  chunks_locked :: bool
  dead_peers :: uint
  world :: 'w

definition self_key :: "'w session \<Rightarrow> key" where
  "self_key s = pkey (get_self_peer (router_of s))"

definition self_endpoint :: "'w session \<Rightarrow> string" where
  "self_endpoint s = endpoint (get_self_peer (router_of s))"

text \<open>A computation of a session ends in an error or returns a value and a new state.\<close>

type_synonym ('w, 'a) outcome = "cpp_error + ('a \<times> 'w session)"

definition lock_router :: "'w session \<Rightarrow> ('w, unit) outcome" where
  "lock_router s = (if router_locked s then Inl Deadlock else Inr ((), s\<lparr>router_locked := True\<rparr>))"

definition unlock_router :: "'w session \<Rightarrow> 'w session" where
  "unlock_router s = s\<lparr>router_locked := False\<rparr>"

definition lock_chunks :: "'w session \<Rightarrow> ('w, unit) outcome" where
  "lock_chunks s = (if chunks_locked s then Inl Deadlock else Inr ((), s\<lparr>chunks_locked := True\<rparr>))"

definition unlock_chunks :: "'w session \<Rightarrow> 'w session" where
  "unlock_chunks s = s\<lparr>chunks_locked := False\<rparr>"

section \<open>Reasoning about session computations\<close>

text \<open>
  \<open>session_ok\<close> is what holds between any two operations on the router: its invariant, and
  its mutex is free. \<open>keeps\<close> relates the states before and after an operation that is
  not about chunks.
\<close>

definition session_ok :: "'w session \<Rightarrow> bool" where
  "session_ok s \<longleftrightarrow> wf_router (router_of s) \<and> \<not> router_locked s"

definition keeps :: "'w session \<Rightarrow> 'w session \<Rightarrow> bool" where
  "keeps s s' \<longleftrightarrow> session_ok s' \<and> self_peer (router_of s') = self_peer (router_of s) \<and>
     chunks s' = chunks s \<and> chunks_locked s' = chunks_locked s \<and> dying s' = dying s"

lemma keeps_refl: "session_ok s \<Longrightarrow> keeps s s"
  by (simp add: keeps_def)

lemma keeps_trans: "keeps s t \<Longrightarrow> keeps t u \<Longrightarrow> keeps s u"
  by (simp add: keeps_def)

lemma keeps_ok: "keeps s t \<Longrightarrow> session_ok t"
  by (simp add: keeps_def)

lemma keeps_self:
  "keeps s t \<Longrightarrow> self_key t = self_key s"
  "keeps s t \<Longrightarrow> self_endpoint t = self_endpoint s"
  by (simp_all add: keeps_def self_key_def self_endpoint_def get_self_peer_def)

text \<open>
  \<open>safe_from errs s m\<close>: the computation \<open>m\<close>, started in \<open>s\<close>, fails with an error of
  \<open>errs\<close> only, and keeps the session otherwise.
\<close>

definition safe_from :: "cpp_error set \<Rightarrow> 'w session \<Rightarrow> ('w, 'a) outcome \<Rightarrow> bool" where
  "safe_from errs s m \<longleftrightarrow> (case m of Inl e \<Rightarrow> e \<in> errs | Inr (x, t) \<Rightarrow> keeps s t)"

named_theorems safe_intros

lemma safe_Inr [safe_intros]: "keeps s t \<Longrightarrow> safe_from errs s (Inr (x, t))"
  by (simp add: safe_from_def)

lemma safe_Inl [safe_intros]: "e \<in> errs \<Longrightarrow> safe_from errs s (Inl e)"
  by (simp add: safe_from_def)

lemma safe_and_then [safe_intros]:
  assumes "safe_from errs s m"
    and "\<And>x t. m = Inr (x, t) \<Longrightarrow> keeps s t \<Longrightarrow> safe_from errs s (f (x, t))"
  shows "safe_from errs s (and_then m f)"
  using assms by (auto simp: safe_from_def split: sum.splits)

lemma safe_shift: "keeps s t \<Longrightarrow> safe_from errs t m \<Longrightarrow> safe_from errs s m"
  by (auto simp: safe_from_def split: sum.splits intro: keeps_trans)

lemma safe_weaken: "safe_from errs s m \<Longrightarrow> errs \<subseteq> errs' \<Longrightarrow> safe_from errs' s m"
  by (auto simp: safe_from_def split: sum.splits)

lemma safe_fromD: "safe_from errs s m \<Longrightarrow> m = Inr (x, t) \<Longrightarrow> keeps s t"
  by (simp add: safe_from_def)

lemma safe_fromE: "safe_from errs s m \<Longrightarrow> m = Inl e \<Longrightarrow> e \<in> errs"
  by (simp add: safe_from_def)

text \<open>Parsing is an error or a value, without a state.\<close>

lemma safe_parse:
  "(\<And>e. m = Inl e \<Longrightarrow> e \<in> errs) \<Longrightarrow> (\<And>x. m = Inr x \<Longrightarrow> safe_from errs s (f x)) \<Longrightarrow>
     safe_from errs s (and_then m f)"
  by (cases m) (auto simp: safe_from_def)

lemma bitset_of_string_error: "bitset_of_string s = Inl e \<Longrightarrow> e = Invalid_Argument"
  by (auto simp: bitset_of_string_def split: if_splits)

text \<open>Replacing the world or the router.\<close>

lemma keeps_world: "keeps s (t\<lparr>world := w\<rparr>) \<longleftrightarrow> keeps s t"
  by (simp add: keeps_def session_ok_def)

lemma keeps_dead_peers: "keeps s (t\<lparr>dead_peers := d\<rparr>) \<longleftrightarrow> keeps s t"
  by (simp add: keeps_def session_ok_def)

lemma keeps_router:
  "keeps s t \<Longrightarrow> wf_router r \<Longrightarrow> self_peer r = self_peer (router_of t) \<Longrightarrow>
     keeps s (t\<lparr>router_of := r\<rparr>)"
  by (simp add: keeps_def session_ok_def)

lemma keeps_evict: "keeps s t \<Longrightarrow> keeps s (t\<lparr>router_of := evict_peer k (router_of t)\<rparr>)"
  by (rule keeps_router) (auto simp: keeps_def session_ok_def router.inv_evict)

lemma keeps_unlock_router: "keeps s (unlock_router (t\<lparr>router_locked := True\<rparr>)) \<longleftrightarrow> keeps s (unlock_router t)"
  by (simp add: unlock_router_def)

end
