(* ===== verification/Rpc.thy ===== *)
theory Rpc
  imports Session_State
begin

text \<open>
  \<open>src/dht/rpc.cpp\<close>: the conversions of peers, the callers that send a request to a peer,
  \<open>update_peer\<close>, and the handlers that answer the requests of other sessions.
\<close>

section \<open>Conversions\<close>

definition local_to_rpc_peer :: "peer \<Rightarrow> rpc_peer" where
  "local_to_rpc_peer p = \<lparr>rpc_key = bitset_to_string (pkey p), rpc_endpoint = endpoint p\<rparr>"

definition rpc_peer_to_local :: "rpc_peer \<Rightarrow> cpp_error + peer" where
  "rpc_peer_to_local rp =
     and_then (bitset_of_string (rpc_key rp)) (\<lambda>k. Inr \<lparr>pkey = k, endpoint = rpc_endpoint rp\<rparr>)"

text \<open>The sender a caller puts into its requests.\<close>

definition rpc_caller_prelims :: "'w session \<Rightarrow> rpc_peer" where
  "rpc_caller_prelims s = local_to_rpc_peer (get_self_peer (router_of s))"

section \<open>Ping and the update of the router\<close>

text \<open>
  \<open>ping\<close> returns the receiver when the peer answers (the code's \<open>true\<close> with the buffer
  written) and \<open>None\<close> when it does not (the code's \<open>false\<close>); then it evicts the peer.
\<close>

definition ping :: "'w env \<Rightarrow> peer \<Rightarrow> 'w session \<Rightarrow> ('w, peer option) outcome" where
  "ping E p s =
     (let (reply, w) = rpc_ping E (endpoint p) \<lparr>pg_sender = rpc_caller_prelims s\<rparr> (world s);
          s = s\<lparr>world := w\<rparr>
      in case reply of
           None \<Rightarrow> Inr (None, s\<lparr>router_of := evict_peer (pkey p) (router_of s)\<rparr>)
         | Some r \<Rightarrow>
             and_then (bitset_of_string (rpc_key (pg_receiver r))) (\<lambda>k.
             Inr (Some \<lparr>pkey = k, endpoint = rpc_endpoint (pg_receiver r)\<rparr>, s)))"

text \<open>
  The \<open>while (true)\<close> loop of \<open>update_peer\<close>, with the number of rounds left. \<open>lru_peer\<close> is
  \<open>None\<close> when the insertion failed without writing the buffer.
\<close>

primrec update_peer_loop :: "nat \<Rightarrow> 'w env \<Rightarrow> key \<Rightarrow> string \<Rightarrow> 'w session \<Rightarrow> ('w, unit) outcome" where
  "update_peer_loop 0 E k ep s = Inl Diverges"
| "update_peer_loop (Suc n) E k ep s =
     and_then (lock_router s) (\<lambda>(_, s).
     let ((inserted, lru_peer), r) = attempt_insert_peer (now_at E (world s)) k ep (router_of s);
         s = unlock_router (s\<lparr>router_of := r\<rparr>)
     in if inserted then Inr ((), s)
        else case lru_peer of
               None \<Rightarrow> Inl Wild_Pointer
             | Some lru \<Rightarrow>
                 and_then (ping E lru s) (\<lambda>(reply, s).
                 if (case reply of None \<Rightarrow> False | Some other \<Rightarrow> pkey lru = pkey other)
                 then Inr ((), s)
                 else and_then (lock_router s) (\<lambda>(_, s).
                      let s = unlock_router (s\<lparr>router_of := evict_peer (pkey lru) (router_of s)\<rparr>);
                          s = s\<lparr>dead_peers := dead_peers s + 1\<rparr>
                      in update_peer_loop n E k ep s)))"

text \<open>
  Two rounds are enough: the eviction at the end of the first one makes room for the
  insertion of the second. This is proved below (\<open>update_peer_safe\<close>, \<open>update_peer_rounds\<close>).
\<close>

definition update_peer :: "'w env \<Rightarrow> key \<Rightarrow> string \<Rightarrow> 'w session \<Rightarrow> ('w, unit) outcome" where
  "update_peer E k ep s = update_peer_loop 2 E k ep s"

definition rpc_caller_epilogue :: "'w env \<Rightarrow> rpc_peer \<Rightarrow> 'w session \<Rightarrow> ('w, unit) outcome" where
  "rpc_caller_epilogue E receiver s =
     and_then (rpc_peer_to_local receiver) (\<lambda>p. update_peer E (pkey p) (endpoint p) s)"

definition rpc_handler_prelims :: "'w env \<Rightarrow> rpc_peer \<Rightarrow> 'w session \<Rightarrow> ('w, rpc_peer) outcome" where
  "rpc_handler_prelims E sender s =
     and_then (rpc_peer_to_local sender) (\<lambda>p.
     and_then (update_peer E (pkey p) (endpoint p) s) (\<lambda>(_, s).
     Inr (local_to_rpc_peer (get_self_peer (router_of s)), s)))"

section \<open>Callers\<close>

text \<open>
  The loop over the peers of a response: each is parsed, skipped if it is the node
  itself, taken into the router and appended to the buffer.
\<close>

primrec add_closest_peers :: "'w env \<Rightarrow> rpc_peer list \<Rightarrow> peer list \<Rightarrow> 'w session \<Rightarrow> ('w, peer list) outcome" where
  "add_closest_peers E [] buffer s = Inr (buffer, s)"
| "add_closest_peers E (rp # rps) buffer s =
     and_then (rpc_peer_to_local rp) (\<lambda>p.
     if pkey p = self_key s \<or> endpoint p = self_endpoint s
     then add_closest_peers E rps buffer s
     else and_then (update_peer E (pkey p) (endpoint p) s) (\<lambda>(_, s).
          add_closest_peers E rps (buffer @ [p]) s))"

definition find_node :: "'w env \<Rightarrow> peer \<Rightarrow> key \<Rightarrow> peer list \<Rightarrow> 'w session \<Rightarrow> ('w, bool \<times> peer list) outcome" where
  "find_node E p search_key buffer s =
     (let (reply, w) = rpc_find_node E (endpoint p)
            \<lparr>fn_sender = rpc_caller_prelims s, fn_search_key = bitset_to_string search_key\<rparr> (world s);
          s = s\<lparr>world := w\<rparr>
      in case reply of
           None \<Rightarrow> Inr ((False, buffer), s\<lparr>router_of := evict_peer (pkey p) (router_of s)\<rparr>)
         | Some r \<Rightarrow>
             and_then (rpc_caller_epilogue E (fn_receiver r) s) (\<lambda>(_, s).
             and_then (add_closest_peers E (fn_closest_peers r) buffer s) (\<lambda>(buffer, s).
             Inr ((True, buffer), s))))"

text \<open>
  Copying \<open>size\<close> bytes from the start of a message's data. The \<open>int32\<close> size is converted to
  \<open>size_t\<close>, so a negative size becomes a huge one; a size above the length reads past the end.
\<close>

definition size_of_int32 :: "32 word \<Rightarrow> nat" where
  "size_of_int32 n = unat (scast n :: 64 word)"

definition copy_bytes :: "string \<Rightarrow> 32 word \<Rightarrow> cpp_error + string" where
  "copy_bytes data sz =
     (if length data < size_of_int32 sz then Inl Out_Of_Bounds
      else Inr (take (size_of_int32 sz) data))"

text \<open>
  \<open>find_value\<close> returns its verdict, the buffer, and the data when \<open>*found_value_buffer\<close> was
  set to true and \<open>*data_buffer\<close> written.
\<close>

definition find_value ::
  "'w env \<Rightarrow> peer \<Rightarrow> key \<Rightarrow> peer list \<Rightarrow> 'w session \<Rightarrow> ('w, bool \<times> peer list \<times> string option) outcome" where
  "find_value E p search_key buffer s =
     (let (reply, w) = rpc_find_value E (endpoint p)
            \<lparr>fv_sender = rpc_caller_prelims s, fv_search_key = bitset_to_string search_key\<rparr> (world s);
          s = s\<lparr>world := w\<rparr>
      in case reply of
           None \<Rightarrow> Inr ((False, buffer, None), s\<lparr>router_of := evict_peer (pkey p) (router_of s)\<rparr>)
         | Some r \<Rightarrow>
             and_then (rpc_caller_epilogue E (fv_receiver r) s) (\<lambda>(_, s).
             if fv_found_value r
             then and_then (copy_bytes (fv_data r) (fv_size r)) (\<lambda>data.
                  Inr ((True, buffer, Some data), s))
             else and_then (add_closest_peers E (fv_closest_peers r) buffer s) (\<lambda>(buffer, s).
                  Inr ((True, buffer, None), s))))"

definition store :: "'w env \<Rightarrow> peer \<Rightarrow> chunk \<Rightarrow> bool \<Rightarrow> 'w session \<Rightarrow> ('w, bool) outcome" where
  "store E p c force s =
     (let (reply, w) = rpc_store_init E (endpoint p)
            \<lparr>si_sender = rpc_caller_prelims s, si_chunk_key = bitset_to_string (chunk_key c)\<rparr> (world s);
          s = s\<lparr>world := w\<rparr>
      in case reply of
           None \<Rightarrow> Inr (False, s\<lparr>router_of := evict_peer (pkey p) (router_of s)\<rparr>)
         | Some r \<Rightarrow>
             if \<not> si_continue_store r \<and> \<not> force then Inr (True, s)
             else and_then (rpc_caller_epilogue E (si_receiver r) s) (\<lambda>(_, s).
                  let (reply2, w) = rpc_store E (endpoint p)
                        \<lparr>st_sender = rpc_caller_prelims s, st_chunk_key = bitset_to_string (chunk_key c),
                         st_data = chunk_data c, st_size = of_nat (length (chunk_data c)),
                         st_original_publish = to_seconds (original_publish c)\<rparr> (world s);
                      s = s\<lparr>world := w\<rparr>
                  in case reply2 of
                       None \<Rightarrow> Inr (False, s)
                     | Some _ \<Rightarrow>
                         and_then (rpc_caller_epilogue E (si_receiver r) s) (\<lambda>(_, s). Inr (True, s))))"

section \<open>Handlers\<close>

definition handle_find_node ::
  "'w env \<Rightarrow> find_node_request \<Rightarrow> 'w session \<Rightarrow> ('w, find_node_response) outcome" where
  "handle_find_node E request s =
     and_then (rpc_handler_prelims E (fn_sender request) s) (\<lambda>(receiver, s).
     and_then (bitset_of_string (fn_search_key request)) (\<lambda>search_key.
     and_then (lock_router s) (\<lambda>(_, s).
     let (closest, r) = closest_peers (now_at E (world s)) search_key 20 (router_of s);
         s = unlock_router (s\<lparr>router_of := r\<rparr>)
     in Inr (\<lparr>fn_receiver = receiver, fn_closest_peers = map local_to_rpc_peer closest\<rparr>, s))))"

definition handle_find_value ::
  "'w env \<Rightarrow> find_value_request \<Rightarrow> 'w session \<Rightarrow> ('w, find_value_response) outcome" where
  "handle_find_value E request s =
     and_then (rpc_handler_prelims E (fv_sender request) s) (\<lambda>(receiver, s).
     and_then (bitset_of_string (fv_search_key request)) (\<lambda>search_key.
     and_then (lock_chunks s) (\<lambda>(_, s).
     case map_of (chunks s) search_key of
       Some c \<Rightarrow>
         Inr (\<lparr>fv_receiver = receiver, fv_found_value = True, fv_data = chunk_data c,
               fv_size = of_nat (length (chunk_data c)), fv_closest_peers = []\<rparr>, unlock_chunks s)
     | None \<Rightarrow>
         and_then (lock_router (unlock_chunks s)) (\<lambda>(_, s).
         let (closest, r) = closest_peers (now_at E (world s)) search_key 20 (router_of s);
             s = unlock_router (s\<lparr>router_of := r\<rparr>)
         in Inr (\<lparr>fv_receiver = receiver, fv_found_value = False, fv_data = [], fv_size = 0,
                  fv_closest_peers = map local_to_rpc_peer closest\<rparr>, s)))))"

definition handle_store_init ::
  "'w env \<Rightarrow> store_init_request \<Rightarrow> 'w session \<Rightarrow> ('w, store_init_response) outcome" where
  "handle_store_init E request s =
     and_then (rpc_handler_prelims E (si_sender request) s) (\<lambda>(receiver, s).
     and_then (bitset_of_string (si_chunk_key request)) (\<lambda>k.
     and_then (lock_chunks s) (\<lambda>(_, s).
     Inr (\<lparr>si_receiver = receiver, si_continue_store = (map_of (chunks s) k = None)\<rparr>,
          unlock_chunks s))))"

definition handle_store :: "'w env \<Rightarrow> store_request \<Rightarrow> 'w session \<Rightarrow> ('w, store_response) outcome" where
  "handle_store E request s =
     and_then (rpc_handler_prelims E (st_sender request) s) (\<lambda>(receiver, s).
     and_then (bitset_of_string (st_chunk_key request)) (\<lambda>k.
     and_then (copy_bytes (st_data request) (st_size request)) (\<lambda>data.
     let c = new_chunk (now_at E (world s)) k data False (st_original_publish request * ticks_per_second)
     in and_then (lock_chunks s) (\<lambda>(_, s).
        Inr (\<lparr>st_receiver = receiver\<rparr>,
             unlock_chunks (s\<lparr>chunks := AList.update (chunk_key c) c (chunks s)\<rparr>))))))"

definition handle_ping :: "'w env \<Rightarrow> ping_request \<Rightarrow> 'w session \<Rightarrow> ('w, ping_response) outcome" where
  "handle_ping E request s =
     and_then (rpc_handler_prelims E (pg_sender request) s) (\<lambda>(receiver, s).
     Inr (\<lparr>pg_receiver = receiver\<rparr>, s))"

section \<open>The operations are safe\<close>

text \<open>
  From a session whose router is well formed and whose router mutex is free, every
  operation ends in such a session again, keeps the chunks and the identity of the node,
  and fails only because of what a message holds: no operation deadlocks, diverges or
  uses a pointer that was not set.
\<close>

lemma lock_router_free: "session_ok s \<Longrightarrow> lock_router s = Inr ((), s\<lparr>router_locked := True\<rparr>)"
  by (simp add: lock_router_def session_ok_def)

lemma unlock_after_update:
  "session_ok s \<Longrightarrow> unlock_router (s\<lparr>router_locked := True, router_of := r\<rparr>) = s\<lparr>router_of := r\<rparr>"
  by (simp add: unlock_router_def session_ok_def)

lemma rpc_peer_to_local_error: "rpc_peer_to_local rp = Inl e \<Longrightarrow> e = Invalid_Argument"
  by (auto simp: rpc_peer_to_local_def and_then_eq_Inl dest: bitset_of_string_error)

lemma copy_bytes_error: "copy_bytes data sz = Inl e \<Longrightarrow> e = Out_Of_Bounds"
  by (auto simp: copy_bytes_def split: if_splits)

lemma safe_parse_key [safe_intros]:
  "Invalid_Argument \<in> errs \<Longrightarrow> (\<And>k. safe_from errs s (f k)) \<Longrightarrow>
     safe_from errs s (and_then (bitset_of_string str) f)"
  by (rule safe_parse) (auto dest: bitset_of_string_error)

lemma safe_parse_peer [safe_intros]:
  "Invalid_Argument \<in> errs \<Longrightarrow> (\<And>p. safe_from errs s (f p)) \<Longrightarrow>
     safe_from errs s (and_then (rpc_peer_to_local rp) f)"
  by (rule safe_parse) (auto dest: rpc_peer_to_local_error)

lemma safe_copy_bytes [safe_intros]:
  "Out_Of_Bounds \<in> errs \<Longrightarrow> (\<And>d. safe_from errs s (f d)) \<Longrightarrow>
     safe_from errs s (and_then (copy_bytes data sz) f)"
  by (rule safe_parse) (auto dest: copy_bytes_error)

lemma ping_safe:
  assumes "session_ok s"
  shows "safe_from {Invalid_Argument} s (ping E p s)"
  using assms unfolding ping_def
  by (auto simp: Let_def keeps_world split: prod.split option.split dest: bitset_of_string_error
      intro!: safe_Inr safe_parse keeps_router keeps_refl router.inv_evict
      simp: session_ok_def)

lemma ping_router:
  assumes "ping E p s = Inr (reply, t)"
  shows "router_of t = (if reply = None then evict_peer (pkey p) (router_of s) else router_of s) \<and>
         router_locked t = router_locked s"
  using assms by (auto simp: ping_def Let_def split: prod.splits option.splits)

text \<open>The two outcomes of the first round of \<open>update_peer_loop\<close>.\<close>

lemma update_peer_inserted:
  assumes "session_ok s" and "attempt_insert_peer (now_at E (world s)) k ep (router_of s) = ((True, lru), r)"
  shows "update_peer_loop (Suc n) E k ep s = Inr ((), s\<lparr>router_of := r\<rparr>)"
  using assms by (simp add: update_peer_loop.simps lock_router_free unlock_after_update)

lemma update_peer_refused:
  assumes "session_ok s"
    and "attempt_insert_peer (now_at E (world s)) k ep (router_of s) = ((False, Some lru), r)"
  shows "update_peer_loop (Suc n) E k ep s =
    and_then (ping E lru (s\<lparr>router_of := r\<rparr>)) (\<lambda>(reply, s).
      if (case reply of None \<Rightarrow> False | Some other \<Rightarrow> pkey lru = pkey other)
      then Inr ((), s)
      else and_then (lock_router s) (\<lambda>(_, s).
        let s = unlock_router (s\<lparr>router_of := evict_peer (pkey lru) (router_of s)\<rparr>);
            s = s\<lparr>dead_peers := dead_peers s + 1\<rparr>
        in update_peer_loop n E k ep s))"
  using assms by (simp add: update_peer_loop.simps lock_router_free unlock_after_update)

declare update_peer_loop.simps [simp del]

text \<open>
  After a refusal and a failed ping the router is the refused one without its least
  recently used peer, and the next round inserts.
\<close>

definition retry_state :: "peer \<Rightarrow> 'w session \<Rightarrow> 'w session" where
  "retry_state lru t =
     t\<lparr>router_of := evict_peer (pkey lru) (router_of t), dead_peers := dead_peers t + 1\<rparr>"

lemma refused_router:
  assumes "session_ok s" and "attempt_insert_peer now k ep (router_of s) = ((False, Some lru), r)"
  shows "session_ok (s\<lparr>router_of := r\<rparr>)" and "keeps s (s\<lparr>router_of := r\<rparr>)" and "wf_router r"
    and "contacts r = contacts (router_of s)"
  using assms router.inv_insert [of "router_of s" now k ep] router.self_insert [of now k ep "router_of s"]
    router.insert_full [OF _ assms(2)]
  by (auto simp: session_ok_def keeps_def)

lemma update_peer_retry:
  assumes ok: "session_ok s"
    and ref: "attempt_insert_peer (now_at E (world s)) k ep (router_of s) = ((False, Some lru), r)"
    and ping: "ping E lru (s\<lparr>router_of := r\<rparr>) = Inr (reply, t)"
    and other: "\<not> (case reply of None \<Rightarrow> False | Some other \<Rightarrow> pkey lru = pkey other)"
  obtains u where "\<And>n. update_peer_loop (Suc (Suc n)) E k ep s = Inr ((), (retry_state lru t)\<lparr>router_of := u\<rparr>)"
    and "keeps s ((retry_state lru t)\<lparr>router_of := u\<rparr>)"
    and "contacts u = (contacts (router_of s))(pkey lru := None, k \<mapsto> ep)"
proof -
  note r = refused_router [OF ok ref]
  have t: "keeps s t"
    using safe_fromD [OF safe_shift [OF r(2) ping_safe [OF r(1)]] ping] .
  have rt: "evict_peer (pkey lru) (router_of t) = evict_peer (pkey lru) r"
    using ping_router [OF ping] router.evict_twice [OF r(3)] by simp
  let ?v = "retry_state lru t"
  have v: "session_ok ?v" "keeps s ?v" "router_of ?v = evict_peer (pkey lru) r"
    using t keeps_evict [OF t, of "pkey lru"] rt
    by (simp_all add: retry_state_def keeps_dead_peers keeps_ok)
  have wf: "wf_router (router_of s)" using ok by (simp add: session_ok_def)
  obtain lru' u where u: "attempt_insert_peer (now_at E (world ?v)) k ep (evict_peer (pkey lru) r) = ((True, lru'), u)"
      "wf_router u" "contacts u = (contacts (router_of s))(pkey lru := None, k \<mapsto> ep)"
      "self_peer u = self_peer (router_of s)"
    using router.replace_lru [OF wf ref] by metis
  have "update_peer_loop (Suc (Suc n)) E k ep s = update_peer_loop (Suc n) E k ep ?v" for n
    using ping other keeps_ok [OF t]
    by (simp only: update_peer_refused [OF ok ref])
       (simp add: lock_router_free unlock_after_update retry_state_def)
  also have "update_peer_loop (Suc n) E k ep ?v = Inr ((), ?v\<lparr>router_of := u\<rparr>)" for n
    using u(1) by (intro update_peer_inserted [OF v(1)]) (simp add: v(3))
  finally have "update_peer_loop (Suc (Suc n)) E k ep s = Inr ((), ?v\<lparr>router_of := u\<rparr>)" for n .
  moreover have "keeps s (?v\<lparr>router_of := u\<rparr>)"
    using v(2,3) u(2,4) by (intro keeps_router) (simp_all add: keeps_def)
  ultimately show thesis using u(3) that by blast
qed

text \<open>The three ways in which \<open>update_peer\<close> ends, for any number of rounds from two on.\<close>

lemma update_peer_cases:
  assumes ok: "session_ok s"
  obtains
    (inserted) lru r where "attempt_insert_peer (now_at E (world s)) k ep (router_of s) = ((True, lru), r)"
      and "\<And>n. update_peer_loop (Suc (Suc n)) E k ep s = Inr ((), s\<lparr>router_of := r\<rparr>)"
      and "keeps s (s\<lparr>router_of := r\<rparr>)"
  | (malformed) lru r where "attempt_insert_peer (now_at E (world s)) k ep (router_of s) = ((False, Some lru), r)"
      and "ping E lru (s\<lparr>router_of := r\<rparr>) = Inl Invalid_Argument"
      and "\<And>n. update_peer_loop (Suc (Suc n)) E k ep s = Inl Invalid_Argument"
  | (alive) lru r other t where "attempt_insert_peer (now_at E (world s)) k ep (router_of s) = ((False, Some lru), r)"
      and "ping E lru (s\<lparr>router_of := r\<rparr>) = Inr (Some other, t)" and "pkey other = pkey lru"
      and "\<And>n. update_peer_loop (Suc (Suc n)) E k ep s = Inr ((), t)"
      and "keeps s t" and "contacts (router_of t) = contacts (router_of s)" and "dead_peers t = dead_peers s"
  | (replaced) lru r reply t u where "attempt_insert_peer (now_at E (world s)) k ep (router_of s) = ((False, Some lru), r)"
      and "ping E lru (s\<lparr>router_of := r\<rparr>) = Inr (reply, t)"
      and "\<not> (case reply of None \<Rightarrow> False | Some other \<Rightarrow> pkey lru = pkey other)"
      and "\<And>n. update_peer_loop (Suc (Suc n)) E k ep s = Inr ((), (retry_state lru t)\<lparr>router_of := u\<rparr>)"
      and "keeps s ((retry_state lru t)\<lparr>router_of := u\<rparr>)"
      and "contacts u = (contacts (router_of s))(pkey lru := None, k \<mapsto> ep)"
proof -
  have wf: "wf_router (router_of s)" using ok by (simp add: session_ok_def)
  let ?now = "now_at E (world s)"
  obtain ins lru r where res: "attempt_insert_peer ?now k ep (router_of s) = ((ins, lru), r)"
    by (metis prod.exhaust)
  show thesis
  proof (cases ins)
    case True
    have "keeps s (s\<lparr>router_of := r\<rparr>)"
      using router.inv_insert [OF wf, of ?now k ep] router.self_insert [of ?now k ep "router_of s"] res
      by (intro keeps_router keeps_refl ok) simp_all
    with True res show thesis using update_peer_inserted [OF ok] by (intro inserted) auto
  next
    case False
    with res obtain p where p: "lru = Some p" using router.insert_full [OF wf, of ?now k ep lru r] by auto
    with False res have ref: "attempt_insert_peer ?now k ep (router_of s) = ((False, Some p), r)" by simp
    note r = refused_router [OF ok ref]
    note safe = safe_shift [OF r(2) ping_safe [OF r(1), of E p]]
    show thesis
    proof (cases "ping E p (s\<lparr>router_of := r\<rparr>)")
      case (Inl e)
      with safe_fromE [OF safe] have "e = Invalid_Argument" by auto
      with Inl ref show thesis by (intro malformed [of p r]) (simp_all only: update_peer_refused [OF ok] and_then.simps)
    next
      case (Inr res)
      then obtain reply t where ping: "ping E p (s\<lparr>router_of := r\<rparr>) = Inr (reply, t)" by (cases res) auto
      show thesis
      proof (cases "case reply of None \<Rightarrow> False | Some other \<Rightarrow> pkey p = pkey other")
        case True
        then obtain other where other: "reply = Some other" "pkey other = pkey p"
          by (cases reply) auto
        have "dead_peers t = dead_peers s"
          using ping other by (auto simp: ping_def Let_def split: prod.splits option.splits)
        then show thesis
          using ref ping other True r(4) ping_router [OF ping] safe_fromD [OF safe ping]
          by (intro alive [of p r other t]) (simp_all only: update_peer_refused [OF ok] and_then.simps, simp_all)
      next
        case False
        show thesis
          using update_peer_retry [OF ok ref ping False] replaced [OF ref ping False] by metis
      qed
    qed
  qed
qed

lemma update_peer_rounds:
  assumes "session_ok s"
  shows "update_peer_loop (Suc (Suc n)) E k ep s = update_peer E k ep s"
proof -
  have two: "update_peer E k ep s = update_peer_loop (Suc (Suc 0)) E k ep s"
    by (simp add: update_peer_def numeral_2_eq_2)
  show ?thesis
    unfolding two by (rule update_peer_cases [OF assms, of E k ep]) metis+
qed

lemma update_peer_safe [safe_intros]:
  assumes "session_ok s"
  shows "safe_from {Invalid_Argument} s (update_peer E k ep s)"
proof -
  have two: "update_peer E k ep s = update_peer_loop (Suc (Suc 0)) E k ep s"
    by (simp add: update_peer_def numeral_2_eq_2)
  show ?thesis
    unfolding two by (rule update_peer_cases [OF assms, of E k ep]) (simp_all add: safe_from_def)
qed

lemma epilogue_safe:
  "session_ok s \<Longrightarrow> safe_from {Invalid_Argument} s (rpc_caller_epilogue E rp s)"
  unfolding rpc_caller_epilogue_def by (intro safe_parse_peer update_peer_safe) auto

lemma handler_prelims_safe:
  "session_ok s \<Longrightarrow> safe_from {Invalid_Argument} s (rpc_handler_prelims E rp s)"
  unfolding rpc_handler_prelims_def
  by (intro safe_parse_peer safe_and_then update_peer_safe) (auto intro: safe_Inr)

lemma add_closest_safe:
  "session_ok s \<Longrightarrow> safe_from {Invalid_Argument} s (add_closest_peers E rps buffer s)"
proof (induction rps arbitrary: buffer s)
  case Nil
  then show ?case by (simp add: safe_Inr keeps_refl)
next
  case (Cons rp rps)
  show ?case
    unfolding add_closest_peers.simps
  proof (rule safe_parse_peer)
    fix p
    show "safe_from {Invalid_Argument} s
        (if pkey p = self_key s \<or> endpoint p = self_endpoint s then add_closest_peers E rps buffer s
         else and_then (update_peer E (pkey p) (endpoint p) s)
                (\<lambda>(_, s). add_closest_peers E rps (buffer @ [p]) s))"
      using Cons by (auto intro!: safe_and_then update_peer_safe intro: safe_shift keeps_ok)
  qed simp
qed

lemma find_node_safe:
  assumes "session_ok s"
  shows "safe_from {Invalid_Argument} s (find_node E p k buffer s)"
proof -
  have w: "keeps s (s\<lparr>world := w\<rparr>)" for w
    using assms by (simp add: keeps_world keeps_refl)
  then have e: "safe_from {Invalid_Argument} s (rpc_caller_epilogue E rp (s\<lparr>world := w\<rparr>))" for rp w
    by (rule safe_shift) (rule epilogue_safe, rule keeps_ok, rule w)
  show ?thesis
    unfolding find_node_def
    by (auto simp: Let_def split: prod.split option.split
        intro!: safe_Inr keeps_evict [OF w, simplified] safe_and_then e
        intro: safe_shift [OF _ add_closest_safe] keeps_ok keeps_trans)
qed

lemma find_value_safe:
  assumes "session_ok s"
  shows "safe_from {Invalid_Argument, Out_Of_Bounds} s (find_value E p k buffer s)"
proof -
  let ?errs = "{Invalid_Argument, Out_Of_Bounds}"
  have w: "keeps s (s\<lparr>world := w\<rparr>)" for w
    using assms by (simp add: keeps_world keeps_refl)
  then have e: "safe_from ?errs s (rpc_caller_epilogue E rp (s\<lparr>world := w\<rparr>))" for rp w
    by (rule safe_shift) (rule safe_weaken [OF epilogue_safe], rule keeps_ok, rule w, simp)
  have a: "safe_from ?errs s (add_closest_peers E rps buffer t)" if "keeps s t" for rps t
    using that by (intro safe_shift [OF that] safe_weaken [OF add_closest_safe] keeps_ok) auto
  show ?thesis
    unfolding find_value_def
    by (auto simp: Let_def split: prod.split option.split
        intro!: safe_Inr keeps_evict [OF w, simplified] safe_and_then [OF e] safe_and_then [OF a] safe_copy_bytes
        intro: keeps_trans)
qed

lemma store_safe:
  assumes "session_ok s"
  shows "safe_from {Invalid_Argument} s (store E p c force s)"
proof -
  have e: "safe_from {Invalid_Argument} s (rpc_caller_epilogue E rp (t\<lparr>world := w\<rparr>))" if "keeps s t" for rp t w
    using that by (intro safe_shift [OF _ epilogue_safe]) (auto simp: keeps_world intro: keeps_ok)
  have w: "keeps s s" using assms by (rule keeps_refl)
  show ?thesis
    unfolding store_def
    by (auto simp: Let_def split: prod.split option.split
        intro!: safe_Inr keeps_evict safe_and_then [OF e] w simp: keeps_world)
       (use keeps_evict [of s "s\<lparr>world := _\<rparr>"] w in \<open>simp_all add: keeps_world\<close>)
qed

section \<open>What the callers add to the buffer\<close>

definition foreign :: "'w session \<Rightarrow> peer \<Rightarrow> bool" where
  "foreign s p \<longleftrightarrow> pkey p \<noteq> self_key s \<and> endpoint p \<noteq> self_endpoint s"

lemma foreign_keeps: "keeps s t \<Longrightarrow> foreign t p \<longleftrightarrow> foreign s p"
  by (simp add: foreign_def keeps_self)

lemma add_closest_result:
  assumes "session_ok s" and "add_closest_peers E rps buffer s = Inr (buffer', t)"
  shows "\<exists>new. buffer' = buffer @ new \<and> (\<forall>p\<in>set new. foreign s p)"
  using assms
proof (induction rps arbitrary: buffer s)
  case Nil
  then show ?case by simp
next
  case (Cons rp rps)
  from Cons.prems(2) obtain p where p: "rpc_peer_to_local rp = Inr p" by auto
  show ?case
  proof (cases "pkey p = self_key s \<or> endpoint p = self_endpoint s")
    case True
    with Cons p show ?thesis by auto
  next
    case False
    with Cons.prems(2) p obtain u where
      u: "update_peer E (pkey p) (endpoint p) s = Inr ((), u)"
        "add_closest_peers E rps (buffer @ [p]) u = Inr (buffer', t)" by auto
    from safe_fromD [OF update_peer_safe [OF Cons.prems(1)] u(1)] have k: "keeps s u" .
    from Cons.IH [OF keeps_ok [OF k] u(2)] obtain new where
      "buffer' = (buffer @ [p]) @ new" "\<forall>q\<in>set new. foreign u q" by blast
    with False foreign_keeps [OF k] show ?thesis
      by (intro exI [of _ "p # new"]) (auto simp: foreign_def)
  qed
qed

lemma find_node_result:
  assumes ok: "session_ok s" and res: "find_node E p k buffer s = Inr ((done, buffer'), t)"
  shows "if done then \<exists>new. buffer' = buffer @ new \<and> (\<forall>q\<in>set new. foreign s q) else buffer' = buffer"
proof -
  obtain reply w where r: "rpc_find_node E (endpoint p)
      \<lparr>fn_sender = rpc_caller_prelims s, fn_search_key = bitset_to_string k\<rparr> (world s) = (reply, w)"
    by fastforce
  have w: "keeps s (s\<lparr>world := w\<rparr>)" using ok by (simp add: keeps_world keeps_refl)
  show ?thesis
  proof (cases reply)
    case None
    with res r show ?thesis by (simp add: find_node_def)
  next
    case (Some m)
    with res r obtain u where u: "rpc_caller_epilogue E (fn_receiver m) (s\<lparr>world := w\<rparr>) = Inr ((), u)"
        "add_closest_peers E (fn_closest_peers m) buffer u = Inr (buffer', t)" and "done"
      by (auto simp: find_node_def)
    have "keeps s u"
      using safe_fromD [OF safe_shift [OF w epilogue_safe [OF keeps_ok [OF w]]] u(1)] .
    with add_closest_result [OF keeps_ok u(2)] \<open>done\<close> show ?thesis
      by (simp add: foreign_keeps)
  qed
qed

lemma find_value_result:
  assumes ok: "session_ok s" and res: "find_value E p k buffer s = Inr ((done, buffer', data), t)"
  shows "if done \<and> data = None then \<exists>new. buffer' = buffer @ new \<and> (\<forall>q\<in>set new. foreign s q)
         else buffer' = buffer \<and> (data \<noteq> None \<longrightarrow> done)"
proof -
  obtain reply w where r: "rpc_find_value E (endpoint p)
      \<lparr>fv_sender = rpc_caller_prelims s, fv_search_key = bitset_to_string k\<rparr> (world s) = (reply, w)"
    by fastforce
  have w: "keeps s (s\<lparr>world := w\<rparr>)" using ok by (simp add: keeps_world keeps_refl)
  show ?thesis
  proof (cases reply)
    case None
    with res r show ?thesis by (simp add: find_value_def)
  next
    case (Some m)
    with res r obtain u where u: "rpc_caller_epilogue E (fv_receiver m) (s\<lparr>world := w\<rparr>) = Inr ((), u)"
        "(if fv_found_value m
             then and_then (copy_bytes (fv_data m) (fv_size m)) (\<lambda>data. Inr ((True, buffer, Some data), u))
             else and_then (add_closest_peers E (fv_closest_peers m) buffer u) (\<lambda>(buffer, s).
                  Inr ((True, buffer, None), s))) = Inr ((done, buffer', data), t)"
      by (auto simp: find_value_def)
    have k: "keeps s u"
      using safe_fromD [OF safe_shift [OF w epilogue_safe [OF keeps_ok [OF w]]] u(1)] .
    show ?thesis
    proof (cases "fv_found_value m")
      case True
      with u(2) show ?thesis by auto
    next
      case False
      with u(2) have "done" "data = None" "add_closest_peers E (fv_closest_peers m) buffer u = Inr (buffer', t)"
        by auto
      with add_closest_result [OF keeps_ok [OF k]] show ?thesis by (simp add: foreign_keeps [OF k])
    qed
  qed
qed

end
