(* ===== verification/Lookup.thy ===== *)
theory Lookup
  imports Rpc
begin

text \<open>
  The lookup algorithms of \<open>src/dht/session.cpp\<close>: \<open>lookup_helper\<close>, the generic iterative
  lookup, and \<open>node_lookup\<close>, \<open>value_lookup\<close> and \<open>self_lookup\<close> on top of it. The query
  functions the code passes as closures are the two constructors of \<open>query_kind\<close>.
\<close>

section \<open>Queries\<close>

datatype query_kind = Node_Query | Value_Query

text \<open>
  What the closures share with the lookup: the buffer \<open>closest_peers\<close>, the counter
  \<open>status_ctr\<close>, and the data found; \<open>found_value\<close> is true when there is data.
\<close>

record query_state =
  closest_buffer :: "peer list"
  status_ctr :: nat
  found_data :: "string option"

definition query_fn ::
  "'w env \<Rightarrow> query_kind \<Rightarrow> key \<Rightarrow> peer \<Rightarrow> query_state \<Rightarrow> 'w session \<Rightarrow> ('w, bool \<times> query_state) outcome" where
  "query_fn E kind search_key p q s =
     (case kind of
        Node_Query \<Rightarrow>
          and_then (find_node E p search_key (closest_buffer q) s) (\<lambda>((ok, buffer), s).
          Inr ((False, q\<lparr>closest_buffer := buffer,
                         status_ctr := (if ok then Suc (status_ctr q) else status_ctr q)\<rparr>), s))
      | Value_Query \<Rightarrow>
          and_then (find_value E p search_key (closest_buffer q) s) (\<lambda>((ok, buffer, data), s).
          Inr ((data \<noteq> None, q\<lparr>closest_buffer := buffer,
                               status_ctr := (if ok then Suc (status_ctr q) else status_ctr q),
                               found_data := data\<rparr>), s)))"

lemma query_fn_progress:
  assumes "session_ok s" and "query_fn E kind k p q s = Inr ((False, q'), t)"
  shows "(status_ctr q' = Suc (status_ctr q) \<and> 
            (\<exists>new. closest_buffer q' = closest_buffer q @ new \<and> (\<forall>x\<in>set new. foreign s x))) \<or>
         (status_ctr q' = status_ctr q \<and> closest_buffer q' = closest_buffer q)"
proof (cases kind)
  case Node_Query
  then obtain ok buffer where r: "find_node E p k (closest_buffer q) s = Inr ((ok, buffer), t)"
    and q': "q' = q\<lparr>closest_buffer := buffer, status_ctr := (if ok then Suc (status_ctr q) else status_ctr q)\<rparr>"
    using assms(2) by (auto simp: query_fn_def)
  show ?thesis using find_node_result [OF assms(1) r] q' by (cases ok) auto
next
  case Value_Query
  then obtain ok buffer where r: "find_value E p k (closest_buffer q) s = Inr ((ok, buffer, None), t)"
    and q': "q' = q\<lparr>closest_buffer := buffer, found_data := None,
                   status_ctr := (if ok then Suc (status_ctr q) else status_ctr q)\<rparr>"
    using assms(2) by (auto simp: query_fn_def)
  show ?thesis using find_value_result [OF assms(1) r] q' by (cases ok) auto
qed

lemma find_node_failed: "find_node E p k buffer s = Inr ((False, buffer'), t) \<Longrightarrow> buffer' = buffer"
  by (auto simp: find_node_def Let_def split: prod.splits option.splits)

lemma find_value_failed:
  "find_value E p k buffer s = Inr ((False, buffer', data), t) \<Longrightarrow> buffer' = buffer"
  by (auto simp: find_value_def Let_def split: prod.splits option.splits if_splits)

lemma query_fn_decreases:
  assumes "query_fn E kind k p q s = Inr ((False, q'), t)"
  shows "status_ctr q' = Suc (status_ctr q) \<or>
         status_ctr q' = status_ctr q \<and> closest_buffer q' = closest_buffer q"
proof (cases kind)
  case Node_Query
  then obtain ok buffer where r: "find_node E p k (closest_buffer q) s = Inr ((ok, buffer), t)"
    and q': "q' = q\<lparr>closest_buffer := buffer, status_ctr := (if ok then Suc (status_ctr q) else status_ctr q)\<rparr>"
    using assms by (auto simp: query_fn_def)
  then show ?thesis by (cases ok) (auto dest: find_node_failed)
next
  case Value_Query
  then obtain ok buffer where r: "find_value E p k (closest_buffer q) s = Inr ((ok, buffer, None), t)"
    and q': "q' = q\<lparr>closest_buffer := buffer, found_data := None,
                   status_ctr := (if ok then Suc (status_ctr q) else status_ctr q)\<rparr>"
    using assms by (auto simp: query_fn_def)
  then show ?thesis by (cases ok) (auto dest: find_value_failed)
qed

section \<open>The iterative lookup\<close>

text \<open>
  The inner loop of \<open>lookup_helper\<close>: from index \<open>j\<close> on it queries the peers of the buffer,
  which grows while the loop runs, skips those already queried, and ends when
  \<open>lookup_count\<close> queries succeeded or a query says to halt.
\<close>

function query_round ::
  "'w env \<Rightarrow> query_kind \<Rightarrow> key \<Rightarrow> nat \<Rightarrow> nat \<Rightarrow> key set \<Rightarrow> query_state \<Rightarrow> 'w session \<Rightarrow>
     ('w, bool \<times> key set \<times> query_state) outcome" where
  "query_round E kind search_key lookup_count j queried q s =
     (if j < length (closest_buffer q) \<and> \<not> lookup_count \<le> status_ctr q
      then let p = closest_buffer q ! j in
           if pkey p \<in> queried
           then query_round E kind search_key lookup_count (Suc j) queried q s
           else and_then (query_fn E kind search_key p q s) (\<lambda>((halt, q), s).
                if halt then Inr ((True, queried, q), s)
                else query_round E kind search_key lookup_count (Suc j) (insert (pkey p) queried) q s)
      else Inr ((False, queried, q), s))"
  by pat_completeness auto
termination
  by (relation "measures [\<lambda>(_, _, _, lookup_count, _, _, q, _). lookup_count - status_ctr q,
                          \<lambda>(_, _, _, _, j, _, q, _). length (closest_buffer q) - j]")
     (auto dest!: query_fn_decreases)

declare query_round.simps [simp del]

text \<open>The loop that keeps the first peer of each key.\<close>

fun unique_peers :: "key set \<Rightarrow> peer list \<Rightarrow> peer list" where
  "unique_peers seen [] = []"
| "unique_peers seen (p # ps) =
     (if pkey p \<in> seen then unique_peers seen ps else p # unique_peers (insert (pkey p) seen) ps)"

text \<open>One peer per key, sorted by the distance to the search key, cut to \<open>KBUCKET_MAX\<close>.\<close>

definition select_closest :: "key \<Rightarrow> peer list \<Rightarrow> peer list" where
  "select_closest k ps = take 20 (sort_peers k (unique_peers {} ps))"

text \<open>
  The outer loop of \<open>lookup_helper\<close>: the first argument is the number of iterations left
  of \<open>MAX_LOOKUP_ITERS\<close>. The result says what the lookup leaves in the buffer and in
  the data.
\<close>

primrec lookup_rounds ::
  "nat \<Rightarrow> 'w env \<Rightarrow> query_kind \<Rightarrow> key \<Rightarrow> key set \<Rightarrow> peer list \<Rightarrow> nat \<Rightarrow> dist \<Rightarrow> 'w session \<Rightarrow>
     ('w, peer list \<times> string option) outcome" where
  "lookup_rounds 0 E kind search_key queried buffer sz min_dist s = Inr ((buffer, None), s)"
| "lookup_rounds (Suc n) E kind search_key queried buffer sz min_dist s =
     and_then (query_round E kind search_key (min 3 (length buffer)) 0 queried
                 \<lparr>closest_buffer = buffer, status_ctr = 0, found_data = None\<rparr> s)
       (\<lambda>((halt, queried, q), s).
        if halt then Inr ((closest_buffer q, found_data q), s)
        else let buffer = select_closest search_key (closest_buffer q);
                 new_size = length buffer
             in if buffer = [] then Inl Out_Of_Range
                else let new_min_dist = dist_between search_key (pkey (buffer ! 0))
                     in if new_size \<le> sz \<and> min_dist \<le> new_min_dist
                        then Inr ((buffer, None), s)
                        else lookup_rounds n E kind search_key queried buffer new_size new_min_dist s)"

definition lookup_helper ::
  "'w env \<Rightarrow> query_kind \<Rightarrow> key \<Rightarrow> peer list \<Rightarrow> 'w session \<Rightarrow> ('w, peer list \<times> string option) outcome" where
  "lookup_helper E kind search_key buffer s =
     and_then (lock_router s) (\<lambda>(_, s).
     let (local_peers, r) = closest_peers (now_at E (world s)) search_key 20 (router_of s);
         s = unlock_router (s\<lparr>router_of := r\<rparr>);
         min_dist = fold (\<lambda>p d. min d (dist_between search_key (pkey p))) local_peers dist_max
     in lookup_rounds 160 E kind search_key {} (sort_peers search_key (buffer @ local_peers))
          (length buffer) min_dist s)"

section \<open>The lookups\<close>

text \<open>The final queries of \<open>node_lookup\<close>, one for each peer the lookup left in the buffer.\<close>

primrec final_queries ::
  "'w env \<Rightarrow> key \<Rightarrow> peer list \<Rightarrow> peer list \<Rightarrow> 'w session \<Rightarrow> ('w, peer list) outcome" where
  "final_queries E node_key [] buffer s = Inr (buffer, s)"
| "final_queries E node_key (p # ps) buffer s =
     and_then (find_node E p node_key buffer s) (\<lambda>((_, buffer), s).
     final_queries E node_key ps buffer s)"

definition node_lookup :: "'w env \<Rightarrow> key \<Rightarrow> peer list \<Rightarrow> 'w session \<Rightarrow> ('w, peer list) outcome" where
  "node_lookup E node_key buffer s =
     and_then (lookup_helper E Node_Query node_key [] s) (\<lambda>((closest, _), s).
     and_then (final_queries E node_key closest closest s) (\<lambda>(closest, s).
     Inr (take 20 (sort_peers node_key (buffer @ unique_peers {} closest)), s)))"

text \<open>\<open>value_lookup\<close> returns the value it found; \<open>None\<close> is the code's \<open>false\<close>.\<close>

definition value_lookup :: "'w env \<Rightarrow> key \<Rightarrow> 'w session \<Rightarrow> ('w, string option) outcome" where
  "value_lookup E search_key s =
     and_then (lookup_helper E Value_Query search_key [] s) (\<lambda>((_, data), s). Inr (data, s))"

primrec lookup_each :: "'w env \<Rightarrow> peer list \<Rightarrow> 'w session \<Rightarrow> ('w, unit) outcome" where
  "lookup_each E [] s = Inr ((), s)"
| "lookup_each E (p # ps) s =
     and_then (node_lookup E (pkey p) [] s) (\<lambda>(_, s). lookup_each E ps s)"

text \<open>
  \<open>self_lookup\<close> looks itself up, then a peer of every kbucket. The peers it keeps are
  pointers into the router; it reads their keys only, which never change.
\<close>

definition self_lookup :: "'w env \<Rightarrow> key \<Rightarrow> 'w session \<Rightarrow> ('w, unit) outcome" where
  "self_lookup E key s =
     and_then (lookup_helper E Node_Query key [] s) (\<lambda>(_, s).
     and_then (lock_router s) (\<lambda>(_, s).
     and_then (random_per_bucket_peers (clock_at E (world s)) (rand_at E (world s)) 0 (router_of s))
       (\<lambda>(peers, r).
     lookup_each E peers (unlock_router (s\<lparr>router_of := r\<rparr>)))))"

section \<open>Selecting the closest peers\<close>

lemma unique_peers_keys: "pkey ` set (unique_peers seen ps) = pkey ` set ps - seen"
  by (induction seen ps rule: unique_peers.induct) auto

lemma unique_peers_subset: "set (unique_peers seen ps) \<subseteq> set ps"
  by (induction seen ps rule: unique_peers.induct) auto

lemma unique_peers_distinct: "distinct (map pkey (unique_peers seen ps))"
proof (induction seen ps rule: unique_peers.induct)
  case (2 seen p ps)
  have "pkey p \<notin> pkey ` set (unique_peers (insert (pkey p) seen) ps)"
    unfolding unique_peers_keys by simp
  with 2 show ?case by auto
qed simp

lemma set_sort_peers [simp]: "set (sort_peers k ps) = set ps"
  by (simp add: sort_peers_def)

lemma length_sort_peers [simp]: "length (sort_peers k ps) = length ps"
  by (simp add: sort_peers_def)

lemma sort_peers_distinct [simp]: "distinct (map pkey (sort_peers k ps)) = distinct (map pkey ps)"
proof -
  have "mset (map pkey (sort_peers k ps)) = mset (map pkey ps)"
    by (simp add: sort_peers_def)
  then show ?thesis by (rule mset_eq_imp_distinct_iff)
qed

lemma sorted_sort_peers: "sorted (map (\<lambda>p. dist_between k (pkey p)) (sort_peers k ps))"
  by (simp add: sort_peers_def)

text \<open>What the buffer of a lookup looks like after each round.\<close>

definition ranked :: "'w session \<Rightarrow> key \<Rightarrow> peer list \<Rightarrow> bool" where
  "ranked s k ps \<longleftrightarrow> sorted (map (\<lambda>p. dist_between k (pkey p)) ps) \<and> distinct (map pkey ps) \<and>
     (\<forall>p\<in>set ps. foreign s p)"

text \<open>\<open>as_close k ps qs\<close>: every peer of \<open>qs\<close> is matched by a peer of \<open>ps\<close> at least as close.\<close>

definition as_close :: "key \<Rightarrow> peer list \<Rightarrow> peer list \<Rightarrow> bool" where
  "as_close k ps qs \<longleftrightarrow>
     (\<forall>q\<in>set qs. \<exists>p\<in>set ps. dist_between k (pkey p) \<le> dist_between k (pkey q))"

lemma as_close_trans: "as_close k ps qs \<Longrightarrow> as_close k qs rs \<Longrightarrow> as_close k ps rs"
  unfolding as_close_def by (meson order_trans)

lemma as_close_superset: "set qs \<subseteq> set ps \<Longrightarrow> as_close k ps qs"
  by (auto simp: as_close_def)

lemma select_closest_ranked:
  assumes "\<forall>p\<in>set ps. foreign s p"
  shows "ranked s k (select_closest k ps)"
proof -
  let ?us = "sort_peers k (unique_peers {} ps)"
  have "sorted (map (\<lambda>p. dist_between k (pkey p)) (take 20 ?us))"
    using sorted_wrt_take [OF sorted_sort_peers] by (simp add: take_map)
  moreover have "distinct (map pkey (take 20 ?us))"
    using distinct_take [of "map pkey ?us" 20] unique_peers_distinct by (simp add: take_map)
  moreover have "set (take 20 ?us) \<subseteq> set ps"
    using unique_peers_subset [of "{}" ps] set_take_subset [of 20 ?us] by simp
  ultimately show ?thesis
    using assms by (auto simp: ranked_def select_closest_def)
qed

lemma select_closest_length: "length (select_closest k ps) \<le> 20"
  by (simp add: select_closest_def)

lemma select_closest_subset: "set (select_closest k ps) \<subseteq> set ps"
  using unique_peers_subset [of "{}" ps] set_take_subset [of 20 "sort_peers k (unique_peers {} ps)"]
  by (simp add: select_closest_def)

lemma select_closest_Nil [simp]: "select_closest k ps = [] \<longleftrightarrow> ps = []"
  using unique_peers_keys [of "{}" ps] length_sort_peers [of k "unique_peers {} ps"]
  by (auto simp: select_closest_def simp del: length_sort_peers)

lemma sorted_hd_least: "sorted (map f xs) \<Longrightarrow> x \<in> set xs \<Longrightarrow> f (hd xs) \<le> f x"
  by (cases xs) auto

lemma select_closest_as_close: "as_close k (select_closest k ps) ps"
  unfolding as_close_def
proof
  fix q
  assume "q \<in> set ps"
  let ?us = "sort_peers k (unique_peers {} ps)"
  from \<open>q \<in> set ps\<close> have "pkey q \<in> pkey ` set (unique_peers {} ps)"
    by (simp add: unique_peers_keys)
  then obtain u where u: "u \<in> set ?us" "pkey u = pkey q" by auto
  then have "?us \<noteq> []" by (metis empty_iff empty_set)
  then have "hd ?us \<in> set (take 20 ?us)"
    by (cases ?us) auto
  moreover have "dist_between k (pkey (hd ?us)) \<le> dist_between k (pkey u)"
    using sorted_hd_least [OF sorted_sort_peers u(1)] .
  ultimately show "\<exists>p\<in>set (select_closest k ps). dist_between k (pkey p) \<le> dist_between k (pkey q)"
    using u(2) by (auto simp: select_closest_def)
qed

section \<open>The lookups are safe\<close>

abbreviation query_errors :: "cpp_error set" where
  "query_errors \<equiv> {Invalid_Argument, Out_Of_Bounds}"

lemma query_fn_safe:
  assumes "session_ok s"
  shows "safe_from query_errors s (query_fn E kind k p q s)"
proof (cases kind)
  case Node_Query
  have "safe_from query_errors s (find_node E p k (closest_buffer q) s)"
    by (rule safe_weaken [OF find_node_safe [OF assms]]) auto
  with Node_Query show ?thesis
    by (auto simp: query_fn_def intro!: safe_and_then safe_Inr)
next
  case Value_Query
  with find_value_safe [OF assms] show ?thesis
    by (auto simp: query_fn_def intro!: safe_and_then safe_Inr)
qed

lemma query_round_done:
  "\<not> (j < length (closest_buffer q) \<and> \<not> cnt \<le> status_ctr q) \<Longrightarrow>
     query_round E kind k cnt j queried q s = Inr ((False, queried, q), s)"
  by (subst query_round.simps) (simp only: if_False)

lemma query_round_skip:
  "j < length (closest_buffer q) \<and> \<not> cnt \<le> status_ctr q \<Longrightarrow>
     pkey (closest_buffer q ! j) \<in> queried \<Longrightarrow>
     query_round E kind k cnt j queried q s = query_round E kind k cnt (Suc j) queried q s"
  by (subst query_round.simps) (simp only: Let_def if_True if_False simp_thms)

lemma query_round_step:
  "j < length (closest_buffer q) \<and> \<not> cnt \<le> status_ctr q \<Longrightarrow>
     pkey (closest_buffer q ! j) \<notin> queried \<Longrightarrow>
     query_round E kind k cnt j queried q s =
       and_then (query_fn E kind k (closest_buffer q ! j) q s) (\<lambda>((halt, q'), s).
         if halt then Inr ((True, queried, q'), s)
         else query_round E kind k cnt (Suc j) (insert (pkey (closest_buffer q ! j)) queried) q' s)"
  by (subst query_round.simps) (simp only: Let_def if_True if_False simp_thms)

lemma query_round_safe:
  "session_ok s \<Longrightarrow> safe_from query_errors s (query_round E kind k cnt j queried q s)"
proof (induction E kind k cnt j queried q s rule: query_round.induct)
  case (1 E kind k cnt j queried q s)
  let ?p = "closest_buffer q ! j"
  let ?more = "j < length (closest_buffer q) \<and> \<not> cnt \<le> status_ctr q"
  consider "\<not> ?more" | "?more" "pkey ?p \<in> queried" | "?more" "pkey ?p \<notin> queried" by blast
  then show ?case
  proof cases
    case 1
    with "1.prems" show ?thesis by (simp add: query_round_done safe_Inr keeps_refl)
  next
    case 2
    show ?thesis
      unfolding query_round_skip [OF 2] by (rule "1.IH"(1) [OF 2(1) refl 2(2) "1.prems"])
  next
    case 3
    show ?thesis
      unfolding query_round_step [OF 3]
    proof (rule safe_and_then [OF query_fn_safe [OF "1.prems"]])
      fix x t
      assume r: "query_fn E kind k ?p q s = Inr (x, t)" and k: "keeps s t"
      obtain halt q' where x: "x = (halt, q')" by fastforce
      with "1.IH"(2) [OF 3(1) refl 3(2) r refl] k keeps_ok [OF k]
      show "safe_from query_errors s ((\<lambda>((halt, q'), s).
          if halt then Inr ((True, queried, q'), s)
          else query_round E kind k cnt (Suc j) (insert (pkey ?p) queried) q' s) (x, t))"
        by (auto intro: safe_Inr safe_shift)
    qed
  qed
qed

lemma query_round_result:
  "session_ok s \<Longrightarrow> query_round E kind k cnt j queried q s = Inr ((halt, queried', q'), t) \<Longrightarrow>
     queried \<subseteq> queried' \<and> (\<not> halt \<longrightarrow>
     (\<exists>new. closest_buffer q' = closest_buffer q @ new \<and> (\<forall>p\<in>set new. foreign s p)))"
proof (induction E kind k cnt j queried q s rule: query_round.induct)
  case (1 E kind k cnt j queried q s)
  let ?p = "closest_buffer q ! j"
  let ?more = "j < length (closest_buffer q) \<and> \<not> cnt \<le> status_ctr q"
  consider "\<not> ?more" | "?more" "pkey ?p \<in> queried" | "?more" "pkey ?p \<notin> queried" by blast
  then show ?case
  proof cases
    case 1
    with "1.prems" show ?thesis by (simp add: query_round_done)
  next
    case 2
    show ?thesis
      using "1.prems"(2) unfolding query_round_skip [OF 2] by (rule "1.IH"(1) [OF 2(1) refl 2(2) "1.prems"(1)])
  next
    case 3
    from "1.prems"(2) obtain h q1 t1 where r: "query_fn E kind k ?p q s = Inr ((h, q1), t1)"
      and rest: "(if h then Inr ((True, queried, q1), t1)
         else query_round E kind k cnt (Suc j) (insert (pkey ?p) queried) q1 t1) = Inr ((halt, queried', q'), t)"
      unfolding query_round_step [OF 3] by auto
    have k: "keeps s t1" using safe_fromD [OF query_fn_safe [OF "1.prems"(1)] r] .
    show ?thesis
    proof (cases h)
      case True
      with rest show ?thesis by simp
    next
      case False
      with rest "1.IH"(2) [OF 3(1) refl 3(2) r refl refl False keeps_ok [OF k]]
        query_fn_progress [OF "1.prems"(1), of E kind k ?p q q1 t1] r foreign_keeps [OF k]
      show ?thesis by auto
    qed
  qed
qed

lemma query_round_node:
  "query_round E kind k cnt j queried q s = Inr ((halt, queried', q'), t) \<Longrightarrow>
     kind = Node_Query \<Longrightarrow> \<not> halt"
proof (induction E kind k cnt j queried q s rule: query_round.induct)
  case (1 E kind k cnt j queried q s)
  let ?p = "closest_buffer q ! j"
  let ?more = "j < length (closest_buffer q) \<and> \<not> cnt \<le> status_ctr q"
  consider "\<not> ?more" | "?more" "pkey ?p \<in> queried" | "?more" "pkey ?p \<notin> queried" by blast
  then show ?case
  proof cases
    case 1
    with "1.prems" show ?thesis by (simp add: query_round_done)
  next
    case 2
    show ?thesis
      using "1.prems" unfolding query_round_skip [OF 2] by (rule "1.IH"(1) [OF 2(1) refl 2(2)])
  next
    case 3
    from "1.prems"(1) obtain h q1 t1 where r: "query_fn E kind k ?p q s = Inr ((h, q1), t1)"
      and rest: "(if h then Inr ((True, queried, q1), t1)
         else query_round E kind k cnt (Suc j) (insert (pkey ?p) queried) q1 t1) = Inr ((halt, queried', q'), t)"
      unfolding query_round_step [OF 3] by auto
    have "\<not> h" using r "1.prems"(2) by (auto simp: query_fn_def)
    with rest "1.IH"(2) [OF 3(1) refl 3(2) r refl refl] "1.prems"(2) show ?thesis by simp
  qed
qed

text \<open>The buffer of a lookup that is not empty at the start never becomes empty.\<close>

lemma lookup_rounds_safe:
  assumes "session_ok s" and "buffer \<noteq> []"
  shows "safe_from query_errors s (lookup_rounds n E kind k queried buffer sz d s)"
  using assms
proof (induction n arbitrary: queried buffer sz d s)
  case 0
  then show ?case by (simp add: safe_Inr keeps_refl)
next
  case (Suc n)
  show ?case
    unfolding lookup_rounds.simps
  proof (rule safe_and_then [OF query_round_safe [OF Suc.prems(1)]])
    fix x t
    assume r: "query_round E kind k (min 3 (length buffer)) 0 queried
        \<lparr>closest_buffer = buffer, status_ctr = 0, found_data = None\<rparr> s = Inr (x, t)" and t: "keeps s t"
    obtain halt queried' q where x: "x = (halt, queried', q)" by (metis prod.exhaust)
    have "closest_buffer q \<noteq> []" if "\<not> halt"
      using query_round_result [OF Suc.prems(1) r [unfolded x]] that Suc.prems(2) by auto
    with t show "safe_from query_errors s ((\<lambda>((halt, queried, q), s).
        if halt then Inr ((closest_buffer q, found_data q), s)
        else let buffer = select_closest k (closest_buffer q); new_size = length buffer
             in if buffer = [] then Inl Out_Of_Range
                else let new_min_dist = dist_between k (pkey (buffer ! 0))
                     in if new_size \<le> sz \<and> d \<le> new_min_dist then Inr ((buffer, None), s)
                        else lookup_rounds n E kind k queried buffer new_size new_min_dist s) (x, t))"
      using Suc.IH [OF keeps_ok [OF t]] by (auto simp: x Let_def intro: safe_Inr safe_shift)
  qed
qed

lemma lookup_rounds_empty:
  "lookup_rounds (Suc n) E kind k queried [] sz d s = Inl Out_Of_Range"
  by (simp add: query_round_done)

lemma ranked_keeps: "keeps s t \<Longrightarrow> ranked t k ps = ranked s k ps"
  by (simp add: ranked_def foreign_keeps)

lemma lookup_rounds_result:
  assumes "session_ok s" and "ranked s k buffer" and "n = 0 \<longrightarrow> length buffer \<le> 20"
    and "lookup_rounds n E kind k queried buffer sz d s = Inr ((buffer', None), t)"
    and "kind = Node_Query"
  shows "ranked s k buffer' \<and> length buffer' \<le> 20 \<and> as_close k buffer' buffer"
  using assms(1-4)
proof (induction n arbitrary: queried buffer sz d s)
  case 0
  then show ?case by (auto simp: as_close_superset)
next
  case (Suc n)
  from Suc.prems(4) obtain halt queried' q u where
    r: "query_round E kind k (min 3 (length buffer)) 0 queried
        \<lparr>closest_buffer = buffer, status_ctr = 0, found_data = None\<rparr> s = Inr ((halt, queried', q), u)"
    and rest: "(if halt then Inr ((closest_buffer q, found_data q), u)
        else let buffer = select_closest k (closest_buffer q); new_size = length buffer
             in if buffer = [] then Inl Out_Of_Range
                else let new_min_dist = dist_between k (pkey (buffer ! 0))
                     in if new_size \<le> sz \<and> d \<le> new_min_dist then Inr ((buffer, None), u)
                        else lookup_rounds n E kind k queried' buffer new_size new_min_dist u)
        = Inr ((buffer', None), t)"
    unfolding lookup_rounds.simps by auto
  have u: "keeps s u" using safe_fromD [OF query_round_safe [OF Suc.prems(1)] r] .
  have "\<not> halt" using query_round_node [OF r] assms(5) by simp
  with query_round_result [OF Suc.prems(1) r] obtain new where
    new: "closest_buffer q = buffer @ new" "\<forall>p\<in>set new. foreign s p" by auto
  let ?b = "select_closest k (closest_buffer q)"
  have b: "ranked s k ?b"
    using Suc.prems(2) new by (intro select_closest_ranked) (auto simp: ranked_def)
  have close: "as_close k ?b buffer"
    using as_close_trans [OF select_closest_as_close as_close_superset] new by simp
  show ?case
  proof (cases "length ?b \<le> sz \<and> d \<le> dist_between k (pkey (?b ! 0))")
    case True
    with rest \<open>\<not> halt\<close> have "buffer' = ?b" by (auto simp: Let_def split: if_splits)
    with b close select_closest_length show ?thesis by simp
  next
    case False
    with rest \<open>\<not> halt\<close> have "lookup_rounds n E kind k queried' ?b (length ?b)
        (dist_between k (pkey (?b ! 0))) u = Inr ((buffer', None), t)"
      by (auto simp: Let_def split: if_splits)
    moreover have "ranked u k ?b" using b by (simp add: ranked_keeps [OF u])
    ultimately have "ranked u k buffer' \<and> length buffer' \<le> 20 \<and> as_close k buffer' ?b"
      using Suc.IH [OF keeps_ok [OF u]] select_closest_length by blast
    with close show ?thesis by (auto simp: ranked_keeps [OF u] intro: as_close_trans)
  qed
qed

end
