(* ===== verification/Lookup_Results.thy ===== *)
theory Lookup_Results
  imports Lookup
begin

text \<open>
  What the lookups return and how they fail: the candidates a lookup starts from, when a
  round of queries ends, and the contracts of \<open>lookup_helper\<close> and \<open>node_lookup\<close>.
\<close>

section \<open>The start of a lookup\<close>

text \<open>The contacts a lookup starts from.\<close>

abbreviation known_closest :: "'w session \<Rightarrow> key \<Rightarrow> peer list" where
  "known_closest s k \<equiv> closest_list k 20 (table (router_of s))"

definition after_closest :: "'w env \<Rightarrow> key \<Rightarrow> 'w session \<Rightarrow> 'w session" where
  "after_closest E k s = s\<lparr>router_of := snd (closest_peers (now_at E (world s)) k 20 (router_of s))\<rparr>"

lemma after_closest_keeps:
  assumes "session_ok s"
  shows "keeps s (after_closest E k s)"
  unfolding after_closest_def
  by (intro keeps_router keeps_refl assms router.inv_closest)
     (use assms in \<open>simp_all add: session_ok_def router.self_closest\<close>)

lemma lookup_helper_eq:
  assumes "session_ok s"
  shows "lookup_helper E kind k buffer s =
     lookup_rounds 160 E kind k {} (sort_peers k (buffer @ known_closest s k)) (length buffer)
       (fold (\<lambda>p d. min d (dist_between k (pkey p))) (known_closest s k) dist_max)
       (after_closest E k s)"
  using assms
  by (simp add: lookup_helper_def lock_router_free closest_peers_eq unlock_after_update after_closest_def)

lemma known_closest_foreign:
  assumes "session_ok s"
  shows "\<forall>p\<in>set (known_closest s k). foreign s p" and "distinct (map pkey (known_closest s k))"
  using router.closest_not_self [of "router_of s" _ _ k 20] router.closest_distinct [of "router_of s" _ k 20] assms
  by (auto simp: session_ok_def foreign_def self_key_def self_endpoint_def get_self_peer_def closest_peers_eq)

lemma known_closest_ranked:
  assumes "session_ok s"
  shows "ranked s k (sort_peers k (known_closest s k))"
  using known_closest_foreign [OF assms] sorted_sort_peers by (simp add: ranked_def)

lemma lookup_helper_empty:
  assumes "session_ok s" and "known_closest s k = []"
  shows "lookup_helper E kind k [] s = Inl Out_Of_Range"
  using assms lookup_rounds_empty [of 159 E kind k "{}"]
  by (simp add: lookup_helper_eq sort_peers_def)

lemma lookup_helper_safe:
  assumes "session_ok s" and "known_closest s k \<noteq> []"
  shows "safe_from query_errors s (lookup_helper E kind k [] s)"
proof -
  have "sort_peers k (known_closest s k) \<noteq> []"
    using assms(2) length_sort_peers [of k "known_closest s k"] by (metis length_0_conv)
  with lookup_rounds_safe [OF keeps_ok [OF after_closest_keeps [OF assms(1)]]]
  show ?thesis
    unfolding lookup_helper_eq [OF assms(1)]
    by (intro safe_shift [OF after_closest_keeps [OF assms(1)]]) simp
qed

lemma lookup_rounds_node:
  "lookup_rounds n E Node_Query k queried buffer sz d s = Inr ((buffer', data), t) \<Longrightarrow> data = None"
proof (induction n arbitrary: queried buffer sz d s)
  case (Suc n)
  then show ?case
    by (auto simp: Let_def dest: query_round_node split: if_splits)
qed simp

lemma lookup_helper_result:
  assumes "session_ok s" and "lookup_helper E Node_Query k [] s = Inr ((ps, data), t)"
  shows "ranked s k ps \<and> length ps \<le> 20 \<and> as_close k ps (known_closest s k)"
proof -
  let ?s = "after_closest E k s"
  have k: "keeps s ?s" by (rule after_closest_keeps) (rule assms)
  have r: "lookup_rounds 160 E Node_Query k {} (sort_peers k (known_closest s k)) 0
      (fold (\<lambda>p d. min d (dist_between k (pkey p))) (known_closest s k) dist_max) ?s = Inr ((ps, data), t)"
    using assms by (simp add: lookup_helper_eq)
  then have "data = None" by (rule lookup_rounds_node)
  with lookup_rounds_result [OF keeps_ok [OF k] _ _ r [unfolded this] refl] known_closest_ranked [OF assms(1)]
  show ?thesis
    by (simp add: ranked_keeps [OF k] as_close_def)
qed

section \<open>The node lookup\<close>

lemma final_queries_safe:
  "session_ok s \<Longrightarrow> safe_from {Invalid_Argument} s (final_queries E k ps buffer s)"
proof (induction ps arbitrary: buffer s)
  case Nil
  then show ?case by (simp add: safe_Inr keeps_refl)
next
  case (Cons p ps)
  then show ?case
    by (auto intro!: safe_and_then [OF find_node_safe] intro: safe_shift keeps_ok)
qed

lemma final_queries_result:
  assumes "session_ok s" and "final_queries E k ps buffer s = Inr (buffer', t)"
  shows "\<exists>new. buffer' = buffer @ new \<and> (\<forall>q\<in>set new. foreign s q)"
  using assms
proof (induction ps arbitrary: buffer s)
  case Nil
  then show ?case by simp
next
  case (Cons p ps)
  from Cons.prems(2) obtain d b u where f: "find_node E p k buffer s = Inr ((d, b), u)"
    and rest: "final_queries E k ps b u = Inr (buffer', t)" by auto
  have k: "keeps s u" using safe_fromD [OF find_node_safe [OF Cons.prems(1)] f] .
  from find_node_result [OF Cons.prems(1) f] obtain n1 where n1: "b = buffer @ n1" "\<forall>q\<in>set n1. foreign s q"
    by (cases d) auto
  from Cons.IH [OF keeps_ok [OF k] rest] obtain n2 where "buffer' = b @ n2" "\<forall>q\<in>set n2. foreign s q"
    by (auto simp: foreign_keeps [OF k])
  with n1 show ?case by (intro exI [of _ "n1 @ n2"]) auto
qed

lemma node_lookup_safe:
  assumes "session_ok s" and "known_closest s k \<noteq> []"
  shows "safe_from query_errors s (node_lookup E k buffer s)"
  unfolding node_lookup_def
  by (rule safe_and_then [OF lookup_helper_safe [OF assms]])
     (auto intro!: safe_and_then safe_shift [OF _ safe_weaken [OF final_queries_safe]] safe_Inr
       intro: keeps_ok)

lemma node_lookup_empty:
  "session_ok s \<Longrightarrow> known_closest s k = [] \<Longrightarrow> node_lookup E k buffer s = Inl Out_Of_Range"
  by (simp add: node_lookup_def lookup_helper_empty)

lemma node_lookup_errors:
  assumes "session_ok s"
  shows "safe_from {Invalid_Argument, Out_Of_Bounds, Out_Of_Range} s (node_lookup E k buffer s)"
proof (cases "known_closest s k = []")
  case True
  with node_lookup_empty [OF assms True] show ?thesis by (simp add: safe_Inl)
next
  case False
  show ?thesis by (rule safe_weaken [OF node_lookup_safe [OF assms False]]) auto
qed

lemma node_lookup_result:
  assumes "session_ok s" and "node_lookup E k [] s = Inr (ps, t)"
  shows "keeps s t \<and> ranked s k ps \<and> length ps \<le> 20 \<and> as_close k ps (known_closest s k)"
proof -
  from assms(2) obtain qs data u qs' where
    h: "lookup_helper E Node_Query k [] s = Inr ((qs, data), u)"
    and f: "final_queries E k qs qs u = Inr (qs', t)"
    and ps: "ps = select_closest k qs'"
    by (auto simp: node_lookup_def select_closest_def)
  note r = lookup_helper_result [OF assms(1) h]
  have "known_closest s k \<noteq> []"
    using h lookup_helper_empty [OF assms(1)] by auto
  note safe = node_lookup_safe [OF assms(1) this, of E "[]"]
  have k: "keeps s u"
    using safe_fromD [OF lookup_helper_safe [OF assms(1) \<open>known_closest s k \<noteq> []\<close>] h] .
  from final_queries_result [OF keeps_ok [OF k] f] obtain new where
    new: "qs' = qs @ new" "\<forall>q\<in>set new. foreign s q" by (auto simp: foreign_keeps [OF k])
  have "ranked s k ps"
    unfolding ps by (rule select_closest_ranked) (use r new in \<open>auto simp: ranked_def\<close>)
  moreover have "as_close k ps (known_closest s k)"
    unfolding ps
    by (rule as_close_trans [OF select_closest_as_close as_close_trans [OF as_close_superset]])
       (use new r in auto)
  ultimately show ?thesis
    using safe_fromD [OF safe assms(2)] select_closest_length by (simp add: ps)
qed

lemma lookup_each_errors:
  "session_ok s \<Longrightarrow>
     safe_from {Invalid_Argument, Out_Of_Bounds, Out_Of_Range} s (lookup_each E ps s)"
proof (induction ps arbitrary: s)
  case Nil
  then show ?case by (simp add: safe_Inr keeps_refl)
next
  case (Cons p ps)
  then show ?case
    by (auto intro!: safe_and_then [OF node_lookup_errors] intro: safe_shift keeps_ok)
qed

section \<open>When a round of queries ends\<close>

text \<open>
  Up to the current index every peer of the buffer has been queried; so a round ends
  with all peers of the buffer queried, or with exactly the number of successful queries
  it was asked for.
\<close>

lemma query_round_complete:
  assumes "query_round E kind k cnt j queried q s = Inr ((False, queried', q'), t)"
    and "\<forall>i<j. i < length (closest_buffer q) \<longrightarrow> pkey (closest_buffer q ! i) \<in> queried"
    and "status_ctr q \<le> cnt" and "session_ok s"
  shows "status_ctr q' = cnt \<or>
     status_ctr q' < cnt \<and> pkey ` set (closest_buffer q') \<subseteq> queried'"
  using assms
proof (induction E kind k cnt j queried q s rule: query_round.induct)
  case (1 E kind k cnt j queried q s)
  let ?p = "closest_buffer q ! j"
  let ?more = "j < length (closest_buffer q) \<and> \<not> cnt \<le> status_ctr q"
  consider "\<not> ?more" | "?more" "pkey ?p \<in> queried" | "?more" "pkey ?p \<notin> queried" by blast
  then show ?case
  proof cases
    case 1
    with "1.prems" show ?thesis by (auto simp: query_round_done in_set_conv_nth)
  next
    case 2
    show ?thesis
      by (rule "1.IH"(1) [OF 2(1) refl 2(2)])
         (use "1.prems" 2 in \<open>auto simp: query_round_skip less_Suc_eq\<close>)
  next
    case 3
    from "1.prems"(1) obtain q1 t1 where r: "query_fn E kind k ?p q s = Inr ((False, q1), t1)"
      and rest: "query_round E kind k cnt (Suc j) (insert (pkey ?p) queried) q1 t1 = Inr ((False, queried', q'), t)"
      unfolding query_round_step [OF 3] by (auto split: if_splits)
    have k: "keeps s t1" using safe_fromD [OF query_fn_safe [OF "1.prems"(4)] r] .
    from query_fn_progress [OF "1.prems"(4) r] obtain new where
      new: "closest_buffer q1 = closest_buffer q @ new" "status_ctr q1 \<le> Suc (status_ctr q)" by auto
    show ?thesis
    proof (rule "1.IH"(2) [OF 3(1) refl 3(2) r refl refl _ rest])
      show "\<forall>i<Suc j. i < length (closest_buffer q1) \<longrightarrow> pkey (closest_buffer q1 ! i) \<in> insert (pkey ?p) queried"
        using "1.prems"(2) 3(1) new(1) by (auto simp: less_Suc_eq nth_append)
    qed (use new 3(1) keeps_ok [OF k] in auto)
  qed
qed

end
