(* ===== verification/Session.thy ===== *)
theory Session
  imports Lookup_Results
begin

text \<open>
  The operations a client calls and the background threads, from \<open>src/dht/session.cpp\<close>
  and \<open>src/dht/rpc.cpp\<close>: publishing, \<open>set\<close> and \<open>get\<close>, startup and teardown, and one
  iteration of each of the three threads. This theory holds the definitions and the
  lemmas on which errors they end in; \<open>Session_Properties\<close> holds the properties.
\<close>

section \<open>Publishing, set and get\<close>

text \<open>The loop of \<open>publish\<close> over the closest peers, with the largest distance so far.\<close>

primrec store_closest ::
  "'w env \<Rightarrow> chunk \<Rightarrow> bool \<Rightarrow> peer list \<Rightarrow> dist \<Rightarrow> 'w session \<Rightarrow> ('w, dist) outcome" where
  "store_closest E c force [] max_dist s = Inr (max_dist, s)"
| "store_closest E c force (p # ps) max_dist s =
     and_then (store E p c force s) (\<lambda>(_, s).
     store_closest E c force ps (max max_dist (dist_between (chunk_key c) (pkey p))) s)"

definition publish :: "'w env \<Rightarrow> chunk \<Rightarrow> bool \<Rightarrow> 'w session \<Rightarrow> ('w, unit) outcome" where
  "publish E c force s =
     and_then (node_lookup E (chunk_key c) [] s) (\<lambda>(buffer, s).
     and_then (store_closest E c force (take 20 buffer) (Dist 0) s) (\<lambda>(max_dist, s).
     if length buffer \<le> 20 \<or> dist_between (chunk_key c) (self_key s) \<le> max_dist
     then and_then (lock_chunks s) (\<lambda>(_, s).
          Inr ((), unlock_chunks (s\<lparr>chunks := AList.update (chunk_key c) c (chunks s)\<rparr>)))
     else Inr ((), s)))"

text \<open>\<open>Session::set\<close>: the clock is read for the publication time, then by the constructor of the chunk.\<close>

definition session_set :: "'w env \<Rightarrow> key \<Rightarrow> string \<Rightarrow> bool \<Rightarrow> 'w session \<Rightarrow> ('w, unit) outcome" where
  "session_set E k data force s =
     publish E (new_chunk (clock_at E (world s) 1) k data True (clock_at E (world s) 0)) force s"

text \<open>\<open>Session::get\<close>; \<open>None\<close> is the code's \<open>false\<close>.\<close>

definition session_get :: "'w env \<Rightarrow> key \<Rightarrow> 'w session \<Rightarrow> ('w, string option) outcome" where
  "session_get E k s =
     and_then (lock_chunks s) (\<lambda>(_, s).
     case map_of (chunks s) k of
       Some c \<Rightarrow> Inr (Some (chunk_data c), unlock_chunks s)
     | None \<Rightarrow> value_lookup E k (unlock_chunks s))"

section \<open>Startup\<close>

text \<open>
  \<open>while (!this->ping(&other_peer, &other_peer));\<close> has no bound of its own: the first
  argument is the number of attempts after which the model gives up.
\<close>

primrec ping_until :: "nat \<Rightarrow> 'w env \<Rightarrow> peer \<Rightarrow> 'w session \<Rightarrow> ('w, peer) outcome" where
  "ping_until 0 E p s = Inl Diverges"
| "ping_until (Suc n) E p s =
     and_then (ping E p s) (\<lambda>(reply, s).
     case reply of Some q \<Rightarrow> Inr (q, s) | None \<Rightarrow> ping_until n E p s)"

text \<open>
  \<open>Session::startup\<close> up to the start of the server and the threads, which is left to gRPC
  and the system (the port in the endpoint goes to them only), and from there on.
  \<open>draw_self\<close> and \<open>draw_temp\<close> are the bits the two calls of \<open>random_key\<close> draw.
\<close>

definition startup_begin ::
  "'w env \<Rightarrow> (nat \<Rightarrow> bool) \<Rightarrow> (nat \<Rightarrow> bool) \<Rightarrow> string \<Rightarrow> string \<Rightarrow> 'w session \<Rightarrow> ('w, unit) outcome" where
  "startup_begin E draw_self draw_temp self_ep init_ep s =
     (let s = s\<lparr>dying := False\<rparr>; sk = random_key draw_self; temp_key = random_key draw_temp in
      and_then (lock_router s) (\<lambda>(_, s).
      Inr ((), unlock_router (s\<lparr>router_of := new_router (now_at E (world s)) sk self_ep temp_key init_ep\<rparr>))))"

definition startup_join :: "nat \<Rightarrow> 'w env \<Rightarrow> key \<Rightarrow> key \<Rightarrow> string \<Rightarrow> 'w session \<Rightarrow> ('w, unit) outcome" where
  "startup_join n E sk temp_key init_ep s =
     and_then (ping_until n E \<lparr>pkey = temp_key, endpoint = init_ep\<rparr> s) (\<lambda>(other, s).
     and_then (lock_router s) (\<lambda>(_, s).
     let r = snd (attempt_insert_peer (now_at E (world s)) (pkey other) (endpoint other) (router_of s));
         s = unlock_router (s\<lparr>router_of := evict_peer temp_key r\<rparr>)
     in self_lookup E sk s))"

definition startup ::
  "nat \<Rightarrow> 'w env \<Rightarrow> (nat \<Rightarrow> bool) \<Rightarrow> (nat \<Rightarrow> bool) \<Rightarrow> string \<Rightarrow> string \<Rightarrow> 'w session \<Rightarrow>
     ('w, unit) outcome" where
  "startup n E draw_self draw_temp self_ep init_ep s =
     and_then (startup_begin E draw_self draw_temp self_ep init_ep s) (\<lambda>(_, s).
     startup_join n E (random_key draw_self) (random_key draw_temp) init_ep s)"

lemmas startup_simps = startup_def startup_begin_def startup_join_def

section \<open>Teardown\<close>

text \<open>
  \<open>teardown\<close> holds pointers to peers while it stores chunks, and a store may refresh the
  endpoint of a peer in place. A pointer is the peer with a flag that says whether it is
  still the object in the table; an evicted object keeps its last endpoint.
\<close>

definition follow_pointer :: "router \<Rightarrow> peer \<times> bool \<Rightarrow> peer \<times> bool" where
  "follow_pointer r x =
     (case x of (p, live) \<Rightarrow>
        if live
        then (case find (\<lambda>q. pkey q = pkey p) (all_peers r) of
                Some q \<Rightarrow> (q, True)
              | None \<Rightarrow> (p, False))
        else (p, False))"

fun store_until :: "'w env \<Rightarrow> chunk \<Rightarrow> (peer \<times> bool) list \<Rightarrow> bool \<Rightarrow> 'w session \<Rightarrow> ('w, bool) outcome" where
  "store_until E c [] stored s = Inr (stored, s)"
| "store_until E c ((p, live) # ps) stored s =
     (if stored then store_until E c ps True s
      else and_then (store E p c False s) (\<lambda>(ok, s).
           store_until E c (map (follow_pointer (router_of s)) ps) ok s))"

text \<open>The loop over the chunks; the result lists the keys it reports as dropped.\<close>

fun hand_over :: "'w env \<Rightarrow> (key \<times> chunk) list \<Rightarrow> 'w session \<Rightarrow> ('w, key list) outcome" where
  "hand_over E [] s = Inr ([], s)"
| "hand_over E ((k, c) # cs) s =
     and_then (lock_router s) (\<lambda>(_, s).
     let (closest, r) = closest_peers (now_at E (world s)) k 3 (router_of s);
         s = unlock_router (s\<lparr>router_of := r\<rparr>)
     in and_then (store_until E c (map (\<lambda>p. (p, True)) closest) False s) (\<lambda>(stored, s).
        and_then (hand_over E cs s) (\<lambda>(dropped, s).
        Inr (if stored then dropped else k # dropped, s))))"

text \<open>
  \<open>Session::teardown\<close>, between the end of the threads and the destruction of the router.
  The chunks are freed at the end; the result lists the dropped keys.
\<close>

definition teardown :: "'w env \<Rightarrow> bool \<Rightarrow> 'w session \<Rightarrow> ('w, key list) outcome" where
  "teardown E do_republish s =
     and_then (lock_chunks (s\<lparr>dying := True\<rparr>)) (\<lambda>(_, s).
     and_then (if do_republish then hand_over E (chunks s) s else Inr (map fst (chunks s), s))
       (\<lambda>(dropped, s). Inr (dropped, unlock_chunks (s\<lparr>chunks := []\<rparr>))))"

section \<open>The background threads\<close>

text \<open>
  One iteration of each thread, after its sleep. The result is false when the thread
  returns because the session is dying. The scan of the chunks reads the clock once for
  each chunk.
\<close>

definition due_keys :: "(nat \<Rightarrow> time) \<Rightarrow> (key \<times> chunk) list \<Rightarrow> key list" where
  "due_keys clock cs =
     map (\<lambda>(i, k, c). k)
       (filter (\<lambda>(i, k, c). 3600 \<le> to_seconds (clock i - last_published c)) (enumerate 0 cs))"

primrec republish_each :: "'w env \<Rightarrow> key list \<Rightarrow> 'w session \<Rightarrow> ('w, unit) outcome" where
  "republish_each E [] s = Inr ((), s)"
| "republish_each E (k # ks) s =
     (case map_of (chunks s) k of
        None \<Rightarrow> Inl Wild_Pointer
      | Some c \<Rightarrow>
          and_then (publish E c False (s\<lparr>chunks := AList.delete k (chunks s)\<rparr>)) (\<lambda>(_, s).
          republish_each E ks s))"

definition republish_step :: "'w env \<Rightarrow> 'w session \<Rightarrow> ('w, bool) outcome" where
  "republish_step E s =
     (if dying s then Inr (False, s)
      else and_then (lock_chunks s) (\<lambda>(_, s).
           and_then (republish_each E (due_keys (clock_at E (world s)) (chunks s)) s) (\<lambda>(_, s).
           Inr (True, unlock_chunks s))))"

definition expired_keys :: "(nat \<Rightarrow> time) \<Rightarrow> (key \<times> chunk) list \<Rightarrow> key list" where
  "expired_keys clock cs =
     map (\<lambda>(i, k, c). k)
       (filter (\<lambda>(i, k, c). 86400 * ticks_per_second \<le> original_publish c - clock i) (enumerate 0 cs))"

definition cleanup_step :: "'w env \<Rightarrow> 'w session \<Rightarrow> ('w, bool) outcome" where
  "cleanup_step E s =
     (if dying s then Inr (False, s)
      else and_then (lock_chunks s) (\<lambda>(_, s).
           Inr (True, unlock_chunks
             (s\<lparr>chunks := fold AList.delete (expired_keys (clock_at E (world s)) (chunks s)) (chunks s)\<rparr>))))"

definition refresh_step :: "'w env \<Rightarrow> 'w session \<Rightarrow> ('w, bool) outcome" where
  "refresh_step E s =
     (if dying s then Inr (False, s)
      else and_then (lock_router s) (\<lambda>(_, s).
           and_then (random_per_bucket_peers (clock_at E (world s)) (rand_at E (world s)) 3600 (router_of s))
             (\<lambda>(refresh_peers, r).
           and_then (lookup_each E refresh_peers (unlock_router (s\<lparr>router_of := r\<rparr>))) (\<lambda>(_, s).
           Inr (True, s)))))"

section \<open>Which errors the operations end in\<close>

abbreviation lookup_errors :: "cpp_error set" where
  "lookup_errors \<equiv> {Invalid_Argument, Out_Of_Bounds, Out_Of_Range}"

lemma store_closest_safe:
  "session_ok s \<Longrightarrow> safe_from {Invalid_Argument} s (store_closest E c force ps d s)"
proof (induction ps arbitrary: d s)
  case Nil
  then show ?case by (simp add: safe_Inr keeps_refl)
next
  case (Cons p ps)
  then show ?case
    by (auto intro!: safe_and_then [OF store_safe] intro: safe_shift keeps_ok)
qed

text \<open>The two network phases of \<open>publish\<close>; after them the chunk is always kept locally.\<close>

definition publish_rpcs :: "'w env \<Rightarrow> chunk \<Rightarrow> bool \<Rightarrow> 'w session \<Rightarrow> ('w, unit) outcome" where
  "publish_rpcs E c force s =
     and_then (node_lookup E (chunk_key c) [] s) (\<lambda>(buffer, s).
     and_then (store_closest E c force (take 20 buffer) (Dist 0) s) (\<lambda>(_, s). Inr ((), s)))"

lemma publish_rpcs_safe:
  "session_ok s \<Longrightarrow> safe_from lookup_errors s (publish_rpcs E c force s)"
  unfolding publish_rpcs_def
  by (rule safe_and_then [OF node_lookup_errors])
     (auto intro!: safe_and_then safe_shift [OF _ safe_weaken [OF store_closest_safe]] safe_Inr
       intro: keeps_ok)

lemma publish_eq:
  assumes "session_ok s"
  shows "publish E c force s =
    and_then (publish_rpcs E c force s) (\<lambda>(_, s).
    and_then (lock_chunks s) (\<lambda>(_, s).
    Inr ((), unlock_chunks (s\<lparr>chunks := AList.update (chunk_key c) c (chunks s)\<rparr>))))"
proof (cases "node_lookup E (chunk_key c) [] s")
  case (Inl e)
  then show ?thesis by (simp add: publish_def publish_rpcs_def)
next
  case (Inr x)
  then obtain ps t where r: "node_lookup E (chunk_key c) [] s = Inr (ps, t)" by (cases x) auto
  then have "length ps \<le> 20" using node_lookup_result [OF assms r] by simp
  with r show ?thesis
    by (simp add: publish_def publish_rpcs_def and_then_assoc split_def)
qed

text \<open>Sampling the kbuckets keeps the session.\<close>

lemma sampling_safe:
  assumes ok: "session_ok s"
    and f: "\<And>ps r. random_per_bucket_peers clock rand age (router_of s) = Inr (ps, r) \<Longrightarrow>
      keeps s (s\<lparr>router_of := r\<rparr>) \<Longrightarrow> safe_from errs s (f (ps, r))"
    and "Division_By_Zero \<in> errs"
  shows "safe_from errs s (and_then (random_per_bucket_peers clock rand age (router_of s)) f)"
proof (rule safe_parse)
  note out = random_per_bucket_outcome [of "router_of s" clock rand age]
  fix e
  assume "random_per_bucket_peers clock rand age (router_of s) = Inl e"
  with out ok assms(3) show "e \<in> errs" by (simp add: session_ok_def)
next
  note out = random_per_bucket_outcome [of "router_of s" clock rand age]
  fix x
  assume r: "random_per_bucket_peers clock rand age (router_of s) = Inr x"
  obtain ps r where x: "x = (ps, r)" by fastforce
  with out r ok have "keeps s (s\<lparr>router_of := r\<rparr>)"
    by (intro keeps_router keeps_refl) (auto simp: session_ok_def)
  with f r x show "safe_from errs s (f x)" by simp
qed

lemma lookup_helper_errors:
  assumes "session_ok s"
  shows "safe_from lookup_errors s (lookup_helper E kind k [] s)"
proof (cases "known_closest s k = []")
  case True
  with lookup_helper_empty [OF assms True] show ?thesis by (simp add: safe_Inl)
next
  case False
  show ?thesis by (rule safe_weaken [OF lookup_helper_safe [OF assms False]]) auto
qed

lemma self_lookup_safe:
  assumes "session_ok s"
  shows "safe_from (insert Division_By_Zero lookup_errors) s (self_lookup E k s)"
  unfolding self_lookup_def
proof (rule safe_and_then [OF safe_weaken [OF lookup_helper_errors [OF assms]]])
  fix x t
  assume k: "keeps s t"
  let ?f = "\<lambda>(peers, r). lookup_each E peers (t\<lparr>router_of := r\<rparr>)"
  let ?sample = "random_per_bucket_peers (clock_at E (world t)) (rand_at E (world t)) 0 (router_of t)"
  have ok: "session_ok t" by (rule keeps_ok [OF k])
  have "safe_from (insert Division_By_Zero lookup_errors) t (and_then ?sample ?f)"
    by (rule sampling_safe [OF ok])
       (auto intro!: safe_shift [OF _ safe_weaken [OF lookup_each_errors]] intro: keeps_ok)
  with ok show "safe_from (insert Division_By_Zero lookup_errors) s
      ((\<lambda>(_, s). and_then (lock_router s) (\<lambda>(_, s).
        and_then (random_per_bucket_peers (clock_at E (world s)) (rand_at E (world s)) 0 (router_of s))
          (\<lambda>(peers, r). lookup_each E peers (unlock_router (s\<lparr>router_of := r\<rparr>))))) (x, t))"
    by (simp add: lock_router_free unlock_after_update safe_shift [OF k])
qed auto

text \<open>Startup and teardown.\<close>

lemma ping_until_safe:
  "session_ok s \<Longrightarrow> safe_from {Invalid_Argument, Diverges} s (ping_until n E p s)"
proof (induction n arbitrary: s)
  case 0
  then show ?case by (simp add: safe_Inl)
next
  case (Suc n)
  show ?case
    unfolding ping_until.simps
    by (rule safe_and_then [OF safe_weaken [OF ping_safe [OF Suc.prems]]])
       (auto split: option.split intro: safe_Inr safe_shift Suc.IH keeps_ok)
qed

lemma ping_until_more: "ping_until n E p s \<noteq> Inl Diverges \<Longrightarrow> ping_until (n + m) E p s = ping_until n E p s"
proof (induction n arbitrary: s)
  case (Suc n)
  show ?case
  proof (cases "ping E p s")
    case (Inr x)
    with Suc show ?thesis by (cases x) (auto split: option.split)
  qed simp
qed simp

lemma store_until_safe:
  "session_ok s \<Longrightarrow> safe_from {Invalid_Argument} s (store_until E c ps stored s)"
proof (induction E c ps stored s rule: store_until.induct)
  case (1 E c stored s)
  then show ?case by (simp add: safe_Inr keeps_refl)
next
  case (2 E c p live ps stored s)
  show ?case
  proof (cases stored)
    case True
    with 2 show ?thesis by simp
  next
    case False
    have "safe_from {Invalid_Argument} s (and_then (store E p c False s) (\<lambda>(ok, s).
           store_until E c (map (follow_pointer (router_of s)) ps) ok s))"
    proof (rule safe_and_then [OF store_safe [OF "2.prems"]])
      fix x t
      assume r: "store E p c False s = Inr (x, t)" and k: "keeps s t"
      have "safe_from {Invalid_Argument} s (store_until E c (map (follow_pointer (router_of t)) ps) x t)"
        by (rule safe_shift [OF k]) (rule "2.IH"(2) [OF False r refl keeps_ok [OF k]])
      then show "safe_from {Invalid_Argument} s
          ((\<lambda>(ok, s). store_until E c (map (follow_pointer (router_of s)) ps) ok s) (x, t))" by simp
    qed
    with False show ?thesis by simp
  qed
qed

lemma hand_over_safe:
  "session_ok s \<Longrightarrow> safe_from {Invalid_Argument} s (hand_over E cs s)"
proof (induction cs arbitrary: s)
  case Nil
  then show ?case by (simp add: safe_Inr keeps_refl)
next
  case (Cons x cs)
  obtain k c where x: "x = (k, c)" by fastforce
  let ?t = "s\<lparr>router_of := snd (closest_peers (now_at E (world s)) k 3 (router_of s))\<rparr>"
  have t: "keeps s ?t"
    using Cons.prems by (intro keeps_router keeps_refl router.inv_closest)
      (simp_all add: session_ok_def router.self_closest)
  have rest: "safe_from {Invalid_Argument} u (and_then (hand_over E cs u) (\<lambda>(dropped, s).
      Inr (if stored then dropped else k # dropped, s)))" if "keeps ?t u" for u stored
    by (rule safe_and_then [OF Cons.IH [OF keeps_ok [OF that]]]) (auto intro: safe_Inr)
  have "safe_from {Invalid_Argument} ?t (and_then (store_until E c (map (\<lambda>p. (p, True))
      (closest_list k 3 (table (router_of s)))) False ?t) (\<lambda>(stored, s).
        and_then (hand_over E cs s) (\<lambda>(dropped, s).
        Inr (if stored then dropped else k # dropped, s))))"
    by (rule safe_and_then [OF store_until_safe [OF keeps_ok [OF t]]]) (auto intro: safe_shift rest)
  with t Cons.prems show ?case
    by (simp add: x lock_router_free closest_peers_eq unlock_after_update safe_shift)
qed

lemma hand_over_dropped:
  "hand_over E cs s = Inr (dropped, t) \<Longrightarrow> set dropped \<subseteq> fst ` set cs"
proof (induction cs arbitrary: s dropped)
  case (Cons x cs)
  obtain k c where x: "x = (k, c)" by fastforce
  from Cons.prems obtain u stored d where "hand_over E cs u = Inr (d, t)"
    and "dropped = (if stored then d else k # d)"
    by (auto simp: x Let_def split_def) (metis fst_conv)
  with Cons.IH show ?case by (auto simp: x split: if_splits)
qed simp

end
