(* ===== verification/Handlers.thy ===== *)
theory Handlers
  imports Rpc
begin

text \<open>
  What the handlers of \<open>src/dht/rpc.cpp\<close> answer and leave behind: the lemmas of this theory
  describe each of the five handlers once, for the properties of \<open>Rpc_Properties\<close>.
\<close>

lemma rpc_peer_roundtrip [simp]: "rpc_peer_to_local (local_to_rpc_peer p) = Inr p"
  by (simp add: rpc_peer_to_local_def local_to_rpc_peer_def bitset_roundtrip)

lemma handler_prelims_result:
  assumes "session_ok s" and "rpc_handler_prelims E rp s = Inr (receiver, t)"
  shows "keeps s t" and "receiver = local_to_rpc_peer (self_peer (router_of s))"
proof -
  show k: "keeps s t" by (rule safe_fromD [OF handler_prelims_safe [OF assms(1)] assms(2)])
  from assms(2) have "receiver = local_to_rpc_peer (self_peer (router_of t))"
    by (auto simp: rpc_handler_prelims_def get_self_peer_def)
  with k show "receiver = local_to_rpc_peer (self_peer (router_of s))" by (simp add: keeps_def)
qed

text \<open>The answer with close peers, which two handlers share.\<close>

definition answer_closest :: "'w env \<Rightarrow> key \<Rightarrow> 'w session \<Rightarrow> peer list \<times> 'w session" where
  "answer_closest E k s =
     (closest_list k 20 (table (router_of s)),
      s\<lparr>router_of := snd (closest_peers (now_at E (world s)) k 20 (router_of s))\<rparr>)"

lemma answer_closest_keeps:
  assumes "session_ok s" and "answer_closest E k s = (ps, t)"
  shows "keeps s t" and "contacts (router_of t) = contacts (router_of s)" and "world t = world s"
proof -
  have t: "t = s\<lparr>router_of := snd (closest_peers (now_at E (world s)) k 20 (router_of s))\<rparr>"
    using assms(2) by (simp add: answer_closest_def)
  show "keeps s t"
    unfolding t using assms(1)
    by (intro keeps_router keeps_refl router.inv_closest) (simp_all add: session_ok_def router.self_closest)
  show "contacts (router_of t) = contacts (router_of s)" "world t = world s"
    unfolding t using router.contacts_closest by simp_all
qed

lemma answer_closest_contacts:
  assumes "session_ok s" and "answer_closest E k s = (ps, t)" and "p \<in> set ps"
  shows "contacts (router_of s) (pkey p) = Some (endpoint p)" and "foreign s p"
  using router.closest_known [of "router_of s" p _ k 20] router.closest_not_self [of "router_of s" p _ k 20] assms
  by (auto simp: answer_closest_def closest_peers_eq session_ok_def foreign_def self_key_def
      self_endpoint_def get_self_peer_def)

lemma handle_find_node_eq:
  assumes "session_ok s"
  shows "handle_find_node E rq s =
    and_then (rpc_handler_prelims E (fn_sender rq) s) (\<lambda>(receiver, s).
    and_then (bitset_of_string (fn_search_key rq)) (\<lambda>k.
    let (ps, t) = answer_closest E k s in
    Inr (\<lparr>fn_receiver = receiver, fn_closest_peers = map local_to_rpc_peer ps\<rparr>, t)))"
  unfolding handle_find_node_def answer_closest_def
  by (rule and_then_cong [OF refl])
     (auto simp: lock_router_free closest_peers_eq unlock_after_update
       dest!: handler_prelims_result(1) [OF assms] keeps_ok)

text \<open>\<open>chunks_free\<close>: no thread holds the mutex of the chunks.\<close>

abbreviation chunks_free :: "'w session \<Rightarrow> bool" where
  "chunks_free s \<equiv> \<not> chunks_locked s"

lemma lock_chunks_free: "chunks_free s \<Longrightarrow> lock_chunks s = Inr ((), s\<lparr>chunks_locked := True\<rparr>)"
  by (simp add: lock_chunks_def)

lemma unlock_chunks_after: "chunks_free s \<Longrightarrow> unlock_chunks (s\<lparr>chunks_locked := True\<rparr>) = s"
  by (simp add: unlock_chunks_def)

lemma chunks_update_free: "chunks_free s \<Longrightarrow> s\<lparr>chunks := cs, chunks_locked := False\<rparr> = s\<lparr>chunks := cs\<rparr>"
  by (cases s) simp

lemma handle_find_value_eq:
  assumes "session_ok s" and "chunks_free s"
  shows "handle_find_value E rq s =
    and_then (rpc_handler_prelims E (fv_sender rq) s) (\<lambda>(receiver, s).
    and_then (bitset_of_string (fv_search_key rq)) (\<lambda>k.
    case map_of (chunks s) k of
      Some c \<Rightarrow> Inr (\<lparr>fv_receiver = receiver, fv_found_value = True, fv_data = chunk_data c,
                      fv_size = of_nat (length (chunk_data c)), fv_closest_peers = []\<rparr>, s)
    | None \<Rightarrow>
        let (ps, t) = answer_closest E k s in
        Inr (\<lparr>fv_receiver = receiver, fv_found_value = False, fv_data = [], fv_size = 0,
              fv_closest_peers = map local_to_rpc_peer ps\<rparr>, t)))"
proof -
  have free: "session_ok t \<and> chunks_free t"
    if "rpc_handler_prelims E (fv_sender rq) s = Inr (receiver, t)" for receiver t
    using handler_prelims_result(1) [OF assms(1) that] assms(2) by (simp add: keeps_def)
  show ?thesis
    unfolding handle_find_value_def answer_closest_def
    by (rule and_then_cong [OF refl], clarsimp, drule free)
       (auto simp: lock_chunks_free unlock_chunks_after lock_router_free closest_peers_eq
         unlock_after_update intro!: and_then_cong split: option.split)
qed

lemma handle_store_init_eq:
  assumes "session_ok s" and "chunks_free s"
  shows "handle_store_init E rq s =
    and_then (rpc_handler_prelims E (si_sender rq) s) (\<lambda>(receiver, s).
    and_then (bitset_of_string (si_chunk_key rq)) (\<lambda>k.
    Inr (\<lparr>si_receiver = receiver, si_continue_store = (map_of (chunks s) k = None)\<rparr>, s)))"
  unfolding handle_store_init_def
  by (rule and_then_cong [OF refl])
     (use handler_prelims_result(1) [OF assms(1)] assms(2) in
       \<open>auto simp: lock_chunks_free unlock_chunks_after keeps_def\<close>)

definition stored_chunk :: "'w env \<Rightarrow> store_request \<Rightarrow> key \<Rightarrow> string \<Rightarrow> 'w session \<Rightarrow> chunk" where
  "stored_chunk E rq k data s =
     new_chunk (now_at E (world s)) k data False (st_original_publish rq * ticks_per_second)"

lemma handle_store_eq:
  assumes "session_ok s" and "chunks_free s"
  shows "handle_store E rq s =
    and_then (rpc_handler_prelims E (st_sender rq) s) (\<lambda>(receiver, s).
    and_then (bitset_of_string (st_chunk_key rq)) (\<lambda>k.
    and_then (copy_bytes (st_data rq) (st_size rq)) (\<lambda>data.
    Inr (\<lparr>st_receiver = receiver\<rparr>, s\<lparr>chunks := AList.update k (stored_chunk E rq k data s) (chunks s)\<rparr>))))"
proof -
  have free: "chunks_free t" if "rpc_handler_prelims E (st_sender rq) s = Inr (receiver, t)" for receiver t
    using handler_prelims_result(1) [OF assms(1) that] assms(2) by (simp add: keeps_def)
  then show ?thesis
    unfolding handle_store_def stored_chunk_def
    by (intro and_then_cong [OF refl])
       (auto simp: lock_chunks_free unlock_chunks_def new_chunk_def chunks_update_free)
qed

section \<open>Successful runs\<close>

lemma handle_find_node_runs:
  assumes "session_ok s" and "handle_find_node E rq s = Inr (response, t)"
  obtains k u ps where "keeps s u" and "bitset_of_string (fn_search_key rq) = Inr k"
    and "answer_closest E k u = (ps, t)"
    and "response = \<lparr>fn_receiver = local_to_rpc_peer (self_peer (router_of s)),
                     fn_closest_peers = map local_to_rpc_peer ps\<rparr>"
proof -
  from assms obtain receiver u k where p: "rpc_handler_prelims E (fn_sender rq) s = Inr (receiver, u)"
    and k: "bitset_of_string (fn_search_key rq) = Inr k"
    and r: "(let (ps, t) = answer_closest E k u in
         Inr (\<lparr>fn_receiver = receiver, fn_closest_peers = map local_to_rpc_peer ps\<rparr>, t)) =
       (Inr (response, t) :: cpp_error + _)"
    by (auto simp: handle_find_node_eq)
  obtain ps u' where "answer_closest E k u = (ps, u')" by fastforce
  with that [of u k ps] r k handler_prelims_result [OF assms(1) p] show thesis by auto
qed

lemma handle_find_value_runs:
  assumes "session_ok s" and "chunks_free s" and "handle_find_value E rq s = Inr (response, t)"
  obtains (found) k c where "bitset_of_string (fv_search_key rq) = Inr k" and "keeps s t"
      and "map_of (chunks s) k = Some c" and "fv_found_value response" and "fv_data response = chunk_data c"
      and "fv_size response = of_nat (length (chunk_data c))"
  | (absent) k u ps where "bitset_of_string (fv_search_key rq) = Inr k" and "keeps s u" and "keeps u t"
      and "map_of (chunks s) k = None" and "\<not> fv_found_value response"
      and "answer_closest E k u = (ps, t)" and "fv_closest_peers response = map local_to_rpc_peer ps"
proof -
  from assms(3) obtain receiver u k where p: "rpc_handler_prelims E (fv_sender rq) s = Inr (receiver, u)"
    and k: "bitset_of_string (fv_search_key rq) = Inr k"
    and r: "(case map_of (chunks u) k of
      Some c \<Rightarrow> Inr (\<lparr>fv_receiver = receiver, fv_found_value = True, fv_data = chunk_data c,
                      fv_size = of_nat (length (chunk_data c)), fv_closest_peers = []\<rparr>, u)
    | None \<Rightarrow>
        let (ps, t) = answer_closest E k u in
        Inr (\<lparr>fv_receiver = receiver, fv_found_value = False, fv_data = [], fv_size = 0,
              fv_closest_peers = map local_to_rpc_peer ps\<rparr>, t)) = (Inr (response, t) :: cpp_error + _)"
    by (auto simp: handle_find_value_eq [OF assms(1,2)])
  have u: "keeps s u" using handler_prelims_result [OF assms(1) p] by blast
  then have c: "chunks u = chunks s" by (simp add: keeps_def)
  obtain ps u' where a: "answer_closest E k u = (ps, u')" by fastforce
  show thesis
  proof (cases "map_of (chunks s) k")
    case None
    with r a c have "t = u'" "\<not> fv_found_value response" "fv_closest_peers response = map local_to_rpc_peer ps"
      by auto
    with a answer_closest_keeps(1) [OF keeps_ok [OF u] a] show thesis
      using None by (intro absent [OF k u]) simp_all
  next
    case (Some c')
    with r c u show thesis by (intro found [OF k, of c']) auto
  qed
qed

lemma handle_store_runs:
  assumes "session_ok s" and "chunks_free s" and "handle_store E rq s = Inr (response, t)"
  obtains k u data where "bitset_of_string (st_chunk_key rq) = Inr k" and "keeps s u"
    and "copy_bytes (st_data rq) (st_size rq) = Inr data"
    and "t = u\<lparr>chunks := AList.update k (stored_chunk E rq k data u) (chunks u)\<rparr>"
    and "session_ok t" and "chunks_free t"
proof -
  from assms(3) obtain receiver u k data where p: "rpc_handler_prelims E (st_sender rq) s = Inr (receiver, u)"
    and k: "bitset_of_string (st_chunk_key rq) = Inr k"
    and d: "copy_bytes (st_data rq) (st_size rq) = Inr data"
    and t: "t = u\<lparr>chunks := AList.update k (stored_chunk E rq k data u) (chunks u)\<rparr>"
    by (auto simp: handle_store_eq [OF assms(1,2)])
  have u: "keeps s u" using handler_prelims_result [OF assms(1) p] by blast
  with assms(2) t have "session_ok t" "chunks_free t" by (simp_all add: keeps_def session_ok_def)
  with that k u d t show thesis by blast
qed

end
