(* ===== verification/Kv_Store.thy ===== *)
theory Kv_Store
  imports Prelude
begin

text \<open>
  The interface through which the file layer uses a session: a store of data under keys,
  with \<open>put\<close> and \<open>get\<close>. \<open>holds t k d\<close> says that the store itself keeps \<open>d\<close> under \<open>k\<close>; the
  laws say that \<open>put\<close> makes it so and touches no other key, and that \<open>get\<close> of a key that
  is held returns its data and changes nothing. The lemmas are about several calls in a row.
\<close>

text \<open>A sequence of calls, each a key and the data to put, or a key to get.\<close>

primrec put_all ::
  "(key \<Rightarrow> string \<Rightarrow> 't \<Rightarrow> cpp_error + (unit \<times> 't)) \<Rightarrow> (key \<times> string) list \<Rightarrow> 't \<Rightarrow> cpp_error + (unit \<times> 't)" where
  "put_all put [] t = Inr ((), t)"
| "put_all put (x # xs) t = and_then (put (fst x) (snd x) t) (\<lambda>(_, t). put_all put xs t)"

primrec get_all ::
  "(key \<Rightarrow> 't \<Rightarrow> cpp_error + (string option \<times> 't)) \<Rightarrow> key list \<Rightarrow> 't \<Rightarrow> cpp_error + (string option list \<times> 't)" where
  "get_all get [] t = Inr ([], t)"
| "get_all get (k # ks) t =
     and_then (get k t) (\<lambda>(d, t). and_then (get_all get ks t) (\<lambda>(ds, t). Inr (d # ds, t)))"

locale kv_store =
  fixes inv :: "'t \<Rightarrow> bool"
    and holds :: "'t \<Rightarrow> key \<Rightarrow> string \<Rightarrow> bool"
    and put :: "key \<Rightarrow> string \<Rightarrow> 't \<Rightarrow> cpp_error + (unit \<times> 't)"
    and get :: "key \<Rightarrow> 't \<Rightarrow> cpp_error + (string option \<times> 't)"
  assumes inv_put: "inv t \<Longrightarrow> put k d t = Inr (x, u) \<Longrightarrow> inv u"
    and put_holds: "inv t \<Longrightarrow> put k d t = Inr (x, u) \<Longrightarrow> holds u j e \<longleftrightarrow> (if j = k then e = d else holds t j e)"
    and get_held: "inv t \<Longrightarrow> holds t k d \<Longrightarrow> get k t = Inr (Some d, t)"
begin

lemma held_unique: "inv t \<Longrightarrow> holds t k d \<Longrightarrow> holds t k e \<Longrightarrow> d = e"
  using get_held [of t k d] get_held [of t k e] by simp

lemma put_all_holds:
  assumes "inv t" and "put_all put xs t = Inr (x, u)"
  shows "inv u \<and> (\<forall>j e. holds u j e \<longleftrightarrow>
     (case map_of (rev xs) j of Some d \<Rightarrow> e = d | None \<Rightarrow> holds t j e))"
  using assms
proof (induction xs arbitrary: t)
  case Nil
  then show ?case by simp
next
  case (Cons y ys)
  from Cons.prems(2) obtain v where v: "put (fst y) (snd y) t = Inr ((), v)"
    and rest: "put_all put ys v = Inr (x, u)" by auto
  from Cons.IH [OF inv_put [OF Cons.prems(1) v] rest] put_holds [OF Cons.prems(1) v]
  show ?case by (cases y) (auto simp: map_add_def split: option.split)
qed

text \<open>Puts whose data is determined by the key can be made in any order.\<close>

lemma put_all_holds_all:
  assumes "inv t" and "put_all put xs t = Inr (x, u)" and "inj_on fst (set xs)"
  shows "inv u" and "(k, d) \<in> set xs \<Longrightarrow> holds u k d"
    and "k \<notin> fst ` set xs \<Longrightarrow> holds u k d \<longleftrightarrow> holds t k d"
proof -
  note h = put_all_holds [OF assms(1,2)]
  show "inv u" using h by blast
  show "holds u k d" if "(k, d) \<in> set xs"
  proof -
    have "map_of (rev xs) k \<noteq> None"
      unfolding map_of_eq_None_iff using that by force
    then obtain e where e: "map_of (rev xs) k = Some e" by blast
    then have "(k, e) \<in> set xs" by (auto dest: map_of_SomeD)
    with that have "e = d" using inj_onD [OF assms(3), of "(k, e)" "(k, d)"] by simp
    with e h show ?thesis by simp
  qed
  show "holds u k d \<longleftrightarrow> holds t k d" if "k \<notin> fst ` set xs"
  proof -
    have "map_of (rev xs) k = None" using that by (simp add: map_of_eq_None_iff)
    with h show ?thesis by simp
  qed
qed

lemma get_all_held:
  assumes "inv t" and "\<forall>k\<in>set ks. holds t k (f k)"
  shows "get_all get ks t = Inr (map (\<lambda>k. Some (f k)) ks, t)"
proof -
  have "get k t = Inr (Some (f k), t)" if "k \<in> set ks" for k
    using get_held [OF assms(1)] assms(2) that by blast
  then show ?thesis by (induction ks) simp_all
qed

end

end
