(* ===== verification/Session_Store.thy ===== *)
theory Session_Store
  imports Session Handlers Kv_Store
begin

text \<open>
  A session as a provider of the interface \<open>kv_store\<close>: what \<open>publish\<close> leaves behind, and the
  proof of the laws for \<open>session_set\<close> and \<open>session_get\<close>.
\<close>

lemma publish_local:
  assumes "session_ok s" and "publish E c force s = Inr (x, t)"
  shows "session_ok t" and "chunks_free t" and "self_peer (router_of t) = self_peer (router_of s)"
    and "map_of (chunks t) = (map_of (chunks s))(chunk_key c \<mapsto> c)"
proof -
  from assms(2) obtain u where u: "publish_rpcs E c force s = Inr ((), u)"
    and t: "and_then (lock_chunks u) (\<lambda>(_, s).
      Inr ((), unlock_chunks (s\<lparr>chunks := AList.update (chunk_key c) c (chunks s)\<rparr>))) = Inr (x, t)"
    unfolding publish_eq [OF assms(1)] by auto
  have "keeps s u" by (rule safe_fromD [OF publish_rpcs_safe [OF assms(1)] u])
  with t show "session_ok t" "chunks_free t" "self_peer (router_of t) = self_peer (router_of s)"
      "map_of (chunks t) = (map_of (chunks s))(chunk_key c \<mapsto> c)"
    by (auto simp: lock_chunks_def unlock_chunks_def keeps_def session_ok_def update_conv' split: if_splits)
qed

definition store_ready :: "'w session \<Rightarrow> bool" where
  "store_ready s \<longleftrightarrow> session_ok s \<and> chunks_free s"

definition holds_locally :: "'w session \<Rightarrow> key \<Rightarrow> string \<Rightarrow> bool" where
  "holds_locally s k d \<longleftrightarrow> map_option chunk_data (map_of (chunks s) k) = Some d"

interpretation store: kv_store store_ready holds_locally
  "\<lambda>k d. session_set E k d force" "session_get E" for E force
proof unfold_locales
  fix t u :: "'a session" and k d x
  assume "store_ready t" and set: "session_set E k d force t = Inr (x, u)"
  then have ok: "session_ok t" by (simp add: store_ready_def)
  note p = publish_local [OF ok set [unfolded session_set_def]]
  show "store_ready u" using p by (simp add: store_ready_def)
  show "holds_locally u j e = (if j = k then e = d else holds_locally t j e)" for j e
    using p(4) by (auto simp: holds_locally_def new_chunk_def)
next
  fix t :: "'a session" and k d
  assume "store_ready t" and "holds_locally t k d"
  then show "session_get E k t = Inr (Some d, t)"
    by (auto simp: session_get_def store_ready_def holds_locally_def lock_chunks_free unlock_chunks_after)
qed

text \<open>Getting a key keeps the session, wherever the data comes from.\<close>

lemma session_get_ready:
  assumes "session_ok s" and "session_get E k s = Inr (d, t)"
  shows "store_ready t" and "chunks t = chunks s"
proof -
  have free: "chunks_free s" using assms(2) by (auto simp: session_get_def lock_chunks_def split: if_splits)
  have "store_ready t \<and> chunks t = chunks s"
  proof (cases "map_of (chunks s) k")
    case (Some c)
    with assms free show ?thesis
      by (auto simp: session_get_def lock_chunks_free unlock_chunks_after store_ready_def)
  next
    case None
    with assms(2) free obtain y where "lookup_helper E Value_Query k [] s = Inr (y, t)"
      by (auto simp: session_get_def lock_chunks_free unlock_chunks_after value_lookup_def)
    then have "keeps s t" by (rule safe_fromD [OF lookup_helper_errors [OF assms(1)]])
    with free show ?thesis by (auto simp: store_ready_def keeps_def)
  qed
  then show "store_ready t" and "chunks t = chunks s" by auto
qed

end
