(* ===== verification/Files.thy ===== *)
theory Files
  imports Session_Store
begin

text \<open>
  \<open>src/client/file.cpp\<close>: the index of files, writing a local file into the session as
  chunks named by their digest plus a metadata chunk named by the file, and reading files
  back. \<open>sha1\<close> is OpenSSL's digest, as in \<open>Keys\<close>.
\<close>

section \<open>The index\<close>

definition index_key :: "(string \<Rightarrow> 8 word list) \<Rightarrow> key" where
  "index_key sha1 = key_from_string sha1 ''index''"

definition init_index_file ::
  "(string \<Rightarrow> 8 word list) \<Rightarrow> 'w env \<Rightarrow> 'w session \<Rightarrow> ('w, bool) outcome" where
  "init_index_file sha1 E s =
     and_then (session_set E (index_key sha1) [] True s) (\<lambda>(_, s). Inr (True, s))"

definition add_files_to_index_file ::
  "(string \<Rightarrow> 8 word list) \<Rightarrow> 'w env \<Rightarrow> string list \<Rightarrow> 'w session \<Rightarrow> ('w, bool) outcome" where
  "add_files_to_index_file sha1 E files s =
     and_then (session_get E (index_key sha1) s) (\<lambda>(data, s).
     case data of
       None \<Rightarrow> Inr (False, s)
     | Some buffer \<Rightarrow>
         and_then (session_set E (index_key sha1) (fold (\<lambda>file b. b @ file @ [nul]) files buffer) True s)
           (\<lambda>(_, s). Inr (True, s)))"

text \<open>The loops over the bytes of the index; \<open>cur\<close> is the name read so far.\<close>

fun index_names :: "string \<Rightarrow> string \<Rightarrow> string list" where
  "index_names cur [] = []"
| "index_names cur (c # cs) =
     (if c = nul
      then (if 0 < length cur then cur # index_names [] cs else index_names [] cs)
      else index_names (cur @ [c]) cs)"

fun index_contains :: "string \<Rightarrow> string \<Rightarrow> string \<Rightarrow> bool" where
  "index_contains name cur [] = False"
| "index_contains name cur (c # cs) =
     (if c = nul
      then (if cur = name then True else index_contains name [] cs)
      else index_contains name (cur @ [c]) cs)"

text \<open>\<open>get_index_files\<close> returns the names it appends to the buffer; \<open>None\<close> is the code's \<open>false\<close>.\<close>

definition get_index_files ::
  "(string \<Rightarrow> 8 word list) \<Rightarrow> 'w env \<Rightarrow> 'w session \<Rightarrow> ('w, string list option) outcome" where
  "get_index_files sha1 E s =
     and_then (session_get E (index_key sha1) s) (\<lambda>(data, s).
     Inr (map_option (index_names []) data, s))"

definition file_exists ::
  "(string \<Rightarrow> 8 word list) \<Rightarrow> 'w env \<Rightarrow> string \<Rightarrow> 'w session \<Rightarrow> ('w, bool) outcome" where
  "file_exists sha1 E name s =
     and_then (session_get E (index_key sha1) s) (\<lambda>(data, s).
     Inr (case data of None \<Rightarrow> False | Some buffer \<Rightarrow> index_contains name [] buffer, s))"

section \<open>Writing a file\<close>

definition max_chunk_size :: nat where
  "max_chunk_size = 1048576"

text \<open>
  The reading loop of \<open>write_from_file\<close>. A read that delivers the full buffer does not set
  the end-of-file flag, so the loop always ends with a short read, possibly of 0 bytes.
\<close>

function read_chunks :: "string \<Rightarrow> string list" where
  "read_chunks data =
     (if length data < max_chunk_size then [data]
      else take max_chunk_size data # read_chunks (drop max_chunk_size data))"
  by pat_completeness auto
termination
  by (relation "measure length") (auto simp: max_chunk_size_def)

declare read_chunks.simps [simp del]

definition encode_keys :: "key list \<Rightarrow> string" where
  "encode_keys ks = fold (\<lambda>k b. b @ bitset_to_string k @ [nul]) ks []"

text \<open>
  \<open>write_from_file\<close> starts a thread for each chunk. Each thread is one call of \<open>set\<close>; the
  list \<open>sched n\<close> of indices is the order in which \<open>n\<close> threads started together run.
  \<open>content\<close> is what the local file system holds, \<open>None\<close> when the file cannot be opened.
\<close>

definition write_from_file ::
  "(string \<Rightarrow> 8 word list) \<Rightarrow> 'w env \<Rightarrow> (nat \<Rightarrow> nat list) \<Rightarrow> string option \<Rightarrow> string \<Rightarrow> 'w session \<Rightarrow> ('w, bool) outcome" where
  "write_from_file sha1 E sched content dht_filename s =
     (case content of
        None \<Rightarrow> Inr (False, s)
      | Some bytes \<Rightarrow>
          (let named = map (\<lambda>d. (key_from_data sha1 d, d)) (read_chunks bytes) in
           and_then (put_all (\<lambda>k d. session_set E k d False) (map (\<lambda>i. named ! i) (sched (length named))) s) (\<lambda>(_, s).
           and_then (session_set E (key_from_string sha1 dht_filename) (encode_keys (map fst named)) True s) (\<lambda>(_, s).
           Inr (True, s)))))"

section \<open>Reading files\<close>

text \<open>The loop over the bytes of a metadata chunk: names of a wrong length are skipped.\<close>

fun decode_keys :: "string \<Rightarrow> string \<Rightarrow> cpp_error + key list" where
  "decode_keys cur [] = Inr []"
| "decode_keys cur (c # cs) =
     (if c = nul
      then (if length cur \<noteq> 160 then decode_keys [] cs
            else and_then (bitset_of_string cur) (\<lambda>k.
                 and_then (decode_keys [] cs) (\<lambda>ks. Inr (k # ks))))
      else decode_keys (cur @ [c]) cs)"

text \<open>The keys of all files, \<open>None\<close> when a metadata chunk is not found.\<close>

primrec ordered_keys ::
  "(string \<Rightarrow> 8 word list) \<Rightarrow> 'w env \<Rightarrow> string list \<Rightarrow> 'w session \<Rightarrow> ('w, key list option) outcome" where
  "ordered_keys sha1 E [] s = Inr (Some [], s)"
| "ordered_keys sha1 E (file # files) s =
     and_then (session_get E (key_from_string sha1 file) s) (\<lambda>(metadata, s).
     case metadata of
       None \<Rightarrow> Inr (None, s)
     | Some bytes \<Rightarrow>
         and_then (decode_keys [] bytes) (\<lambda>ks.
         and_then (ordered_keys sha1 E files s) (\<lambda>(rest, s).
         Inr (map_option (\<lambda>r. ks @ r) rest, s))))"

text \<open>
  \<open>read_in_files\<close> starts a thread for each chunk, which run in the order \<open>sched\<close> gives;
  each writes the slot of its chunk. The result is the data, \<open>None\<close> the code's \<open>false\<close>.
\<close>

definition read_in_files ::
  "(string \<Rightarrow> 8 word list) \<Rightarrow> 'w env \<Rightarrow> (nat \<Rightarrow> nat list) \<Rightarrow> string list \<Rightarrow> 'w session \<Rightarrow> ('w, string option) outcome" where
  "read_in_files sha1 E sched files s =
     and_then (ordered_keys sha1 E files s) (\<lambda>(keys, s).
     case keys of
       None \<Rightarrow> Inr (None, s)
     | Some ks \<Rightarrow>
         and_then (get_all (session_get E) (map (\<lambda>i. ks ! i) (sched (length ks))) s) (\<lambda>(results, s).
         let slots = fold (\<lambda>(i, r) slots. slots[i := r]) (zip (sched (length ks)) results) (replicate (length ks) None)
         in Inr (if None \<in> set slots then None else Some (concat (map the slots)), s)))"

end
