(* ===== verification/Router_Properties.thy ===== *)
theory Router_Properties
  imports Router_Closest
begin

text \<open>
  The properties of the routing table, each a short consequence of the lemmas of
  \<open>Router_Invariant\<close>, \<open>Router_Contract\<close> and \<open>Router_Closest\<close>.
\<close>

section \<open>Sample routers\<close>

text \<open>
  Concrete routers for the examples below: an empty one, one whose single kbucket is full,
  and one that was split and whose half on the side of the own key is empty.
\<close>

definition sample_self :: peer where
  "sample_self = \<lparr>pkey = 0, endpoint = ''a:1''\<rparr>"

definition sample_peer :: "nat \<Rightarrow> peer" where
  "sample_peer i = \<lparr>pkey = of_nat i, endpoint = ''b:1''\<rparr>"

definition far_key :: key where
  "far_key = set_bit 159 0"

definition empty_router :: router where
  "empty_router = \<lparr>self_peer = sample_self, table = Leaf 159 0 0 []\<rparr>"

definition full_router :: router where
  "full_router = \<lparr>self_peer = sample_self, table = Leaf 159 20 0 (map sample_peer [1..<21])\<rparr>"

definition half_router :: router where
  "half_router = \<lparr>self_peer = sample_self,
     table = Joint 159 1 0 (Leaf 158 0 0 []) (Leaf 158 1 0 [\<lparr>pkey = far_key, endpoint = ''b:1''\<rparr>])\<rparr>"

lemma sample_key_inj: "i < 21 \<Longrightarrow> j < 21 \<Longrightarrow> (of_nat i :: key) = of_nat j \<longleftrightarrow> i = j"
  by (simp add: word_unat_eq_iff unat_of_nat)

lemma sample_key_bit:
  assumes "i < 21"
  shows "\<not> bit (of_nat i :: key) 159"
proof -
  have "i div 2 ^ 159 = 0" using assms by simp
  then have "\<not> bit i 159" by (simp add: bit_iff_odd)
  then show ?thesis unfolding bit_of_nat_iff by simp
qed

lemma bit_far_key [simp]: "bit far_key i \<longleftrightarrow> i = 159"
  unfolding far_key_def bit_set_bit_iff by (auto simp: possible_bit_word)

lemma far_key_not_sample: "i < 21 \<Longrightarrow> (of_nat i :: key) \<noteq> far_key"
  using sample_key_bit [of i] by (auto dest: arg_cong [where f = "\<lambda>k. bit k 159"])

lemma far_key_nonzero [simp]: "far_key \<noteq> 0" "0 \<noteq> far_key"
  using bit_far_key [of 159] by (metis bit_0_eq bot_apply bot_bool_def)+

lemma wf_empty_router [simp]: "wf_router empty_router"
  by (simp add: wf_router_def empty_router_def tree_keys_def)

lemma wf_full_router [simp]: "wf_router full_router"
proof -
  have "distinct (map (of_nat :: nat \<Rightarrow> key) [1..<21])"
    by (auto simp: distinct_map inj_on_def sample_key_inj)
  then show ?thesis
    using sample_key_inj [of _ 0]
    by (auto simp: wf_router_def full_router_def tree_keys_def sample_self_def sample_peer_def o_def
        simp del: upt_rec_numeral of_nat_eq_0_iff)
qed

lemma wf_half_router [simp]: "wf_router half_router"
  by (simp add: wf_router_def half_router_def tree_keys_def sample_self_def)

text \<open>The full router refuses the key on the other side of its first bit.\<close>

lemma full_router_refuses:
  "attempt_insert_peer now far_key ''c:1'' full_router = ((False, Some (sample_peer 20)), full_router)"
proof -
  have "key_index k (map sample_peer is) = None" if "\<forall>i\<in>set is. i < 21 \<and> of_nat i \<noteq> k" for k "is"
    using that by (induction "is") (auto simp: sample_peer_def)
  then have "key_index far_key (map sample_peer [1..<21]) = None"
    using far_key_not_sample by simp
  moreover have "last (map sample_peer [1..<21]) = sample_peer 20"
    by (simp add: last_map)
  ultimately have "insert_loop (Suc 159) now 0 far_key ''c:1'' (table full_router) =
      (Bucket_Full (sample_peer 20), table full_router)"
    unfolding insert_loop.simps by (simp add: full_router_def del: upt_rec_numeral)
  then show ?thesis
    by (simp add: attempt_insert_peer_def full_router_def sample_self_def)
qed

lemma empty_router_inserts:
  "attempt_insert_peer now far_key ''c:1'' empty_router =
     ((True, None), \<lparr>self_peer = sample_self, table = Leaf 159 1 now [\<lparr>pkey = far_key, endpoint = ''c:1''\<rparr>]\<rparr>)"
proof -
  have "insert_loop (Suc 159) now 0 far_key ''c:1'' (table empty_router) =
      (Inserted, Leaf 159 1 now [\<lparr>pkey = far_key, endpoint = ''c:1''\<rparr>])"
    unfolding insert_loop.simps by (simp add: empty_router_def)
  then show ?thesis
    by (simp add: attempt_insert_peer_def empty_router_def sample_self_def)
qed

section \<open>Which leaf refuses a key\<close>

text \<open>The split bit index of the leaf a key leads to.\<close>

fun leaf_bit :: "key \<Rightarrow> bintree \<Rightarrow> nat" where
  "leaf_bit k (Leaf b c a kb) = unat b"
| "leaf_bit k (Joint b c a zt ot) = (if bit k (unat b) then leaf_bit k ot else leaf_bit k zt)"

lemma leaf_bit_into_child:
  "leaf_bit k (snd (into_child adjust f k (Joint b c a zt ot))) =
     leaf_bit k (snd (f (if bit k (unat b) then ot else zt)))"
  by (auto simp: into_child_def split: prod.splits)

lemma refusal_bit:
  assumes "fst (insert_loop n now self k ep t) = Bucket_Full p"
  shows "bit k (leaf_bit k (snd (insert_loop n now self k ep t))) \<noteq>
           bit self (leaf_bit k (snd (insert_loop n now self k ep t))) \<or>
         leaf_bit k (snd (insert_loop n now self k ep t)) = 0"
  using assms
proof (induction n arbitrary: t)
  case 0
  then show ?case by simp
next
  case (Suc n)
  show ?case
  proof (cases t)
    case (Joint b c a zt ot)
    with Suc.IH [of zt] Suc.IH [of ot] Suc.prems show ?thesis
      by (simp add: into_child_result leaf_bit_into_child split: if_splits)
  next
    case (Leaf b c a kb)
    with Suc.prems show ?thesis
      using Suc.IH by (auto simp: split_eq into_child_result leaf_bit_into_child
          word_gt_0 split: option.splits if_splits)
  qed
qed

text \<open>A leaf at bit 0 holds at most two keys, so the lower limit of the splitting is never met.\<close>

lemma bucket_agrees:
  assumes "wf_tree i t" and "agree_above i t" and "p \<in> set (bucket_of k t)" "q \<in> set (bucket_of k t)"
    and "leaf_bit k t < j"
  shows "bit (pkey p) j = bit (pkey q) j"
  using assms
proof (induction t arbitrary: i)
  case (Leaf b c a kb)
  then have "i < j" by simp
  with Leaf.prems(2-4) show ?case
    unfolding agree_above_def tree_peers.simps bucket_of.simps by blast
next
  case (Joint b c a zt ot)
  have b: "unat b = i" and wf: "wf_tree (i - 1) zt" "wf_tree (i - 1) ot"
    using Joint.prems(1) by auto
  note agree = agree_above_children [OF Joint.prems(1,2)]
  show ?case
  proof (cases "bit k i")
    case True
    with Joint.prems(3-5) b show ?thesis by (intro Joint.IH(2) [OF wf(2) agree(2)]) simp_all
  next
    case False
    with Joint.prems(3-5) b show ?thesis by (intro Joint.IH(1) [OF wf(1) agree(1)]) simp_all
  qed
qed

lemma bucket_at_bit_0:
  assumes "wf_tree i t" and "agree_above i t" and "leaf_bit k t = 0"
  shows "length (bucket_of k t) \<le> 2"
proof -
  let ?kb = "bucket_of k t"
  have "inj_on (\<lambda>x. bit x 0) (pkey ` set ?kb)"
  proof (rule inj_onI)
    fix x y
    assume "x \<in> pkey ` set ?kb" and "y \<in> pkey ` set ?kb" and "bit x 0 = bit y 0"
    then show "x = y"
      using bucket_agrees [OF assms(1,2)] assms(3)
      by (auto intro!: bit_eqI) (metis gr0I)+
  qed
  then have "card (pkey ` set ?kb) \<le> card (UNIV :: bool set)"
    by (rule card_inj_on_le) auto
  moreover have "card (set (map pkey ?kb)) = length ?kb"
    using wf_bucket [OF assms(1), of k] distinct_card [of "map pkey ?kb"] by simp
  ultimately show ?thesis by (simp add: card_UNIV_bool)
qed

section \<open>Insertion and eviction\<close>

text \<open>C15: attempt_insert_peer refines the update of the map of contacts: a peer it reports
  as inserted is the contact of its key from then on, a refused peer and the node itself
  leave the contacts as they were, and the table stays well formed.
\<close>

theorem attempt_insert_refines:
  assumes "wf_router r" and "attempt_insert_peer now k ep r = ((ok, lru), r')"
  shows "wf_router r' \<and> self_peer r' = self_peer r \<and>
    contacts r' = (if ok \<and> k \<noteq> pkey (self_peer r) \<and> ep \<noteq> endpoint (self_peer r)
                   then (contacts r)(k \<mapsto> ep) else contacts r)"
proof -
  have "wf_router r' \<and> self_peer r' = self_peer r"
    using router.inv_insert [OF assms(1), of now k ep] router.self_insert [of now k ep r] assms(2)
    by simp
  moreover have "contacts r' = (contacts r)(k \<mapsto> ep)"
    if "ok" "k \<noteq> pkey (self_peer r)" "ep \<noteq> endpoint (self_peer r)"
    using router.insert_ok [OF assms(1)] assms(2) that by simp
  moreover have "contacts r' = contacts r" if "k = pkey (self_peer r) \<or> ep = endpoint (self_peer r)"
    using router.insert_self [OF that, of now] assms(2) by simp
  moreover have "contacts r' = contacts r" if "\<not> ok"
    using router.insert_full [OF assms(1), of now k ep lru r'] assms(2) that by auto
  ultimately show ?thesis by auto
qed

text \<open>A refused insertion always writes the buffer: the peer returned is the last one of
  a full kbucket that the key leads to, the key is not in the table, and the leaf could
  not be split because the key and the own key differ in its bit.\<close>

theorem attempt_insert_refusal:
  assumes "wf_router r" and "attempt_insert_peer now k ep r = ((False, lru), r')"
  shows "lru = Some (last (bucket_of k (table r'))) \<and> length (bucket_of k (table r')) = 20 \<and>
    contacts r k = None \<and>
    bit k (leaf_bit k (table r')) \<noteq> bit (pkey (self_peer r)) (leaf_bit k (table r'))"
proof -
  have not_self: "k \<noteq> pkey (self_peer r)" "ep \<noteq> endpoint (self_peer r)"
    using router.full_not_self [OF assms] .
  obtain res t where t: "insert_loop 160 now (pkey (self_peer r)) k ep (table r) = (res, t)"
      "attempt_insert_peer now k ep r = (insert_verdict res, r\<lparr>table := t\<rparr>)"
      "wf_tree 159 t" "insert_spec k ep (table r) (res, t)"
    using attempt_insert_loop [OF assms(1) not_self] .
  then obtain p where p: "res = Bucket_Full p" "r' = r\<lparr>table := t\<rparr>"
    using assms(2) by (cases res) (auto simp: insert_spec_def)
  have full: "length (bucket_of k t) = 20" using t(4) p by (simp add: insert_spec_def)
  then have "leaf_bit k t \<noteq> 0"
    using bucket_at_bit_0 [OF t(3) agree_above_root, of k] by auto
  with refusal_bit [of 160 now "pkey (self_peer r)" k ep "table r"] t(1) p
  have "bit k (leaf_bit k t) \<noteq> bit (pkey (self_peer r)) (leaf_bit k t)" by simp
  moreover have "lru = Some (last (bucket_of k t)) \<and> contacts r k = None"
    using t p assms(2) by (auto simp: insert_spec_def contacts_None)
  ultimately show ?thesis using full p by simp
qed

text \<open>The kbuckets are least-recently-used lists: a peer that is inserted or refreshed
  moves to the front of the kbucket its key leads to, and the peers behind it keep the
  order they had.\<close>

theorem attempt_insert_lru_order:
  assumes "attempt_insert_peer now k ep r = ((True, lru), r')"
    and "k \<noteq> pkey (self_peer r)" and "ep \<noteq> endpoint (self_peer r)"
  shows "\<exists>rest. bucket_of k (table r') = \<lparr>pkey = k, endpoint = ep\<rparr> # rest \<and>
    subseq rest (bucket_of k (table r))"
proof -
  obtain res t where ins: "insert_loop 160 now (pkey (self_peer r)) k ep (table r) = (res, t)"
    by fastforce
  with assms have "res = Inserted \<or> res = Refreshed" and "r' = r\<lparr>table := t\<rparr>"
    by (cases res; simp add: attempt_insert_peer_def)+
  with insert_loop_front [of 160 now "pkey (self_peer r)" k ep "table r"] ins show ?thesis by simp
qed

text \<open>C16: evict_peer refines the removal of a key from the map of contacts.\<close>

theorem evict_refines:
  assumes "wf_router r"
  shows "wf_router (evict_peer k r) \<and> self_peer (evict_peer k r) = self_peer r \<and>
    contacts (evict_peer k r) = (contacts r)(k := None)"
  using router.inv_evict [OF assms] router.evict_contacts [OF assms] router.self_evict by simp

text \<open>When an insertion is refused, evicting the peer it returned makes the same insertion
  succeed: the new peer takes the place of the evicted one in the contacts.\<close>

theorem evict_then_insert:
  assumes "wf_router r" and "attempt_insert_peer now k ep r = ((False, Some p), r')"
  shows "\<exists>lru' u. attempt_insert_peer now' k ep (evict_peer (pkey p) r') = ((True, lru'), u) \<and>
    wf_router u \<and> contacts u = (contacts r)(pkey p := None, k \<mapsto> ep)"
  using router.replace_lru [OF assms] by blast

section \<open>Construction and reachable routers\<close>

lemma wf_empty: "wf_router \<lparr>self_peer = sp, table = new_tree now 159\<rparr>"
  by (simp add: wf_router_def new_tree_def tree_keys_def)

lemma contacts_empty: "contacts \<lparr>self_peer = sp, table = new_tree now 159\<rparr> = Map.empty"
  by (simp add: contacts_def new_tree_def)

lemma insert_into_empty:
  "fst (fst (attempt_insert_peer now k ep \<lparr>self_peer = sp, table = new_tree now 159\<rparr>))"
  by (simp add: attempt_insert_peer_def new_tree_def numeral_eq_Suc)

lemma new_router_wf: "wf_router (new_router now sk se k ep)"
  unfolding new_router_def by (rule insert_wf) (rule wf_empty)

text \<open>The constructor's insertion never fails, so the null buffer it passes is never
  written, and the new router has the initial peer as its only contact, or none when
  that peer has the key or the endpoint of the node itself.\<close>

theorem new_router_contacts:
  "fst (attempt_insert_peer now k ep \<lparr>self_peer = \<lparr>pkey = sk, endpoint = se\<rparr>, table = new_tree now 159\<rparr>)
     = (True, None) \<and>
   wf_router (new_router now sk se k ep) \<and> self_peer (new_router now sk se k ep) = \<lparr>pkey = sk, endpoint = se\<rparr> \<and>
   contacts (new_router now sk se k ep) = (if k = sk \<or> ep = se then Map.empty else [k \<mapsto> ep])"
proof -
  let ?r = "\<lparr>self_peer = \<lparr>pkey = sk, endpoint = se\<rparr>, table = new_tree now 159\<rparr>"
  have ok: "attempt_insert_peer now k ep ?r = ((True, None), new_router now sk se k ep)"
    by (simp add: new_router_def attempt_insert_peer_def new_tree_def numeral_eq_Suc)
  then have "contacts (new_router now sk se k ep) = (contacts ?r)(k \<mapsto> ep)" if "k \<noteq> sk" "ep \<noteq> se"
    using insert_contacts [OF wf_empty ok] that by simp
  moreover have "new_router now sk se k ep = ?r" if "k = sk \<or> ep = se"
    using that by (auto simp: new_router_def attempt_insert_peer_def)
  moreover have "self_peer (new_router now sk se k ep) = self_peer ?r"
    unfolding new_router_def by (rule insert_self)
  ultimately show ?thesis
    using ok by (auto simp: contacts_empty new_router_wf)
qed

text \<open>The states of a router under any sequence of its operations.\<close>

inductive router_reachable :: "router \<Rightarrow> bool" where
  construct: "router_reachable (new_router now sk se k ep)"
| insert: "router_reachable r \<Longrightarrow> router_reachable (snd (attempt_insert_peer now k ep r))"
| evict: "router_reachable r \<Longrightarrow> router_reachable (evict_peer k r)"
| closest: "router_reachable r \<Longrightarrow> router_reachable (snd (closest_peers now s n r))"
| get: "router_reachable r \<Longrightarrow> router_reachable (snd (get_peer now s r))"

lemma router_reachable_wf: "router_reachable r \<Longrightarrow> wf_router r"
proof (induction rule: router_reachable.induct)
  case (get r now s)
  then show ?case
    using closest_wf [of r now s 1] by (auto simp: get_peer_def split: prod.splits)
qed (simp_all add: new_router_wf insert_wf evict_wf closest_wf)

lemma wf_router_counts:
  assumes "wf_router r"
  shows "key_count (table r) = of_nat (length (all_peers r))"
    and "distinct (map pkey (all_peers r))"
    and "dom (contacts r) = pkey ` set (all_peers r)"
  using assms wf_tree_key_count [of 159 "table r"] wf_tree_distinct [of 159 "table r"]
  by (auto simp: wf_router_def all_peers_def tree_all_peers_eq contacts_def dom_map_of_conv_image_fst image_image)

text \<open>C17: In every reachable router the peers have pairwise distinct keys, none of them has the
  key or the endpoint of the node itself, all_peers lists exactly the contacts, every
  kbucket holds at most 20 peers, and the key count of the root is the number of
  contacts modulo 2^32, the wrap-around of its unsigned type.
\<close>

theorem router_invariant:
  assumes "router_reachable r"
  shows "distinct (map pkey (all_peers r)) \<and> dom (contacts r) = pkey ` set (all_peers r) \<and>
    (\<forall>p\<in>set (all_peers r). pkey p \<noteq> pkey (self_peer r) \<and> endpoint p \<noteq> endpoint (self_peer r)) \<and>
    (\<forall>k. length (bucket_of k (table r)) \<le> 20) \<and>
    unat (key_count (table r)) = card (dom (contacts r)) mod 2 ^ 32"
proof -
  have wf: "wf_router r" using assms by (rule router_reachable_wf)
  have "card (dom (contacts r)) = length (all_peers r)"
    using wf_router_counts [OF wf] distinct_card [of "map pkey (all_peers r)"] by simp
  then have "unat (key_count (table r)) = card (dom (contacts r)) mod 2 ^ 32"
    using wf_router_counts(1) [OF wf] by (simp add: unat_of_nat)
  moreover have "\<forall>p\<in>set (all_peers r). pkey p \<noteq> pkey (self_peer r) \<and> endpoint p \<noteq> endpoint (self_peer r)"
    using wf by (auto simp: wf_router_def all_peers_def tree_all_peers_eq tree_keys_notin)
  ultimately show ?thesis
    using wf_router_counts(2,3) [OF wf] wf_bucket [of 159 "table r"] wf by (auto simp: wf_router_def)
qed

section \<open>Queries\<close>

text \<open>closest_peers returns only contacts of the router, each once, never the node itself,
  and changes neither the contacts nor the well-formedness of the table.\<close>

theorem closest_peers_sound:
  assumes "wf_router r" and "closest_peers now s n r = (ps, r')"
  shows "distinct (map pkey ps) \<and>
    (\<forall>p\<in>set ps. contacts r (pkey p) = Some (endpoint p) \<and> pkey p \<noteq> pkey (self_peer r)) \<and>
    wf_router r' \<and> contacts r' = contacts r \<and> self_peer r' = self_peer r"
  using router.closest_distinct [OF assms(1), of now s n] router.closest_known [OF assms(1), of _ now s n]
    router.closest_not_self(1) [OF assms(1), of _ now s n] router.inv_closest [OF assms(1), of now s n]
    router.contacts_closest [of now s n r] router.self_closest [of now s n r] assms(2)
  by simp

lemma nearest_known:
  assumes "wf_router r" and "bucket_of s (table r) \<noteq> []"
  shows "\<exists>p\<in>set (closest_list s 20 (table r)). \<forall>k\<in>dom (contacts r). dist_between s (pkey p) \<le> dist_between s k"
proof -
  let ?kb = "bucket_of s (table r)" and ?d = "\<lambda>p. dist_between s (pkey p)"
  have wf: "wf_tree 159 (table r)" using assms(1) by (simp add: wf_router_def)
  obtain rest where rest: "closest_list s 20 (table r) = ?kb @ rest"
    using closest_list_bucket [OF wf, of 20 s] by auto
  have "Min (?d ` set ?kb) \<in> ?d ` set ?kb"
    using assms(2) by (intro Min_in) auto
  then obtain p where p: "p \<in> set ?kb" and least: "?d p = Min (?d ` set ?kb)" by auto
  have "?d p \<le> dist_between s k" if "k \<in> dom (contacts r)" for k
  proof -
    from that obtain q where q: "q \<in> set (tree_peers (table r))" "pkey q = k"
      using wf_router_counts(3) [OF assms(1)] by (auto simp: all_peers_def tree_all_peers_eq)
    show ?thesis
    proof (cases "q \<in> set ?kb")
      case True
      with least q(2) show ?thesis by (auto intro: Min_le)
    next
      case False
      with bucket_closer [OF wf agree_above_root p q(1)] q(2) show ?thesis by auto
    qed
  qed
  with p rest show ?thesis by auto
qed

text \<open>C24: With the n = KBUCKET_MAX the session uses, closest_peers returns the whole kbucket of
  the search key first, and when that kbucket is not empty some peer returned is at least
  as close to the search key as every contact of the router; in particular a contact with
  the search key itself is always returned.
\<close>

theorem closest_peers_nearest:
  assumes "wf_router r" and "closest_peers now s 20 r = (ps, r')"
    and "bucket_of s (table r) \<noteq> []"
  shows "prefix (bucket_of s (table r)) ps \<and>
    (\<exists>p\<in>set ps. \<forall>k\<in>dom (contacts r). dist_between s (pkey p) \<le> dist_between s k)"
proof -
  have "prefix (bucket_of s (table r)) ps"
    using assms(1,2) closest_list_bucket [of 159 "table r" 20 s "\<exists>rest. closest_list s 20 (table r) = bucket_of s (table r) @ rest"]
    by (auto simp: closest_peers_eq wf_router_def prefix_def)
  with nearest_known [OF assms(1,3)] assms(2) show ?thesis by (simp add: closest_peers_eq)
qed

text \<open>C27: When the half of the table on the side of the search key holds at most n peers, the
  other half is never asked, whatever it holds: closest_peers returns peers of the near
  half only, so it can return fewer than n peers of a router that has more, and none at
  all of a router that has some.
\<close>

theorem closest_peers_shortfall:
  assumes "wf_router r" and "table r = Joint b c a zt ot"
    and "near = (if bit s 159 then ot else zt)" and "length (tree_peers near) \<le> unat n"
  shows "set (fst (closest_peers now s n r)) \<subseteq> set (tree_peers near) \<and>
    (tree_peers near = [] \<longrightarrow> fst (closest_peers now s n r) = [])"
proof -
  have "wf_tree 159 (Joint b c a zt ot)" using assms(1,2) by (simp add: wf_router_def)
  from closest_list_near_only [OF this assms(3,4)]
  have "fst (closest_peers now s n r) = closest_list s n near"
    using assms(2) by (simp add: closest_peers_eq)
  with closest_list_subset [of s n near] show ?thesis by auto
qed

text \<open>get_peer returns the front peer of the kbucket its key leads to, or NULL: a contact
  that is not at the front of a nonempty kbucket is not found.\<close>

theorem get_peer_front_only:
  assumes "wf_router r" and "bucket_of s (table r) = p # ps"
  shows "fst (get_peer now s r) = (if pkey p = s then Some p else None)"
proof -
  have "wf_tree 159 (table r)" using assms(1) by (simp add: wf_router_def)
  then obtain rest where "closest_list s 1 (table r) = take (unat (1 :: uint)) (bucket_of s (table r)) @ rest"
    using closest_list_prefix by blast
  with assms(2) show ?thesis by (simp add: get_peer_def closest_peers_eq)
qed

text \<open>As long as less than the given time passes between two successive readings of the
  clock, random_per_bucket_peers selects no peer at all, however long ago the kbuckets
  were accessed: it overwrites the access time before it computes the age.\<close>

theorem refresh_selects_nothing:
  assumes "\<And>i. clock (Suc i) - clock i < unaccessed * ticks_per_second" and "0 < unaccessed"
  shows "\<exists>r'. random_per_bucket_peers clock rand unaccessed r = Inr ([], r') \<and> contacts r' = contacts r"
proof -
  have "to_seconds (clock (Suc i) - clock i) < unaccessed" for i
    by (rule to_seconds_less) (rule assms)+
  from sampling_recent [of clock unaccessed, OF this, of rand "table r"
      "\<lparr>clock_reads = 0, rand_calls = 0, sampled = []\<rparr>"]
  show ?thesis
    by (auto simp: random_per_bucket_peers_def contacts_def same_but_access_peers)
qed

text \<open>With the zero age of self_lookup, random_per_bucket_peers divides by zero as soon as
  one kbucket is empty; otherwise it returns one peer of each kbucket.\<close>

theorem sampling_all_buckets:
  assumes "\<And>i. clock i \<le> clock (Suc i)"
  shows "if [] \<in> set (tree_buckets (table r))
    then random_per_bucket_peers clock rand 0 r = Inl Division_By_Zero
    else \<exists>ps r'. random_per_bucket_peers clock rand 0 r = Inr (ps, r') \<and> contacts r' = contacts r \<and>
      list_all2 (\<lambda>p kb. p \<in> set kb) ps (tree_buckets (table r))"
  using sampling_all [of clock, OF assms, where t = "table r" and rand = rand
      and st = "\<lparr>clock_reads = 0, rand_calls = 0, sampled = []\<rparr>"]
  by (auto simp: random_per_bucket_peers_def contacts_def same_but_access_peers split: if_splits)

section \<open>Examples\<close>

theorem attempt_insert_refines_witness:
  "contacts \<lparr>self_peer = sample_self, table = Leaf 159 1 5 [\<lparr>pkey = far_key, endpoint = ''c:1''\<rparr>]\<rparr> =
     (contacts empty_router)(far_key \<mapsto> ''c:1'')"
  using attempt_insert_refines [OF wf_empty_router empty_router_inserts [of 5]]
  by (simp add: empty_router_def sample_self_def)

theorem attempt_insert_refusal_witness:
  "length (bucket_of far_key (table full_router)) = 20 \<and> contacts full_router far_key = None"
  using attempt_insert_refusal [OF wf_full_router full_router_refuses [of 5]] by blast

theorem attempt_insert_lru_order_witness:
  "\<exists>rest. bucket_of far_key (Leaf 159 1 5 [\<lparr>pkey = far_key, endpoint = ''c:1''\<rparr>]) =
     \<lparr>pkey = far_key, endpoint = ''c:1''\<rparr> # rest \<and> subseq rest (bucket_of far_key (table empty_router))"
  using attempt_insert_lru_order [OF empty_router_inserts [of 5]]
  by (simp add: empty_router_def sample_self_def)

theorem evict_refines_witness:
  "contacts (evict_peer 7 full_router) = (contacts full_router)(7 := None)"
  using evict_refines [OF wf_full_router] by blast

theorem evict_then_insert_witness:
  "\<exists>lru' u. attempt_insert_peer 6 far_key ''c:1'' (evict_peer 20 full_router) = ((True, lru'), u) \<and>
     wf_router u \<and> contacts u = (contacts full_router)(20 := None, far_key \<mapsto> ''c:1'')"
  using evict_then_insert [OF wf_full_router full_router_refuses [of 5], of 6]
  by (simp add: sample_peer_def)

theorem router_invariant_witness:
  "distinct (map pkey (all_peers (evict_peer 3 (new_router 0 0 ''a:1'' far_key ''b:1''))))"
  using router_invariant [OF router_reachable.evict [OF router_reachable.construct [of 0 0 "''a:1''" far_key "''b:1''"], of 3]]
  by blast

theorem closest_peers_sound_witness:
  "distinct (map pkey (fst (closest_peers 5 3 20 full_router)))"
  using closest_peers_sound [OF wf_full_router, of 5 3 20 "fst (closest_peers 5 3 20 full_router)"
      "snd (closest_peers 5 3 20 full_router)"] by simp

theorem closest_peers_nearest_witness:
  "\<exists>p\<in>set (fst (closest_peers 5 far_key 20 half_router)).
     \<forall>k\<in>dom (contacts half_router). dist_between far_key (pkey p) \<le> dist_between far_key k"
  using closest_peers_nearest [OF wf_half_router, of 5 far_key "fst (closest_peers 5 far_key 20 half_router)"
      "snd (closest_peers 5 far_key 20 half_router)"]
  by (simp add: half_router_def)

theorem closest_peers_shortfall_witness:
  "fst (closest_peers 5 1 20 half_router) = [] \<and> contacts half_router \<noteq> Map.empty"
  using closest_peers_shortfall [OF wf_half_router, of 159 1 0 "Leaf 158 0 0 []" _ "Leaf 158 0 0 []" 1 20 5]
  by (auto simp: half_router_def contacts_def bit_1_iff)

lemma full_router_bucket: "bucket_of k (table full_router) = sample_peer 1 # map sample_peer [2..<21]"
  by (simp add: full_router_def upt_rec [of "Suc 0"] numeral_2_eq_2 del: upt_rec_numeral)

theorem get_peer_front_only_witness:
  "fst (get_peer 5 (of_nat 1) full_router) = Some (sample_peer 1) \<and> fst (get_peer 5 (of_nat 2) full_router) = None"
  using get_peer_front_only [OF wf_full_router full_router_bucket] sample_key_inj [of 1 2]
  by (auto simp: sample_peer_def)

theorem refresh_selects_nothing_witness:
  "\<exists>r'. random_per_bucket_peers (\<lambda>i. int i) (\<lambda>_. 0) 3600 full_router = Inr ([], r') \<and>
     contacts r' = contacts full_router"
  using refresh_selects_nothing [of "\<lambda>i. int i" 3600 "\<lambda>_. 0" full_router]
  by (simp add: ticks_per_second_def)

theorem sampling_all_buckets_witness:
  "random_per_bucket_peers (\<lambda>i. int i) (\<lambda>_. 0) 0 half_router = Inl Division_By_Zero"
  using sampling_all_buckets [of "\<lambda>i. int i" half_router "\<lambda>_. 0"]
  by (simp add: half_router_def)

end
