(* ===== verification/Rpc_Properties.thy ===== *)
theory Rpc_Properties
  imports Handlers Router_Properties
begin

text \<open>
  The properties of the remote procedure calls: the update of the router and its
  least-recently-used policy, the callers, and the handlers.
\<close>

section \<open>The update of the router\<close>

text \<open>C18: The while loop of update_peer ends within two rounds whatever the peers answer: more
  rounds change nothing, and it never diverges, deadlocks or uses an unset pointer; it
  fails only when a ping is answered with a malformed key.
\<close>

theorem update_peer_terminates:
  assumes "session_ok s"
  shows "update_peer_loop (Suc (Suc n)) E k ep s = update_peer E k ep s \<and>
    (case update_peer E k ep s of Inl e \<Rightarrow> e = Invalid_Argument | Inr (_, t) \<Rightarrow> keeps s t)"
  using update_peer_rounds [OF assms] update_peer_safe [OF assms, of E k ep]
  by (auto simp: safe_from_def split: sum.splits)

text \<open>
  After \<open>update_peer\<close> the peer is a contact, unless it is the node itself or its kbucket is
  full and the least recently used peer of it is alive; then the contacts are as before.
  At most one other contact is lost, and only while \<open>dead_peers\<close> is incremented.
\<close>

lemma update_peer_contacts:
  assumes "session_ok s" and "update_peer E k ep s = Inr (x, t)"
  shows "contacts (router_of t) = contacts (router_of s) \<and> dead_peers t = dead_peers s \<or>
    contacts (router_of t) = (contacts (router_of s))(k \<mapsto> ep) \<and> dead_peers t = dead_peers s \<or>
    (\<exists>old. contacts (router_of s) old \<noteq> None \<and> dead_peers t = dead_peers s + 1 \<and>
       contacts (router_of t) = (contacts (router_of s))(old := None, k \<mapsto> ep))"
proof -
  have wf: "wf_router (router_of s)" using assms(1) by (simp add: session_ok_def)
  have two: "update_peer E k ep s = update_peer_loop (Suc (Suc 0)) E k ep s"
    by (simp add: update_peer_def numeral_2_eq_2)
  show ?thesis
  proof (rule update_peer_cases [OF assms(1), of E k ep])
    fix lru r
    assume "attempt_insert_peer (now_at E (world s)) k ep (router_of s) = ((True, lru), r)"
      and "\<And>n. update_peer_loop (Suc (Suc n)) E k ep s = Inr ((), s\<lparr>router_of := r\<rparr>)"
    with assms(2) two router.insert_ok [OF wf] router.insert_self
    show ?thesis by (cases "k = pkey (self_peer (router_of s)) \<or> ep = endpoint (self_peer (router_of s))") auto
  next
    fix lru r reply t' u
    assume ref: "attempt_insert_peer (now_at E (world s)) k ep (router_of s) = ((False, Some lru), r)"
      and ping: "ping E lru (s\<lparr>router_of := r\<rparr>) = Inr (reply, t')"
      and "\<And>n. update_peer_loop (Suc (Suc n)) E k ep s = Inr ((), (retry_state lru t')\<lparr>router_of := u\<rparr>)"
      and "contacts u = (contacts (router_of s))(pkey lru := None, k \<mapsto> ep)"
    moreover have "dead_peers t' = dead_peers s"
      using ping by (auto simp: ping_def Let_def split: prod.splits option.splits)
    ultimately show ?thesis
      using assms(2) two router.insert_full [OF wf ref] by (auto simp: retry_state_def)
  qed (use assms(2) two in auto)
qed


section \<open>Callers\<close>

text \<open>A call that gets no answer evicts the peer it went to and reports the failure: ping,
  find_node, find_value and the first call of store leave the contacts without it.\<close>

theorem failed_call_evicts:
  assumes "session_ok s"
    and "\<And>rq w. fst (rpc_ping E (endpoint p) rq w) = None"
    and "\<And>rq w. fst (rpc_find_node E (endpoint p) rq w) = None"
    and "\<And>rq w. fst (rpc_find_value E (endpoint p) rq w) = None"
    and "\<And>rq w. fst (rpc_store_init E (endpoint p) rq w) = None"
  shows "\<exists>t1 t2 t3 t4. ping E p s = Inr (None, t1) \<and> find_node E p k buffer s = Inr ((False, buffer), t2) \<and>
    find_value E p k buffer s = Inr ((False, buffer, None), t3) \<and> store E p c force s = Inr (False, t4) \<and>
    (\<forall>t\<in>{t1, t2, t3, t4}. contacts (router_of t) = (contacts (router_of s))(pkey p := None))"
proof -
  have evicted: "contacts (router_of (s\<lparr>world := w, router_of := evict_peer (pkey p) (router_of s)\<rparr>))
      = (contacts (router_of s))(pkey p := None)" for w
    using assms(1) router.evict_contacts by (simp add: session_ok_def)
  have none: "\<exists>w'. f = (None, w')" if "fst f = None" for f :: "'x option \<times> 'a"
    using that by (cases f) auto
  obtain w1 where 1: "rpc_ping E (endpoint p) \<lparr>pg_sender = rpc_caller_prelims s\<rparr> (world s) = (None, w1)"
    using none [OF assms(2)] by blast
  obtain w2 where 2: "rpc_find_node E (endpoint p)
      \<lparr>fn_sender = rpc_caller_prelims s, fn_search_key = bitset_to_string k\<rparr> (world s) = (None, w2)"
    using none [OF assms(3)] by blast
  obtain w3 where 3: "rpc_find_value E (endpoint p)
      \<lparr>fv_sender = rpc_caller_prelims s, fv_search_key = bitset_to_string k\<rparr> (world s) = (None, w3)"
    using none [OF assms(4)] by blast
  obtain w4 where 4: "rpc_store_init E (endpoint p)
      \<lparr>si_sender = rpc_caller_prelims s, si_chunk_key = bitset_to_string (chunk_key c)\<rparr> (world s) = (None, w4)"
    using none [OF assms(5)] by blast
  show ?thesis
    using 1 2 3 4 evicted by (simp add: ping_def find_node_def find_value_def store_def)
qed

text \<open>The peers a find_node or an unsuccessful find_value adds to the buffer are appended to
  what it held, none of them has the key or the endpoint of the node itself, and the
  buffer is unchanged when the call fails or finds a value.\<close>

theorem caller_buffers:
  assumes "session_ok s"
  shows "(find_node E p k buffer s = Inr ((ok, buffer'), t) \<longrightarrow>
      keeps s t \<and> (\<exists>new. buffer' = buffer @ new \<and> (\<forall>q\<in>set new. foreign s q) \<and> (\<not> ok \<longrightarrow> new = []))) \<and>
    (find_value E p k buffer s = Inr ((ok, buffer', data), t) \<longrightarrow>
      keeps s t \<and> (data \<noteq> None \<longrightarrow> ok) \<and>
      (\<exists>new. buffer' = buffer @ new \<and> (\<forall>q\<in>set new. foreign s q) \<and> (\<not> ok \<or> data \<noteq> None \<longrightarrow> new = [])))"
proof (intro conjI impI)
  assume r: "find_node E p k buffer s = Inr ((ok, buffer'), t)"
  show "keeps s t" by (rule safe_fromD [OF find_node_safe [OF assms] r])
  from find_node_result [OF assms r]
  show "\<exists>new. buffer' = buffer @ new \<and> (\<forall>q\<in>set new. foreign s q) \<and> (\<not> ok \<longrightarrow> new = [])"
    by (cases ok) auto
next
  assume r: "find_value E p k buffer s = Inr ((ok, buffer', data), t)"
  show "keeps s t" by (rule safe_fromD [OF find_value_safe [OF assms] r])
  from find_value_result [OF assms r]
  show "\<exists>new. buffer' = buffer @ new \<and> (\<forall>q\<in>set new. foreign s q) \<and> (\<not> ok \<or> data \<noteq> None \<longrightarrow> new = [])"
    by (cases "ok \<and> data = None") auto
  assume "data \<noteq> None"
  with find_value_result [OF assms r] show ok by auto
qed

lemma sint_of_size:
  assumes "n < 2 ^ 32"
  shows "sint (of_nat n :: 32 word) = (if n < 2 ^ 31 then int n else int n - 2 ^ 32)"
proof -
  have "sint (of_nat n :: 32 word) = signed_take_bit 31 (int n)"
    by (subst signed_of_nat) simp
  also have "\<dots> = (int n + 2 ^ 31) mod 2 ^ 32 - 2 ^ 31"
    unfolding signed_take_bit_eq_take_bit_shift take_bit_eq_mod by simp
  also have "\<dots> = (if n < 2 ^ 31 then int n else int n - 2 ^ 32)"
    using assms by (simp add: mod_pos_geq)
  finally show ?thesis .
qed

lemma size_of_int32_eq: "size_of_int32 w = nat (sint w mod 2 ^ 64)"
proof -
  have "uint (scast w :: 64 word) = sint w mod 2 ^ 64"
    by transfer (simp add: take_bit_eq_mod)
  then show ?thesis by (simp add: size_of_int32_def flip: nat_uint_eq)
qed

lemma copy_bytes_size:
  assumes "length data < 2 ^ 32"
  shows "copy_bytes data (of_nat (length data)) =
    (if length data < 2 ^ 31 then Inr data else Inl Out_Of_Bounds)"
proof -
  let ?n = "int (length data)"
  note sint = sint_of_size [OF assms] and sz = size_of_int32_eq [of "of_nat (length data)"]
  show ?thesis
  proof (cases "length data < 2 ^ 31")
    case True
    with sint have "size_of_int32 (of_nat (length data)) = length data" by (simp add: sz)
    with True show ?thesis by (simp add: copy_bytes_def)
  next
    case False
    then have "sint (of_nat (length data) :: 32 word) = ?n - 2 ^ 32" using sint by simp
    moreover have "(?n - 2 ^ 32 + 2 ^ 64) mod 2 ^ 64 = ?n - 2 ^ 32 + 2 ^ 64"
      by (rule mod_pos_pos_trivial) (use assms in simp_all)
    then have "(?n - 2 ^ 32) mod 2 ^ 64 = ?n - 2 ^ 32 + 2 ^ 64" by (simp only: mod_add_self2)
    ultimately have "length data < size_of_int32 (of_nat (length data))"
      using assms by (simp add: sz)
    with False show ?thesis by (simp add: copy_bytes_def)
  qed
qed

text \<open>Peers survive the way through a message: every peer is read back from its own message
  form, and a message peer whose key text has the length of a key, and is read at all, is
  the message form of the peer it is read as.\<close>

theorem peer_message_roundtrip:
  "rpc_peer_to_local (local_to_rpc_peer p) = Inr p \<and>
   (rpc_peer_to_local rp = Inr q \<and> length (rpc_key rp) = 160 \<longrightarrow> local_to_rpc_peer q = rp)"
  using bitset_of_string_inverse [of "rpc_key rp" "pkey q"]
  by (cases rp) (auto simp: rpc_peer_to_local_def local_to_rpc_peer_def bitset_roundtrip)

theorem peer_message_roundtrip_witness:
  "local_to_rpc_peer \<lparr>pkey = 7, endpoint = ''a:1''\<rparr> =
     \<lparr>rpc_key = replicate 157 CHR ''0'' @ ''111'', rpc_endpoint = ''a:1''\<rparr>"
proof -
  have "bitset_of_string (replicate 157 CHR ''0'' @ ''111'') = Inr (7 :: key)" by code_simp
  then show ?thesis
    using peer_message_roundtrip [of _ "\<lparr>rpc_key = replicate 157 CHR ''0'' @ ''111'', rpc_endpoint = ''a:1''\<rparr>"
        "\<lparr>pkey = 7, endpoint = ''a:1''\<rparr>"]
    by (simp add: rpc_peer_to_local_def)
qed


section \<open>Handlers\<close>

text \<open>
  What every handler guarantees: it fails with the given errors only, leaves the session
  ready for the next request, and introduces the node itself as the receiver.
\<close>

definition handler_ok ::
  "cpp_error set \<Rightarrow> ('r \<Rightarrow> rpc_peer) \<Rightarrow> 'w session \<Rightarrow> ('w, 'r) outcome \<Rightarrow> bool" where
  "handler_ok errs receiver s m \<longleftrightarrow>
     (case m of
        Inl e \<Rightarrow> e \<in> errs
      | Inr (response, t) \<Rightarrow>
          session_ok t \<and> chunks_free t \<and> self_peer (router_of t) = self_peer (router_of s) \<and>
          rpc_peer_to_local (receiver response) = Inr (self_peer (router_of s)))"

lemma handler_okI:
  assumes "session_ok s" and "chunks_free s" and "Invalid_Argument \<in> errs"
    and "\<And>t. keeps s t \<Longrightarrow>
      handler_ok errs receiver s (f (local_to_rpc_peer (self_peer (router_of s)), t))"
  shows "handler_ok errs receiver s (and_then (rpc_handler_prelims E rp s) f)"
proof (cases "rpc_handler_prelims E rp s")
  case (Inl e)
  with safe_fromE [OF handler_prelims_safe [OF assms(1)] Inl] assms(3) show ?thesis
    by (simp add: handler_ok_def)
next
  case (Inr x)
  with handler_prelims_result [OF assms(1)] assms(4) show ?thesis by (cases x) auto
qed

lemma handler_ok_parse:
  fixes f :: "key \<Rightarrow> ('w, 'r) outcome"
  assumes "Invalid_Argument \<in> errs" and "\<And>k. handler_ok errs receiver s (f k)"
  shows "handler_ok errs receiver s (and_then (bitset_of_string str) f)"
  using assms by (cases "bitset_of_string str :: cpp_error + key") (auto simp: handler_ok_def dest: bitset_of_string_error)

lemma handler_ok_Inr:
  assumes "keeps s t" and "chunks_free s"
    and "rpc_peer_to_local (receiver response) = Inr (self_peer (router_of s))"
  shows "handler_ok errs receiver s (Inr (response, t))"
  using assms by (simp add: handler_ok_def keeps_def)


text \<open>The peers FindNode answers with are contacts of the node, each once, never the node
  itself; and since the sender is taken into the router first, the sender is found when
  it asks for its own key, unless its kbucket is full or it is the node itself.\<close>

theorem handle_find_node_answer:
  assumes "session_ok s" and "handle_find_node E rq s = Inr (response, t)"
  shows "\<exists>ps. fn_closest_peers response = map local_to_rpc_peer ps \<and> distinct (map pkey ps) \<and>
    (\<forall>p\<in>set ps. contacts (router_of t) (pkey p) = Some (endpoint p) \<and> foreign s p) \<and>
    (\<forall>sender. fn_search_key rq = rpc_key (fn_sender rq) \<longrightarrow> rpc_peer_to_local (fn_sender rq) = Inr sender \<longrightarrow>
       contacts (router_of t) (pkey sender) = Some (endpoint sender) \<longrightarrow> sender \<in> set ps)"
proof -
  obtain k u ps where u: "keeps s u" and k: "bitset_of_string (fn_search_key rq) = Inr k"
    and ps: "answer_closest E k u = (ps, t)" and response: "fn_closest_peers response = map local_to_rpc_peer ps"
    using assms by (rule handle_find_node_runs) simp
  have ok: "session_ok u" by (rule keeps_ok [OF u])
  note t = answer_closest_keeps [OF ok ps]
  have "distinct (map pkey ps)"
    using router.closest_distinct [of "router_of u" _ k 20] ok ps
    by (auto simp: answer_closest_def closest_peers_eq session_ok_def)
  moreover have "\<forall>p\<in>set ps. contacts (router_of t) (pkey p) = Some (endpoint p) \<and> foreign s p"
    using answer_closest_contacts [OF ok ps] by (simp add: t(2) foreign_keeps [OF u])
  moreover have "sender \<in> set ps"
    if "fn_search_key rq = rpc_key (fn_sender rq)" and "rpc_peer_to_local (fn_sender rq) = Inr sender"
      and c: "contacts (router_of t) (pkey sender) = Some (endpoint sender)" for sender
  proof -
    have eq: "k = pkey sender" using that k by (auto simp: rpc_peer_to_local_def)
    have wf: "wf_tree 159 (table (router_of u))" using ok by (simp add: session_ok_def wf_router_def)
    from c have "sender \<in> set (tree_peers (table (router_of u)))"
      by (simp add: t(2) contacts_iff [OF wf])
    then have "sender \<in> set (bucket_of k (table (router_of u)))" unfolding eq by (rule wf_peer_in_bucket [OF wf])
    moreover obtain rest where rest: "closest_list k 20 (table (router_of u)) = bucket_of k (table (router_of u)) @ rest"
      using closest_list_bucket [OF wf, of 20 k] by auto
    ultimately have "sender \<in> set (closest_list k 20 (table (router_of u)))" unfolding rest by simp
    then show ?thesis using ps by (simp add: answer_closest_def)
  qed
  ultimately show ?thesis using response by blast
qed

text \<open>StoreInit tells the sender to continue exactly when no chunk is stored under the key, and
  FindValue answers found exactly when one is, then with its data and its size; neither
  changes the chunks.\<close>

theorem handlers_report_presence:
  assumes "session_ok s" and "chunks_free s"
  shows "(handle_store_init E r1 s = Inr (a1, t1) \<longrightarrow> bitset_of_string (si_chunk_key r1) = Inr k \<longrightarrow>
      chunks t1 = chunks s \<and> (si_continue_store a1 \<longleftrightarrow> map_of (chunks s) k = None)) \<and>
    (handle_find_value E r2 s = Inr (a2, t2) \<longrightarrow> bitset_of_string (fv_search_key r2) = Inr k \<longrightarrow>
      chunks t2 = chunks s \<and> (fv_found_value a2 \<longleftrightarrow> map_of (chunks s) k \<noteq> None) \<and>
      (\<forall>c. map_of (chunks s) k = Some c \<longrightarrow>
         fv_data a2 = chunk_data c \<and> fv_size a2 = of_nat (length (chunk_data c))))"
proof (intro conjI impI)
  assume "handle_store_init E r1 s = Inr (a1, t1)" and "bitset_of_string (si_chunk_key r1) = Inr k"
  then show "chunks t1 = chunks s" and "si_continue_store a1 \<longleftrightarrow> map_of (chunks s) k = None"
    by (auto simp: handle_store_init_eq [OF assms] keeps_def dest!: handler_prelims_result(1) [OF assms(1)])
next
  assume r: "handle_find_value E r2 s = Inr (a2, t2)" and k: "bitset_of_string (fv_search_key r2) = Inr k"
  have "chunks t2 = chunks s \<and> (fv_found_value a2 \<longleftrightarrow> map_of (chunks s) k \<noteq> None) \<and>
      (\<forall>c. map_of (chunks s) k = Some c \<longrightarrow>
         fv_data a2 = chunk_data c \<and> fv_size a2 = of_nat (length (chunk_data c)))"
    using assms r by (rule handle_find_value_runs) (use k in \<open>auto simp: keeps_def\<close>)
  then show "chunks t2 = chunks s" and "fv_found_value a2 \<longleftrightarrow> map_of (chunks s) k \<noteq> None"
    and "\<forall>c. map_of (chunks s) k = Some c \<longrightarrow>
         fv_data a2 = chunk_data c \<and> fv_size a2 = of_nat (length (chunk_data c))" by blast+
qed

text \<open>C21: A chunk is found after it was stored: whatever Store accepted under a key is what a later
  FindValue for the key answers with, and Store changes the chunk of no other key.
\<close>

theorem store_then_find_value:
  assumes "session_ok s" and "chunks_free s"
    and "handle_store E rq s = Inr (a, t)" and "bitset_of_string (st_chunk_key rq) = Inr k"
    and "handle_find_value E' rq' t = Inr (a', u)" and "fv_search_key rq' = st_chunk_key rq"
  shows "fv_found_value a' \<and> fv_data a' = take (size_of_int32 (st_size rq)) (st_data rq) \<and>
    (\<forall>j. j \<noteq> k \<longrightarrow> map_of (chunks u) j = map_of (chunks s) j)"
proof -
  obtain v data where v: "keeps s v" and data: "copy_bytes (st_data rq) (st_size rq) = Inr data"
    and t: "t = v\<lparr>chunks := AList.update k (stored_chunk E rq k data v) (chunks v)\<rparr>"
    and ok: "session_ok t" "chunks_free t"
    using assms(1-3) by (rule handle_store_runs) (use assms(4) in auto)
  have "map_of (chunks t) = (map_of (chunks s))(k \<mapsto> stored_chunk E rq k data v)"
    using v by (simp add: keeps_def t update_conv')
  moreover have "chunks u = chunks t \<and> fv_found_value a' \<and>
      fv_data a' = data" if "map_of (chunks t) k = Some (stored_chunk E rq k data v)"
    using ok assms(5)
    by (rule handle_find_value_runs)
       (use assms(4,6) that in \<open>auto simp: keeps_def stored_chunk_def new_chunk_def\<close>)
  ultimately show ?thesis
    using data by (auto simp: copy_bytes_def split: if_splits)
qed

section \<open>Examples\<close>

text \<open>A session on a sample router, in a network where nobody answers.\<close>

definition silent_env :: "unit env" where
  "silent_env =
     \<lparr>rpc_ping = \<lambda>_ _ w. (None, w), rpc_find_node = \<lambda>_ _ w. (None, w), rpc_find_value = \<lambda>_ _ w. (None, w),
      rpc_store_init = \<lambda>_ _ w. (None, w), rpc_store = \<lambda>_ _ w. (None, w),
      now_at = \<lambda>_. 5, clock_at = \<lambda>_ i. int i, rand_at = \<lambda>_ _. 0\<rparr>"

lemma silent_env_simps [simp]:
  "rpc_ping silent_env ep r1 w = (None, w)" "rpc_find_node silent_env ep r2 w = (None, w)"
  "rpc_find_value silent_env ep r3 w = (None, w)" "rpc_store_init silent_env ep r4 w = (None, w)"
  "rpc_store silent_env ep r5 w = (None, w)" "now_at silent_env w = 5"
  "clock_at silent_env w i = int i" "rand_at silent_env w i = 0"
  by (simp_all add: silent_env_def)

definition sample_session :: "router \<Rightarrow> unit session" where
  "sample_session r =
     \<lparr>dying = False, router_of = r, router_locked = False, chunks = [], chunks_locked = False,
      dead_peers = 0, world = ()\<rparr>"

lemma sample_session_ok [simp]:
  "session_ok (sample_session r) = wf_router r" "chunks_free (sample_session r)"
  "router_of (sample_session r) = r" "chunks (sample_session r) = []"
  "dead_peers (sample_session r) = 0"
  by (simp_all add: session_ok_def sample_session_def)

lemma sample_routers_self [simp]:
  "self_peer empty_router = sample_self" "self_peer full_router = sample_self" "self_peer half_router = sample_self"
  by (simp_all add: empty_router_def full_router_def half_router_def)

text \<open>A request from the node itself leaves the session as it is.\<close>

lemma update_peer_own:
  assumes "session_ok s" and "p = self_peer (router_of s)"
  shows "update_peer E (pkey p) (endpoint p) s = Inr ((), s)"
proof -
  have "attempt_insert_peer (now_at E (world s)) (pkey p) (endpoint p) (router_of s)
      = ((True, None), router_of s)"
    using assms(2) by (simp add: router.insert_self)
  from update_peer_inserted [OF assms(1) this] show ?thesis
    by (simp add: update_peer_def numeral_2_eq_2)
qed

lemma own_prelims [simp]:
  assumes "session_ok s" and "self_peer (router_of s) = p"
  shows "rpc_handler_prelims E (local_to_rpc_peer p) s = Inr (local_to_rpc_peer p, s)"
  using update_peer_own [of s p E] assms by (simp add: rpc_handler_prelims_def get_self_peer_def)

theorem update_peer_terminates_witness:
  "update_peer_loop 7 silent_env far_key ''c:1'' (sample_session full_router) =
     update_peer silent_env far_key ''c:1'' (sample_session full_router)"
  using update_peer_terminates [of "sample_session full_router" 5 silent_env far_key "''c:1''"] by simp


theorem failed_call_evicts_witness:
  "\<exists>t. ping silent_env (sample_peer 7) (sample_session full_router) = Inr (None, t) \<and>
     contacts (router_of t) = (contacts full_router)(7 := None)"
  using failed_call_evicts [of "sample_session full_router" silent_env "sample_peer 7"
      1 "[]" "new_chunk 0 1 [] True 0" False]
  by (auto simp: sample_peer_def)

theorem caller_buffers_witness:
  "\<exists>t. find_node silent_env (sample_peer 7) 1 [sample_peer 3] (sample_session full_router)
       = Inr ((False, [sample_peer 3]), t) \<and> keeps (sample_session full_router) t"
proof -
  obtain t where run: "find_node silent_env (sample_peer 7) 1 [sample_peer 3] (sample_session full_router)
      = Inr ((False, [sample_peer 3]), t)"
    by (simp add: find_node_def silent_env_def)
  with caller_buffers [of "sample_session full_router" silent_env "sample_peer 7" 1 "[sample_peer 3]" False _ t]
  show ?thesis by auto
qed



theorem handle_find_node_answer_witness:
  "\<exists>response t ps. handle_find_node silent_env
       \<lparr>fn_sender = local_to_rpc_peer sample_self, fn_search_key = bitset_to_string far_key\<rparr>
       (sample_session half_router) = Inr (response, t) \<and>
     fn_closest_peers response = map local_to_rpc_peer ps \<and> distinct (map pkey ps)"
proof -
  let ?rq = "\<lparr>fn_sender = local_to_rpc_peer sample_self, fn_search_key = bitset_to_string far_key\<rparr>"
  obtain ps u where "answer_closest silent_env far_key (sample_session half_router) = (ps, u)" by fastforce
  then obtain response t where run: "handle_find_node silent_env ?rq (sample_session half_router) = Inr (response, t)"
    by (simp add: handle_find_node_eq bitset_roundtrip)
  from handle_find_node_answer [OF _ run] run show ?thesis by auto
qed

theorem handlers_report_presence_witness:
  "\<exists>response t. handle_store_init silent_env
       \<lparr>si_sender = local_to_rpc_peer sample_self, si_chunk_key = bitset_to_string far_key\<rparr>
       (sample_session empty_router) = Inr (response, t) \<and> si_continue_store response"
proof -
  let ?rq = "\<lparr>si_sender = local_to_rpc_peer sample_self, si_chunk_key = bitset_to_string far_key\<rparr>"
  obtain response t where run: "handle_store_init silent_env ?rq (sample_session empty_router) = Inr (response, t)"
    by (auto simp: handle_store_init_eq bitset_roundtrip)
  with handlers_report_presence [of "sample_session empty_router" silent_env ?rq response t far_key]
  show ?thesis by (auto simp: bitset_roundtrip)
qed

theorem store_then_find_value_witness:
  "\<exists>a t a' u. handle_store silent_env
       \<lparr>st_sender = local_to_rpc_peer sample_self, st_chunk_key = bitset_to_string far_key,
        st_data = ''xyz'', st_size = 3, st_original_publish = 0\<rparr> (sample_session empty_router) = Inr (a, t) \<and>
     handle_find_value silent_env
       \<lparr>fv_sender = local_to_rpc_peer sample_self, fv_search_key = bitset_to_string far_key\<rparr> t = Inr (a', u) \<and>
     fv_data a' = ''xyz''"
proof -
  let ?rq = "\<lparr>st_sender = local_to_rpc_peer sample_self, st_chunk_key = bitset_to_string far_key,
      st_data = ''xyz'', st_size = 3, st_original_publish = 0\<rparr>"
  let ?rq' = "\<lparr>fv_sender = local_to_rpc_peer sample_self, fv_search_key = bitset_to_string far_key\<rparr>"
  have copy: "copy_bytes ''xyz'' 3 = Inr ''xyz''" "size_of_int32 3 = 3"
    by (simp_all add: copy_bytes_def size_of_int32_def)
  obtain a t where run: "handle_store silent_env ?rq (sample_session empty_router) = Inr (a, t)"
    by (auto simp: handle_store_eq bitset_roundtrip copy)
  have t: "session_ok t" "chunks_free t"
    using handle_store_runs [OF _ _ run] by (metis sample_session_ok(1,2) wf_empty_router)+
  have "self_peer (router_of t) = sample_self"
    using run by (auto simp: handle_store_eq bitset_roundtrip copy)
  obtain ps v where "answer_closest silent_env far_key t = (ps, v)" by fastforce
  with t \<open>self_peer (router_of t) = sample_self\<close> obtain a' u where run': "handle_find_value silent_env ?rq' t = Inr (a', u)"
    by (cases "map_of (chunks t) far_key") (simp_all add: handle_find_value_eq bitset_roundtrip)
  from store_then_find_value [OF _ _ run _ run'] run run' show ?thesis
    by (auto simp: bitset_roundtrip copy)
qed

end
