(* ===== verification/Session_Properties.thy ===== *)
theory Session_Properties
  imports Session_Store Rpc_Properties
begin

text \<open>
  The properties of the lookups and of the operations of a session.
\<close>

section \<open>Lookups\<close>

text \<open>A lookup that starts from no candidate at all ends in std::out_of_range, because it
  reads the first element of the empty buffer; a lookup with at least one candidate never
  does, and fails only because of malformed answers. No lookup diverges or deadlocks.\<close>

theorem lookup_needs_candidates:
  assumes "session_ok s" and "closest_peers (now_at E (world s)) k 20 (router_of s) = (ps, r)"
  shows "if ps = [] then lookup_helper E kind k [] s = Inl Out_Of_Range
    else (case lookup_helper E kind k [] s of
            Inl e \<Rightarrow> e \<in> {Invalid_Argument, Out_Of_Bounds}
          | Inr (_, t) \<Rightarrow> keeps s t)"
  using assms lookup_helper_empty [OF assms(1), of k E kind] lookup_helper_safe [OF assms(1), of k E kind]
  by (auto simp: closest_peers_eq safe_from_def)

text \<open>C14: node_lookup returns at most KBUCKET_MAX peers, one per key, ordered by strictly increasing
  distance to the key, never the node itself; and when the kbucket the key leads to is not
  empty, the first of them is at least as close to the key as every contact the node had.
\<close>

theorem node_lookup_closest:
  assumes "session_ok s" and "node_lookup E k [] s = Inr (ps, t)"
  shows "length ps \<le> 20 \<and> sorted_wrt (\<lambda>p q. dist_between k (pkey p) < dist_between k (pkey q)) ps \<and>
    (\<forall>p\<in>set ps. foreign s p) \<and> session_ok t \<and> chunks t = chunks s \<and>
    (bucket_of k (table (router_of s)) \<noteq> [] \<longrightarrow>
       ps \<noteq> [] \<and> (\<forall>j\<in>dom (contacts (router_of s)). dist_between k (pkey (hd ps)) \<le> dist_between k j))"
proof -
  note r = node_lookup_result [OF assms]
  let ?d = "\<lambda>p. dist_between k (pkey p)"
  have "distinct (map ?d ps)"
    using r by (auto simp: ranked_def distinct_map inj_on_def)
  then have "sorted_wrt (<) (map ?d ps)"
    using r by (simp add: ranked_def strict_sorted_iff)
  then have "sorted_wrt (\<lambda>p q. ?d p < ?d q) ps" by (simp add: sorted_wrt_map)
  moreover have "ps \<noteq> [] \<and> (\<forall>j\<in>dom (contacts (router_of s)). ?d (hd ps) \<le> dist_between k j)"
    if ne: "bucket_of k (table (router_of s)) \<noteq> []"
  proof -
    have "wf_router (router_of s)" using assms(1) by (simp add: session_ok_def)
    then obtain q where q: "q \<in> set (known_closest s k)"
        "\<forall>j\<in>dom (contacts (router_of s)). ?d q \<le> dist_between k j"
      using nearest_known [OF _ ne] by blast
    with r obtain p where p: "p \<in> set ps" "?d p \<le> ?d q" by (auto simp: as_close_def)
    then have "?d (hd ps) \<le> ?d p"
      using r sorted_hd_least [of ?d ps p] by (simp add: ranked_def)
    with p q(2) show ?thesis by (metis empty_iff empty_set order_trans)
  qed
  ultimately show ?thesis using r by (auto simp: ranked_def keeps_def)
qed

text \<open>A round of a lookup that is not halted ends with exactly the number of successful queries
  it was asked for, or with every peer of the buffer queried, those found during the round
  included; it never stops in between.\<close>

theorem query_round_ends:
  assumes "session_ok s"
    and "query_round E kind k cnt 0 queried
      \<lparr>closest_buffer = buffer, status_ctr = 0, found_data = None\<rparr> s = Inr ((False, queried', q), t)"
  shows "status_ctr q = cnt \<or> status_ctr q < cnt \<and> pkey ` set (closest_buffer q) \<subseteq> queried'"
  using query_round_complete [OF assms(2)] assms(1) by simp

section \<open>Publishing, set and get\<close>

text \<open>Whatever node_lookup finds, publish keeps the chunk locally when it returns: its test
  whether the node is close enough is never false, since node_lookup returns at most
  KBUCKET_MAX peers. The chunks of other keys are not touched.\<close>

theorem publish_keeps_chunk:
  assumes "session_ok s" and "publish E c force s = Inr (x, t)"
  shows "map_of (chunks t) = (map_of (chunks s))(chunk_key c \<mapsto> c) \<and> session_ok t \<and>
    self_peer (router_of t) = self_peer (router_of s)"
  using publish_local [OF assms] by simp

text \<open>C10: What set stored, get returns, from the node's own chunks: whatever the network does then,
  without a message to any peer and without a change of the session.
\<close>

theorem set_then_get:
  assumes "session_ok s" and "session_set E k data force s = Inr (x, t)"
  shows "session_get E' k t = Inr (Some data, t)"
proof (rule store.get_held)
  note p = publish_local [OF assms(1) assms(2) [unfolded session_set_def]]
  show "store_ready t" using p by (simp add: store_ready_def)
  show "holds_locally t k data" using p(4) by (simp add: holds_locally_def new_chunk_def)
qed

text \<open>A node that knows no candidate for a key can neither set it nor get it: both end in
  std::out_of_range, unless get finds the key among the node's own chunks.\<close>

theorem isolated_node_fails:
  assumes "session_ok s" and "chunks_free s" and "map_of (chunks s) k = None"
    and "fst (closest_peers now k 20 (router_of s)) = []"
  shows "session_set E k data force s = Inl Out_Of_Range \<and> session_get E k s = Inl Out_Of_Range"
proof -
  have none: "known_closest s k = []" using assms(4) by (simp add: closest_peers_eq)
  then have "session_set E k data force s = Inl Out_Of_Range"
    by (simp add: session_set_def publish_def new_chunk_def node_lookup_empty [OF assms(1)])
  moreover have "session_get E k s = Inl Out_Of_Range"
    using assms(2,3) none
    by (simp add: session_get_def lock_chunks_free unlock_chunks_after value_lookup_def
        lookup_helper_empty [OF assms(1)])
  ultimately show ?thesis ..
qed

section \<open>Startup and teardown\<close>

text \<open>C25: When startup returns, the node has the key it drew and the endpoint it was given, the
  invariant of the session holds, and the session is not dying; it fails only because of
  malformed answers, an empty list of candidates, an empty kbucket, or a bootstrap peer
  that does not answer within the attempts.
\<close>

theorem startup_outcome:
  assumes "\<not> router_locked s"
  shows "case startup n E draw_self draw_temp self_ep init_ep s of
      Inl e \<Rightarrow> e \<in> {Invalid_Argument, Out_Of_Bounds, Out_Of_Range, Division_By_Zero, Diverges}
    | Inr (_, t) \<Rightarrow> session_ok t \<and> \<not> dying t \<and> chunks t = chunks s \<and>
        self_peer (router_of t) = \<lparr>pkey = random_key draw_self, endpoint = self_ep\<rparr>"
proof -
  let ?errs = "{Invalid_Argument, Out_Of_Bounds, Out_Of_Range, Division_By_Zero, Diverges}"
  let ?sk = "random_key draw_self" and ?tk = "random_key draw_temp"
  let ?r = "new_router (now_at E (world s)) ?sk self_ep ?tk init_ep"
  let ?s = "s\<lparr>dying := False, router_of := ?r\<rparr>"
  have self: "self_peer ?r = \<lparr>pkey = ?sk, endpoint = self_ep\<rparr>"
    unfolding new_router_def by (simp add: router.self_insert)
  have ok: "session_ok ?s" using assms new_router_wf by (simp add: session_ok_def)
  let ?rest = "\<lambda>(other, s). and_then (lock_router s) (\<lambda>(_, s).
      let r = snd (attempt_insert_peer (now_at E (world s)) (pkey other) (endpoint other) (router_of s));
          s = unlock_router (s\<lparr>router_of := evict_peer ?tk r\<rparr>)
      in self_lookup E ?sk s)"
  have "lock_router (s\<lparr>dying := False\<rparr>) = Inr ((), s\<lparr>dying := False, router_locked := True\<rparr>)"
    using assms by (simp add: lock_router_def)
  moreover have "unlock_router (s\<lparr>dying := False, router_locked := True, router_of := ?r\<rparr>) = ?s"
    using assms by (cases s) (simp add: unlock_router_def)
  ultimately have "startup n E draw_self draw_temp self_ep init_ep s =
      and_then (ping_until n E \<lparr>pkey = ?tk, endpoint = init_ep\<rparr> ?s) ?rest"
    by (simp add: startup_simps Let_def)
  moreover have "safe_from ?errs ?s (and_then (ping_until n E \<lparr>pkey = ?tk, endpoint = init_ep\<rparr> ?s) ?rest)"
  proof (rule safe_and_then [OF safe_weaken [OF ping_until_safe [OF ok]]])
    fix p t
    assume k: "keeps ?s t"
    let ?r1 = "snd (attempt_insert_peer (now_at E (world t)) (pkey p) (endpoint p) (router_of t))"
    have t: "session_ok t" by (rule keeps_ok [OF k])
    have "keeps t (t\<lparr>router_of := evict_peer ?tk ?r1\<rparr>)"
      using t by (intro keeps_router keeps_refl router.inv_evict router.inv_insert)
        (simp_all add: session_ok_def router.self_insert)
    then have "safe_from ?errs t (self_lookup E ?sk (t\<lparr>router_of := evict_peer ?tk ?r1\<rparr>))"
      by (rule safe_shift [OF _ safe_weaken [OF self_lookup_safe]]) (auto intro: keeps_ok \<open>keeps t _\<close>)
    with t show "safe_from ?errs ?s (?rest (p, t))"
      by (simp add: lock_router_free unlock_after_update safe_shift [OF k])
  qed auto
  ultimately show ?thesis
    using self by (auto simp: safe_from_def keeps_def split: sum.splits)
qed

lemma and_then_not_diverges: "and_then m f \<noteq> Inl e \<Longrightarrow> m \<noteq> Inl e"
  by auto

text \<open>The wait of startup for its bootstrap peer: as long as the peer does not answer, no number
  of attempts is enough; once an attempt ended, more of them change nothing.\<close>

theorem startup_waits:
  shows "((\<forall>rq w. fst (rpc_ping E init_ep rq w) = None) \<longrightarrow> \<not> router_locked s \<longrightarrow>
      startup n E draw_self draw_temp self_ep init_ep s = Inl Diverges) \<and>
    (startup n E draw_self draw_temp self_ep init_ep s \<noteq> Inl Diverges \<longrightarrow>
      startup (n + m) E draw_self draw_temp self_ep init_ep s = startup n E draw_self draw_temp self_ep init_ep s)"
proof (intro conjI impI)
  assume silent: "\<forall>rq w. fst (rpc_ping E init_ep rq w) = None" and "\<not> router_locked s"
  have "ping_until n E \<lparr>pkey = k, endpoint = init_ep\<rparr> t = Inl Diverges" for k t
  proof (induction n arbitrary: t)
    case (Suc n)
    have "\<exists>w. rpc_ping E init_ep \<lparr>pg_sender = rpc_caller_prelims t\<rparr> (world t) = (None, w)"
      using silent by (metis prod.collapse)
    with Suc show ?case by (auto simp: ping_def)
  qed simp
  with \<open>\<not> router_locked s\<close> show "startup n E draw_self draw_temp self_ep init_ep s = Inl Diverges"
    by (simp add: startup_simps lock_router_def Let_def)
next
  assume "startup n E draw_self draw_temp self_ep init_ep s \<noteq> Inl Diverges"
  then show "startup (n + m) E draw_self draw_temp self_ep init_ep s = startup n E draw_self draw_temp self_ep init_ep s"
    unfolding startup_simps Let_def
    by (cases "lock_router (s\<lparr>dying := False\<rparr>)") 
       (auto intro!: and_then_cong [OF ping_until_more refl] dest: and_then_not_diverges)
qed


section \<open>The background threads\<close>

lemma in_enumerate: "(i, x) \<in> set (enumerate n xs) \<Longrightarrow> x \<in> set xs"
  by (auto simp: in_set_enumerate_eq)

lemma due_keys_subset: "set (due_keys clock cs) \<subseteq> fst ` set cs"
  by (force simp: due_keys_def dest: in_enumerate)

text \<open>The republishing thread locks up on the first chunk that is due: it holds the mutex of the
  chunks while publish locks it again, so an iteration with a due chunk never completes. It
  completes, and changes nothing, exactly when no chunk is due.\<close>

theorem republish_deadlocks:
  assumes "session_ok s" and "chunks_free s" and "\<not> dying s"
  shows "if due_keys (clock_at E (world s)) (chunks s) = [] then republish_step E s = Inr (True, s)
    else \<exists>e. republish_step E s = Inl e \<and> e \<in> {Deadlock, Invalid_Argument, Out_Of_Bounds, Out_Of_Range}"
proof (cases "due_keys (clock_at E (world s)) (chunks s)")
  case Nil
  with assms show ?thesis
    by (cases s) (simp add: republish_step_def lock_chunks_def unlock_chunks_def)
next
  case (Cons k ks)
  then have "k \<in> fst ` set (chunks s)"
    using due_keys_subset [of "clock_at E (world s)" "chunks s"] by auto
  then obtain c where c: "map_of (chunks s) k = Some c"
    by (metis map_of_eq_None_iff not_None_eq)
  let ?s = "s\<lparr>chunks_locked := True, chunks := AList.delete k (chunks s)\<rparr>"
  have ok: "session_ok ?s" using assms(1) by (simp add: session_ok_def)
  have "\<exists>e. publish E c False ?s = Inl e \<and> e \<in> {Deadlock, Invalid_Argument, Out_Of_Bounds, Out_Of_Range}"
  proof (cases "publish_rpcs E c False ?s")
    case (Inl e)
    with safe_fromE [OF publish_rpcs_safe [OF ok] Inl] show ?thesis by (auto simp: publish_eq [OF ok])
  next
    case (Inr x)
    then obtain t where t: "publish_rpcs E c False ?s = Inr ((), t)" by (cases x) auto
    have "chunks_locked t"
      using safe_fromD [OF publish_rpcs_safe [OF ok] t] by (simp add: keeps_def)
    with t show ?thesis by (simp add: publish_eq [OF ok] lock_chunks_def)
  qed
  with Cons c assms show ?thesis
    by (auto simp: republish_step_def lock_chunks_free)
qed


text \<open>As long as less than an hour passes between two readings of the clock, an iteration of the
  refresh thread sends no message and changes no contact, however long the kbuckets have
  been idle.\<close>

theorem refresh_does_nothing:
  assumes "session_ok s" and "\<not> dying s"
    and "\<And>i. clock_at E (world s) (Suc i) - clock_at E (world s) i < 3600 * ticks_per_second"
  shows "\<exists>t. refresh_step E s = Inr (True, t) \<and> world t = world s \<and>
    contacts (router_of t) = contacts (router_of s)"
proof -
  have "to_seconds (clock_at E (world s) (Suc i) - clock_at E (world s) i) < 3600" for i
    by (rule to_seconds_less) (use assms(3) in simp_all)
  from sampling_recent [of "clock_at E (world s)" 3600, OF this, of "rand_at E (world s)"
      "table (router_of s)" "\<lparr>clock_reads = 0, rand_calls = 0, sampled = []\<rparr>"]
  obtain u where u: "random_per_bucket_peers (clock_at E (world s)) (rand_at E (world s)) 3600 (router_of s)
      = Inr ([], (router_of s)\<lparr>table := u\<rparr>)" "same_but_access (table (router_of s)) u"
    by (auto simp: random_per_bucket_peers_def)
  with assms(1,2) show ?thesis
    by (auto simp: refresh_step_def lock_router_free unlock_after_update contacts_def same_but_access_peers)
qed

section \<open>Examples\<close>

text \<open>
  A network is calm for a predicate on sessions when no answer in it is malformed, none
  names another peer, and the predicate is kept; then lookups and publishing return.
\<close>

definition calm :: "'w env \<Rightarrow> ('w session \<Rightarrow> bool) \<Rightarrow> bool" where
  "calm E P \<longleftrightarrow> (\<forall>s. P s \<longrightarrow> session_ok s \<and> (\<forall>k. P (after_closest E k s)) \<and> (\<forall>cs. P (s\<lparr>chunks := cs\<rparr>)) \<and>
     (\<forall>p k b. \<exists>ok t. find_node E p k b s = Inr ((ok, b), t) \<and> P t) \<and>
     (\<forall>p c force. \<exists>ok t. store E p c force s = Inr (ok, t) \<and> P t))"

lemma calm_find_node: "calm E P \<Longrightarrow> P s \<Longrightarrow> \<exists>ok t. find_node E p k b s = Inr ((ok, b), t) \<and> P t"
  by (simp add: calm_def)

lemma calm_store: "calm E P \<Longrightarrow> P s \<Longrightarrow> \<exists>ok t. store E p c force s = Inr (ok, t) \<and> P t"
  by (simp add: calm_def)

lemma calm_query_round:
  assumes "calm E P" and "P s"
  shows "\<exists>queried' n t. query_round E Node_Query k cnt j queried q s =
    Inr ((False, queried', q\<lparr>status_ctr := n\<rparr>), t) \<and> P t"
  using assms(2)
proof (induction "length (closest_buffer q) - j" arbitrary: j queried q s)
  case 0
  then have "query_round E Node_Query k cnt j queried q s = Inr ((False, queried, q\<lparr>status_ctr := status_ctr q\<rparr>), s)"
    by (simp add: query_round_done)
  with 0 show ?case by blast
next
  case (Suc n)
  consider "\<not> (j < length (closest_buffer q) \<and> \<not> cnt \<le> status_ctr q)"
    | "j < length (closest_buffer q) \<and> \<not> cnt \<le> status_ctr q" "pkey (closest_buffer q ! j) \<in> queried"
    | "j < length (closest_buffer q) \<and> \<not> cnt \<le> status_ctr q" "pkey (closest_buffer q ! j) \<notin> queried"
    by blast
  then show ?case
  proof cases
    case 1
    then have "query_round E Node_Query k cnt j queried q s = Inr ((False, queried, q\<lparr>status_ctr := status_ctr q\<rparr>), s)"
      by (simp add: query_round_done)
    with Suc.prems show ?thesis by blast
  next
    case 2
    with Suc show ?thesis by (simp add: query_round_skip [OF 2])
  next
    case 3
    let ?p = "closest_buffer q ! j"
    obtain ok t where t: "find_node E ?p k (closest_buffer q) s = Inr ((ok, closest_buffer q), t)" "P t"
      using calm_find_node [OF assms(1) Suc.prems] by blast
    let ?q = "q\<lparr>status_ctr := (if ok then Suc (status_ctr q) else status_ctr q)\<rparr>"
    have "query_fn E Node_Query k ?p q s = Inr ((False, ?q), t)"
      using t(1) by (simp add: query_fn_def)
    moreover obtain queried' m u where "query_round E Node_Query k cnt (Suc j) (insert (pkey ?p) queried) ?q t =
        Inr ((False, queried', ?q\<lparr>status_ctr := m\<rparr>), u)" "P u"
      using Suc.hyps(1) [of ?q "Suc j" t] Suc.hyps(2) t(2) by fastforce
    ultimately show ?thesis
      by (simp add: query_round_step [OF 3]) metis
  qed
qed

lemma calm_lookup_rounds:
  assumes "calm E P" and "P s" and "buffer \<noteq> []"
  shows "\<exists>ps t. lookup_rounds n E Node_Query k queried buffer sz d s = Inr ((ps, None), t) \<and> P t \<and>
    set ps \<subseteq> set buffer"
  using assms(2,3)
proof (induction n arbitrary: queried buffer sz d s)
  case (Suc n)
  obtain queried' m t where r: "query_round E Node_Query k (min 3 (length buffer)) 0 queried
      \<lparr>closest_buffer = buffer, status_ctr = 0, found_data = None\<rparr> s =
      Inr ((False, queried', \<lparr>closest_buffer = buffer, status_ctr = m, found_data = None\<rparr>), t)" "P t"
    using calm_query_round [OF assms(1) Suc.prems(1), of k "min 3 (length buffer)" 0 queried
        "\<lparr>closest_buffer = buffer, status_ctr = 0, found_data = None\<rparr>"] by auto
  let ?b = "select_closest k buffer"
  have "?b \<noteq> []" using Suc.prems(2) by simp
  from Suc.IH [OF r(2) this] obtain ps u where
    "lookup_rounds n E Node_Query k queried' ?b (length ?b) (dist_between k (pkey (?b ! 0))) t = Inr ((ps, None), u)"
    "P u" "set ps \<subseteq> set ?b" by blast
  with r Suc.prems(2) select_closest_subset [of k buffer] show ?case by (auto simp: Let_def)
qed auto

lemma calm_node_lookup:
  assumes "calm E P" and "P s" and "known_closest s k \<noteq> []"
  shows "\<exists>ps t. node_lookup E k [] s = Inr (ps, t) \<and> P t \<and> set ps \<subseteq> set (known_closest s k)"
proof -
  have ok: "session_ok s" "P (after_closest E k s)" using assms(1,2) by (simp_all add: calm_def)
  have "sort_peers k (known_closest s k) \<noteq> []"
    using assms(3) length_sort_peers [of k "known_closest s k"] by (metis length_0_conv)
  from calm_lookup_rounds [OF assms(1) ok(2) this, of 160 k "{}"] obtain qs t where
    h: "lookup_helper E Node_Query k [] s = Inr ((qs, None), t)" "P t" "set qs \<subseteq> set (known_closest s k)"
    by (simp add: lookup_helper_eq [OF ok(1)]) metis
  have "\<exists>u. final_queries E k ps buffer t = Inr (buffer, u) \<and> P u" if "P t" for ps buffer t
    using that
  proof (induction ps arbitrary: t)
    case (Cons p ps)
    from calm_find_node [OF assms(1) Cons.prems, of p k buffer] Cons.IH show ?case by fastforce
  qed simp
  from this [OF h(2), of qs qs] obtain u where "final_queries E k qs qs t = Inr (qs, u)" "P u" by blast
  moreover have "set (select_closest k qs) \<subseteq> set (known_closest s k)"
    using select_closest_subset [of k qs] h(3) by blast
  ultimately show ?thesis using h(1) by (auto simp: node_lookup_def select_closest_def)
qed

lemma calm_publish:
  assumes "calm E P" and "P s" and "chunks_free s" and "known_closest s (chunk_key c) \<noteq> []"
  shows "\<exists>t. publish E c force s = Inr ((), t) \<and> P t \<and> chunks_free t"
proof -
  have ok: "session_ok s" using assms(1,2) by (simp add: calm_def)
  have "\<exists>d u. store_closest E c force ps e t = Inr (d, u) \<and> P u" if "P t" for ps e t
    using that
  proof (induction ps arbitrary: e t)
    case (Cons p ps)
    obtain ok u where "store E p c force t = Inr (ok, u)" "P u"
      using calm_store [OF assms(1) Cons.prems] by blast
    with Cons.IH show ?case by simp
  qed simp
  moreover obtain ps u where "node_lookup E (chunk_key c) [] s = Inr (ps, u)" "P u"
    using calm_node_lookup [OF assms(1,2,4)] by blast
  ultimately obtain d t where t: "store_closest E c force (take 20 ps) (Dist 0) u = Inr (d, t)" "P t"
      "publish_rpcs E c force s = and_then (store_closest E c force (take 20 ps) (Dist 0) u) (\<lambda>(_, s). Inr ((), s))"
    by (metis (no_types, lifting) and_then.simps(2) case_prod_conv publish_rpcs_def)
  then have t: "publish_rpcs E c force s = Inr ((), t)" "P t" by simp_all
  then have free: "chunks_free t"
    using safe_fromD [OF publish_rpcs_safe [OF ok] t(1)] assms(3) by (simp add: keeps_def)
  have "P (t\<lparr>chunks := cs\<rparr>)" for cs using assms(1) t(2) by (simp add: calm_def)
  with t free show ?thesis
    by (simp add: publish_eq [OF ok] lock_chunks_free unlock_chunks_def chunks_update_free)
qed

text \<open>In the network where nobody answers, every call fails and nothing else happens.\<close>

lemma calm_silent: "calm silent_env session_ok"
proof -
  have "session_ok (after_closest silent_env k s)" if "session_ok s" for s k
    by (rule keeps_ok [OF after_closest_keeps [OF that]])
  moreover have "session_ok (s\<lparr>chunks := cs\<rparr>)" if "session_ok s" for s :: "unit session" and cs
    using that by (simp add: session_ok_def)
  moreover have evict: "session_ok (s\<lparr>world := w, router_of := evict_peer k (router_of s)\<rparr>)" if "session_ok s"
    for s :: "unit session" and w k
    using that by (simp add: session_ok_def router.inv_evict)
  moreover have "\<exists>ok t. find_node silent_env p k b s = Inr ((ok, b), t) \<and> session_ok t" if "session_ok s" for p k b s
    using evict [OF that] by (simp add: find_node_def) blast
  moreover have "\<exists>ok t. store silent_env p c force s = Inr (ok, t) \<and> session_ok t" if "session_ok s" for p c force s
    using evict [OF that] by (simp add: store_def) blast
  ultimately show ?thesis unfolding calm_def by blast
qed

lemma silent_query_round:
  "session_ok s \<Longrightarrow> \<exists>queried' n t. query_round silent_env Node_Query k cnt j queried q s =
     Inr ((False, queried', q\<lparr>status_ctr := n\<rparr>), t)"
  using calm_query_round [OF calm_silent] by blast

lemma silent_node_lookup:
  "session_ok s \<Longrightarrow> known_closest s k \<noteq> [] \<Longrightarrow> \<exists>ps t. node_lookup silent_env k [] s = Inr (ps, t)"
  using calm_node_lookup [OF calm_silent] by blast

lemma silent_publish:
  "session_ok s \<Longrightarrow> chunks_free s \<Longrightarrow> known_closest s (chunk_key c) \<noteq> [] \<Longrightarrow>
     \<exists>t. publish silent_env c force s = Inr ((), t)"
  using calm_publish [OF calm_silent] by blast

lemma half_router_candidates [simp]:
  "closest_list far_key 20 (table half_router) \<noteq> []" "fst (closest_peers now 1 20 half_router) = []"
  by (simp_all add: half_router_def closest_peers_eq bit_1_iff)

theorem lookup_needs_candidates_witness:
  "lookup_helper silent_env Node_Query 1 [] (sample_session half_router) = Inl Out_Of_Range"
  using lookup_needs_candidates [of "sample_session half_router" silent_env 1 "[]"
      "snd (closest_peers 5 1 20 half_router)" Node_Query]
  by (simp add: prod_eq_iff)

theorem node_lookup_closest_witness:
  "\<exists>ps t. node_lookup silent_env far_key [] (sample_session half_router) = Inr (ps, t) \<and>
     length ps \<le> 20 \<and> ps \<noteq> []"
proof -
  obtain ps t where run: "node_lookup silent_env far_key [] (sample_session half_router) = Inr (ps, t)"
    using silent_node_lookup [of "sample_session half_router" far_key] by auto
  have "bucket_of far_key (table half_router) \<noteq> []" by (simp add: half_router_def)
  with node_lookup_closest [OF _ run] run show ?thesis by auto
qed

theorem query_round_ends_witness:
  "\<exists>queried q t. query_round silent_env Node_Query 5 3 0 {}
       \<lparr>closest_buffer = [sample_peer 1], status_ctr = 0, found_data = None\<rparr> (sample_session full_router)
     = Inr ((False, queried, q), t) \<and>
     (status_ctr q = 3 \<or> status_ctr q < 3 \<and> pkey ` set (closest_buffer q) \<subseteq> queried)"
proof -
  obtain queried q t where run: "query_round silent_env Node_Query 5 3 0 {}
      \<lparr>closest_buffer = [sample_peer 1], status_ctr = 0, found_data = None\<rparr> (sample_session full_router)
      = Inr ((False, queried, q), t)"
    using silent_query_round [of "sample_session full_router" 5 3 0 "{}"
        "\<lparr>closest_buffer = [sample_peer 1], status_ctr = 0, found_data = None\<rparr>"] by auto
  from query_round_ends [OF _ run] run show ?thesis by auto
qed

theorem publish_keeps_chunk_witness:
  "\<exists>t. publish silent_env (new_chunk 0 far_key ''xyz'' True 0) True (sample_session half_router) = Inr ((), t) \<and>
     map_of (chunks t) far_key = Some (new_chunk 0 far_key ''xyz'' True 0)"
proof -
  obtain t where run: "publish silent_env (new_chunk 0 far_key ''xyz'' True 0) True (sample_session half_router)
      = Inr ((), t)"
    using silent_publish [of "sample_session half_router" "new_chunk 0 far_key ''xyz'' True 0" True]
    by (auto simp: new_chunk_def)
  from publish_keeps_chunk [OF _ run] run show ?thesis by (simp add: new_chunk_def)
qed

theorem set_then_get_witness:
  "\<exists>t. session_set silent_env far_key ''xyz'' False (sample_session half_router) = Inr ((), t) \<and>
     session_get silent_env far_key t = Inr (Some ''xyz'', t)"
proof -
  obtain t where run: "session_set silent_env far_key ''xyz'' False (sample_session half_router) = Inr ((), t)"
    using silent_publish [of "sample_session half_router" "new_chunk 1 far_key ''xyz'' True 0" False]
    by (auto simp: session_set_def new_chunk_def)
  from set_then_get [OF _ run] run show ?thesis by auto
qed

theorem isolated_node_fails_witness:
  "session_get silent_env 1 (sample_session half_router) = Inl Out_Of_Range"
  using isolated_node_fails [of "sample_session half_router" 1 5 silent_env] by simp

theorem startup_outcome_witness:
  "case startup 3 silent_env (\<lambda>_. False) (\<lambda>_. True) ''a:1'' ''b:1'' (sample_session half_router) of
     Inl e \<Rightarrow> e \<noteq> Wild_Pointer | Inr (_, t) \<Rightarrow> session_ok t"
  using startup_outcome [where s = "sample_session half_router" and n = 3 and E = silent_env
      and draw_self = "\<lambda>_. False" and draw_temp = "\<lambda>_. True" and self_ep = "''a:1''" and init_ep = "''b:1''"]
  by (auto simp: sample_session_def split: sum.splits)

theorem startup_waits_witness:
  "startup 5 silent_env (\<lambda>_. False) (\<lambda>_. True) ''a:1'' ''b:1'' (sample_session half_router) = Inl Diverges"
  using startup_waits [where s = "sample_session half_router" and n = 5 and E = silent_env
      and draw_self = "\<lambda>_. False" and draw_temp = "\<lambda>_. True" and self_ep = "''a:1''" and init_ep = "''b:1''"]
  by (simp add: sample_session_def)


definition stocked_session :: "time \<Rightarrow> unit session" where
  "stocked_session published =
     (sample_session full_router)\<lparr>chunks := [(7, new_chunk published 7 ''xyz'' True published)]\<rparr>"

lemma stocked_session_ok [simp]:
  "session_ok (stocked_session p)" "chunks_free (stocked_session p)" "\<not> dying (stocked_session p)"
  by (simp_all add: stocked_session_def sample_session_def session_ok_def)

lemma stocked_session_chunks [simp]:
  "chunks (stocked_session p) = [(7, new_chunk p 7 ''xyz'' True p)]" "world (stocked_session p) = ()"
  by (simp_all add: stocked_session_def)

theorem republish_deadlocks_witness:
  "\<exists>e. republish_step silent_env (stocked_session (- 4000000000000)) = Inl e"
proof -
  have "due_keys (clock_at silent_env ()) (chunks (stocked_session (- 4000000000000))) \<noteq> []"
    by (simp add: due_keys_def new_chunk_def to_seconds_def ticks_per_second_def)
  with republish_deadlocks [of "stocked_session (- 4000000000000)" silent_env] show ?thesis by auto
qed


theorem refresh_does_nothing_witness:
  "\<exists>t. refresh_step silent_env (stocked_session 0) = Inr (True, t) \<and> world t = ()"
proof -
  have "clock_at silent_env (world (stocked_session 0)) (Suc i) - clock_at silent_env (world (stocked_session 0)) i
      < 3600 * ticks_per_second" for i
    by (simp add: ticks_per_second_def)
  with refresh_does_nothing [of "stocked_session 0" silent_env] show ?thesis by auto
qed

end
