(* ===== verification/Files_Properties.thy ===== *)
theory Files_Properties
  imports Files Session_Properties
begin

text \<open>
  The properties of the file layer: how files are cut into chunks and put together again,
  the metadata and index formats, and the round trip of a file through a session.
\<close>

section \<open>Chunks and formats\<close>

lemma max_chunk_size_pos [simp]: "0 < max_chunk_size"
  by (simp add: max_chunk_size_def)

lemma read_chunks_shape:
  "concat (read_chunks data) = data \<and> length (read_chunks data) = length data div max_chunk_size + 1 \<and>
   (\<forall>c\<in>set (butlast (read_chunks data)). length c = max_chunk_size) \<and>
   length (last (read_chunks data)) = length data mod max_chunk_size"
proof (induction data rule: read_chunks.induct)
  case (1 data)
  show ?case
  proof (cases "length data < max_chunk_size")
    case True
    then show ?thesis by (simp add: read_chunks.simps [of data])
  next
    case False
    let ?rest = "read_chunks (drop max_chunk_size data)"
    have eq: "read_chunks data = take max_chunk_size data # ?rest"
      using False by (subst read_chunks.simps) simp
    from 1 [OF False] have ih: "concat ?rest = drop max_chunk_size data"
      "length ?rest = (length data - max_chunk_size) div max_chunk_size + 1"
      "\<forall>c\<in>set (butlast ?rest). length c = max_chunk_size"
      "length (last ?rest) = (length data - max_chunk_size) mod max_chunk_size"
      by simp_all
    then have "?rest \<noteq> []" by auto
    have ge: "max_chunk_size \<le> length data" using False by simp
    have div: "length data div max_chunk_size = (length data - max_chunk_size) div max_chunk_size + 1"
      using le_div_geq [OF max_chunk_size_pos ge] by simp
    have mod: "length data mod max_chunk_size = (length data - max_chunk_size) mod max_chunk_size"
      using le_mod_geq [OF ge] by simp
    show ?thesis
      unfolding eq div mod
    proof (intro conjI)
      show "concat (take max_chunk_size data # ?rest) = data" using ih(1) by simp
      show "length (take max_chunk_size data # ?rest) = (length data - max_chunk_size) div max_chunk_size + 1 + 1"
        using ih(2) by simp
      show "\<forall>c\<in>set (butlast (take max_chunk_size data # ?rest)). length c = max_chunk_size"
      proof
        fix c
        assume "c \<in> set (butlast (take max_chunk_size data # ?rest))"
        then have "c = take max_chunk_size data \<or> c \<in> set (butlast ?rest)"
          using \<open>?rest \<noteq> []\<close> by simp
        moreover have "length (take max_chunk_size data) = max_chunk_size" using ge by simp
        ultimately show "length c = max_chunk_size" using bspec [OF ih(3), of c] by blast
      qed
      show "length (last (take max_chunk_size data # ?rest)) = (length data - max_chunk_size) mod max_chunk_size"
        unfolding ih(4) [symmetric] using \<open>?rest \<noteq> []\<close> by simp
    qed
  qed
qed

text \<open>The chunks of a file put together are the file; every chunk but the last has the maximal
  size, and the last is shorter, empty when the file is a multiple of that size.\<close>

theorem read_chunks_partition:
  "concat (read_chunks data) = data \<and> length (read_chunks data) = length data div max_chunk_size + 1 \<and>
   list_all (\<lambda>c. length c = max_chunk_size) (butlast (read_chunks data)) \<and>
   length (last (read_chunks data)) = length data mod max_chunk_size"
  using read_chunks_shape [of data] by (simp add: list_all_iff)

lemma concat_read_chunks: "concat (read_chunks data) = data"
  using read_chunks_shape by blast

lemma encode_keys_eq: "encode_keys ks = concat (map (\<lambda>k. bitset_to_string k @ [nul]) ks)"
proof -
  have "fold (\<lambda>k b. b @ bitset_to_string k @ [nul]) ks b =
      b @ concat (map (\<lambda>k. bitset_to_string k @ [nul]) ks)" for b and ks :: "key list"
    by (induction ks arbitrary: b) simp_all
  then show ?thesis by (simp add: encode_keys_def)
qed

lemma no_nul_in_key: "nul \<notin> set (bitset_to_string w)"
  using bitset_to_string_chars [of nul w] by auto

lemma decode_key:
  "nul \<notin> set name \<Longrightarrow> length (cur @ name) = 160 \<Longrightarrow>
     decode_keys cur (name @ nul # rest) =
       and_then (bitset_of_string (cur @ name)) (\<lambda>k.
       and_then (decode_keys [] rest) (\<lambda>ks. Inr (k # ks)))"
proof (induction name arbitrary: cur)
  case (Cons c name)
  then show ?case using Cons.IH [of "cur @ [c]"] by auto
qed simp

lemma decode_encode: "decode_keys [] (encode_keys ks) = Inr ks"
  unfolding encode_keys_eq
  by (induction ks) (simp_all add: decode_key no_nul_in_key bitset_roundtrip)

text \<open>The metadata of a file reads back as the keys it was written from, in their order, and
  names of a wrong length between them are skipped without an effect on the others.\<close>

theorem metadata_roundtrip:
  assumes "nul \<notin> set junk" and "length junk \<noteq> 160"
  shows "decode_keys [] (encode_keys ks) = Inr ks \<and>
    decode_keys [] (junk @ nul # encode_keys ks) = Inr ks"
proof -
  have "decode_keys cur (junk @ nul # rest) = decode_keys [] rest"
    if "length (cur @ junk) \<noteq> 160" for cur rest
    using assms(1) that
  proof (induction junk arbitrary: cur)
    case (Cons c junk)
    then show ?case using Cons.IH [of "cur @ [c]"] by auto
  qed simp
  with assms(2) decode_encode show ?thesis by simp
qed

section \<open>The round trip of a file\<close>

lemma fold_slots:
  "fold (\<lambda>(i, r) slots. slots[i := r]) (zip order (map g order)) xs =
     map (\<lambda>i. if i \<in> set order then g i else xs ! i) [0..<length xs]"
proof (induction order arbitrary: xs)
  case Nil
  then show ?case by (simp add: map_nth)
next
  case (Cons j order)
  show ?case
    by (simp add: Cons.IH nth_list_update)
qed

lemma nth_all:
  assumes "mset order = mset [0..<length xs]"
  shows "set (map (\<lambda>i. xs ! i) order) = set xs"
proof -
  have "set order = {0..<length xs}" using mset_eq_setD [OF assms] by simp
  then show ?thesis by (force simp: in_set_conv_nth image_iff)
qed

lemma read_in_held:
  assumes ready: "store_ready s" and meta: "holds_locally s (key_from_string sha1 name) (encode_keys ks)"
    and held: "\<forall>k\<in>set ks. holds_locally s k (f k)"
    and order: "mset (sched (length ks)) = mset [0..<length ks]"
  shows "read_in_files sha1 E sched [name] s = Inr (Some (concat (map f ks)), s)"
proof -
  have keys: "ordered_keys sha1 E [name] s = Inr (Some ks, s)"
    using store.get_held [OF ready meta, of E] by (simp add: decode_encode)
  have "get_all (session_get E) (map (\<lambda>i. ks ! i) (sched (length ks))) s =
      Inr (map (\<lambda>k. Some (f k)) (map (\<lambda>i. ks ! i) (sched (length ks))), s)"
    using held nth_all [OF order] by (intro store.get_all_held [OF ready]) simp
  moreover have "fold (\<lambda>(i, r) slots. slots[i := r]) (zip (sched (length ks)) (map ((\<lambda>k. Some (f k)) \<circ> (!) ks) (sched (length ks))))
      (replicate (length ks) None) = map (\<lambda>k. Some (f k)) ks"
    using mset_eq_setD [OF order] by (simp add: fold_slots) (auto intro!: nth_equalityI)
  ultimately show ?thesis
    using keys by (auto simp: read_in_files_def o_def)
qed

text \<open>C13: The round trip of a file: when write_from_file returns, whatever the order in which its
  threads ran, reading the file on the same node in any order of the threads returns its
  content, without a message to any peer; provided the digest tells the chunks and the name
  of the file apart.
\<close>

theorem write_then_read:
  assumes "session_ok s" and "chunks_free s"
    and "write_from_file sha1 E sched (Some bytes) name s = Inr (ok, t)"
    and "mset (sched (length (read_chunks bytes))) = mset [0..<length (read_chunks bytes)]"
    and "mset (sched' (length (read_chunks bytes))) = mset [0..<length (read_chunks bytes)]"
    and "inj_on (key_from_data sha1) (set (read_chunks bytes))"
    and "key_from_string sha1 name \<notin> key_from_data sha1 ` set (read_chunks bytes)"
  shows "ok \<and> read_in_files sha1 E' sched' [name] t = Inr (Some bytes, t)"
proof -
  let ?key = "key_from_data sha1" and ?cs = "read_chunks bytes"
  let ?named = "map (\<lambda>d. (?key d, d)) ?cs"
  let ?xs = "map (\<lambda>i. ?named ! i) (sched (length ?cs))"
  have ready: "store_ready s" using assms(1,2) by (simp add: store_ready_def)
  from assms(3) obtain u where put: "put_all (\<lambda>k d. session_set E k d False) ?xs s = Inr ((), u)"
    and meta: "session_set E (key_from_string sha1 name) (encode_keys (map ?key ?cs)) True u = Inr ((), t)"
    and ok by (auto simp: write_from_file_def Let_def o_def)
  have xs: "set ?xs = set ?named" using nth_all [of "sched (length ?cs)" ?named] assms(4) by simp
  have "inj_on fst (set ?xs)"
    unfolding xs using assms(6) by (auto simp: inj_on_def)
  note held = store.put_all_holds_all [OF ready put this]
  have "holds_locally t (?key d) d" if "d \<in> set ?cs" for d
  proof -
    have "holds_locally u (?key d) d" using held(2) [of "?key d" d] xs that by auto
    moreover have "?key d \<noteq> key_from_string sha1 name" using assms(7) that by (metis imageI)
    ultimately show ?thesis using store.put_holds [OF held(1) meta] by simp
  qed
  then have "\<forall>k\<in>set (map ?key ?cs). holds_locally t k (the_inv_into (set ?cs) ?key k)"
    using the_inv_into_f_f [OF assms(6)] by auto
  moreover have "map (the_inv_into (set ?cs) ?key) (map ?key ?cs) = ?cs"
    using the_inv_into_f_f [OF assms(6)] by (simp add: map_idI)
  moreover have "holds_locally t (key_from_string sha1 name) (encode_keys (map ?key ?cs))"
    using store.put_holds [OF held(1) meta] by simp
  moreover have "concat ?cs = bytes" using concat_read_chunks .
  ultimately show ?thesis
    using read_in_held [OF store.inv_put [OF held(1) meta]] assms(5) \<open>ok\<close> by (metis length_map)
qed

section \<open>The index of files\<close>

lemma fold_index: "fold (\<lambda>file b. b @ file @ [nul]) files b = b @ concat (map (\<lambda>file. file @ [nul]) files)"
  by (induction files arbitrary: b) simp_all

lemma index_names_entry:
  "nul \<notin> set name \<Longrightarrow> index_names cur (name @ nul # rest) =
     (if cur @ name = [] then index_names [] rest else (cur @ name) # index_names [] rest)"
proof (induction name arbitrary: cur)
  case (Cons c name)
  then show ?case using Cons.IH [of "cur @ [c]"] by auto
qed simp

lemma index_names_files:
  "\<forall>file\<in>set files. file \<noteq> [] \<and> nul \<notin> set file \<Longrightarrow>
     index_names [] (concat (map (\<lambda>file. file @ [nul]) files)) = files"
  by (induction files) (simp_all add: index_names_entry)

lemma index_names_append:
  assumes "b = [] \<and> cur = [] \<or> b \<noteq> [] \<and> last b = nul"
  shows "index_names cur (b @ rest) = index_names cur b @ index_names [] rest"
  using assms
proof (induction b arbitrary: cur)
  case (Cons c b)
  then show ?case by (cases "b = []") (auto split: if_splits)
qed simp

lemma index_contains_iff: "name \<noteq> [] \<Longrightarrow> index_contains name cur b \<longleftrightarrow> name \<in> set (index_names cur b)"
  by (induction cur b rule: index_names.induct) auto

text \<open>Adding files to the index appends their names, in their order, to the names get_index_files
  lists, and file_exists finds exactly the listed names; provided the names are nonempty
  and hold no NUL byte, and the index ended with a complete entry.\<close>

theorem add_files_then_list:
  assumes "session_ok s" and "session_get E (index_key sha1) s = Inr (Some buffer, s')"
    and "add_files_to_index_file sha1 E files s = Inr (True, t)"
    and "buffer = [] \<or> last buffer = nul"
    and "\<forall>file\<in>set files. file \<noteq> [] \<and> nul \<notin> set file" and "name \<noteq> []"
  shows "get_index_files sha1 E' t = Inr (Some (index_names [] buffer @ files), t) \<and>
    file_exists sha1 E' name t = Inr (name \<in> set (index_names [] buffer @ files), t)"
proof -
  let ?new = "buffer @ concat (map (\<lambda>file. file @ [nul]) files)"
  have names: "index_names [] ?new = index_names [] buffer @ files"
    using assms(4,5) by (cases "buffer = []") (simp_all add: index_names_append index_names_files)
  from assms(2,3) have set: "session_set E (index_key sha1) ?new True s' = Inr ((), t)"
    by (auto simp: add_files_to_index_file_def fold_index)
  have ready: "store_ready s'" using session_get_ready [OF assms(1,2)] by blast
  have "holds_locally t (index_key sha1) ?new"
    using store.put_holds [OF ready set] by simp
  then have "session_get E' (index_key sha1) t = Inr (Some ?new, t)"
    by (rule store.get_held [OF store.inv_put [OF ready set]])
  then show ?thesis
    using names assms(6) by (simp add: get_index_files_def file_exists_def index_contains_iff)
qed

text \<open>A file that is named index replaces the index: after it is written, the listing of the
  files is the list of the text forms of its chunk keys, and no earlier name is left.\<close>

theorem file_named_index:
  assumes "session_ok s" and "chunks_free s"
    and "write_from_file sha1 E sched (Some bytes) ''index'' s = Inr (ok, t)"
  shows "get_index_files sha1 E' t =
    Inr (Some (map (\<lambda>d. bitset_to_string (key_from_data sha1 d)) (read_chunks bytes)), t)"
proof -
  let ?ks = "map (key_from_data sha1) (read_chunks bytes)"
  let ?named = "map (\<lambda>d. (key_from_data sha1 d, d)) (read_chunks bytes)"
  have ready: "store_ready s" using assms(1,2) by (simp add: store_ready_def)
  from assms(3) obtain u where put: "put_all (\<lambda>k d. session_set E k d False) (map (\<lambda>i. ?named ! i) (sched (length (read_chunks bytes)))) s = Inr ((), u)"
    and meta: "session_set E (index_key sha1) (encode_keys ?ks) True u = Inr ((), t)"
    by (auto simp: write_from_file_def Let_def o_def index_key_def)
  have u: "store_ready u" using store.put_all_holds [OF ready put] by blast
  have "holds_locally t (index_key sha1) (encode_keys ?ks)"
    using store.put_holds [OF u meta] by simp
  then have get: "session_get E' (index_key sha1) t = Inr (Some (encode_keys ?ks), t)"
    by (rule store.get_held [OF store.inv_put [OF u meta]])
  have "index_names [] (encode_keys ks) = map bitset_to_string ks" for ks :: "key list"
  proof -
    have "bitset_to_string k \<noteq> []" for k :: key
      using length_bitset_to_string [of k] by (metis len_gt_0 length_greater_0_conv)
    then have "\<forall>file\<in>set (map bitset_to_string ks). file \<noteq> [] \<and> nul \<notin> set file"
      by (simp add: no_nul_in_key)
    from index_names_files [OF this] show ?thesis by (simp add: encode_keys_eq o_def)
  qed
  with get show ?thesis by (simp add: get_index_files_def o_def)
qed

section \<open>Examples\<close>

text \<open>A node that knows one peer, in a network where this peer answers every call.\<close>

definition friend :: rpc_peer where
  "friend = local_to_rpc_peer (sample_peer 1)"

definition friendly_env :: "unit env" where
  "friendly_env =
     \<lparr>rpc_ping = \<lambda>_ _ w. (Some \<lparr>pg_receiver = friend\<rparr>, w),
      rpc_find_node = \<lambda>_ _ w. (Some \<lparr>fn_receiver = friend, fn_closest_peers = []\<rparr>, w),
      rpc_find_value = \<lambda>_ _ w. (Some \<lparr>fv_receiver = friend, fv_found_value = False, fv_data = [], fv_size = 0,
        fv_closest_peers = []\<rparr>, w),
      rpc_store_init = \<lambda>_ _ w. (Some \<lparr>si_receiver = friend, si_continue_store = True\<rparr>, w),
      rpc_store = \<lambda>_ _ w. (Some \<lparr>st_receiver = friend\<rparr>, w),
      now_at = \<lambda>_. 5, clock_at = \<lambda>_ i. int i, rand_at = \<lambda>_ _. 0\<rparr>"

lemma friendly_env_simps [simp]:
  "rpc_find_node friendly_env ep r1 w = (Some \<lparr>fn_receiver = friend, fn_closest_peers = []\<rparr>, w)"
  "rpc_store_init friendly_env ep r2 w = (Some \<lparr>si_receiver = friend, si_continue_store = True\<rparr>, w)"
  "rpc_store friendly_env ep r3 w = (Some \<lparr>st_receiver = friend\<rparr>, w)"
  "now_at friendly_env w = 5"
  by (simp_all add: friendly_env_def)

definition lone_router :: "time \<Rightarrow> router" where
  "lone_router a = \<lparr>self_peer = sample_self, table = Leaf 159 1 a [sample_peer 1]\<rparr>"

definition lone :: "unit session \<Rightarrow> bool" where
  "lone s \<longleftrightarrow> \<not> router_locked s \<and> (\<exists>a. router_of s = lone_router a)"

lemma lone_ok: "lone s \<Longrightarrow> session_ok s"
  by (auto simp: lone_def session_ok_def lone_router_def wf_router_def tree_keys_def sample_self_def sample_peer_def)

lemma lone_refresh: "attempt_insert_peer now 1 ''b:1'' (lone_router a) = ((True, None), lone_router now)"
proof -
  have "insert_loop (Suc 159) now 0 1 ''b:1'' (table (lone_router a)) = (Refreshed, table (lone_router now))"
    unfolding insert_loop.simps by (simp add: lone_router_def sample_peer_def rotate_to_front_def)
  then show ?thesis
    by (simp add: attempt_insert_peer_def lone_router_def sample_self_def)
qed

lemma lone_epilogue:
  assumes "lone s"
  shows "\<exists>t. rpc_caller_epilogue friendly_env friend (s\<lparr>world := w\<rparr>) = Inr ((), t) \<and> lone t"
proof -
  let ?s = "s\<lparr>world := w\<rparr>"
  obtain a where a: "router_of ?s = lone_router a" and l: "lone ?s" using assms by (auto simp: lone_def)
  have "attempt_insert_peer (now_at friendly_env (world ?s)) 1 ''b:1'' (router_of ?s) = ((True, None), lone_router 5)"
    using lone_refresh [of 5 a] a by simp
  from update_peer_inserted [OF lone_ok [OF l] this]
  have "update_peer friendly_env 1 ''b:1'' ?s = Inr ((), ?s\<lparr>router_of := lone_router 5\<rparr>)"
    by (simp add: update_peer_def numeral_2_eq_2)
  with assms show ?thesis by (auto simp: rpc_caller_epilogue_def friend_def sample_peer_def lone_def)
qed

lemma calm_friendly: "calm friendly_env lone"
proof -
  have closest: "lone (after_closest friendly_env k s)" if "lone s" for k s
    using that by (auto simp: lone_def after_closest_def lone_router_def closest_peers_def)
  have node: "\<exists>ok t. find_node friendly_env p k b s = Inr ((ok, b), t) \<and> lone t" if l: "lone s" for p k b s
    using lone_epilogue [OF l, of "world s"] by (auto simp: find_node_def)
  have store: "\<exists>ok t. store friendly_env p c force s = Inr (ok, t) \<and> lone t" if l: "lone s" for p c force s
  proof -
    obtain t where t: "rpc_caller_epilogue friendly_env friend (s\<lparr>world := world s\<rparr>) = Inr ((), t)" "lone t"
      using lone_epilogue [OF l] by blast
    with lone_epilogue [OF t(2), of "world t"] show ?thesis by (auto simp: store_def)
  qed
  have "lone (s\<lparr>chunks := cs\<rparr>)" if "lone s" for s cs using that by (simp add: lone_def)
  with closest node store lone_ok show ?thesis unfolding calm_def by blast
qed

lemma lone_set:
  assumes "lone s" and "chunks_free s"
  shows "\<exists>t. session_set friendly_env k d force s = Inr ((), t) \<and> lone t \<and> chunks_free t"
proof -
  have "known_closest s j \<noteq> []" for j using assms(1) by (auto simp: lone_def lone_router_def)
  then show ?thesis
    unfolding session_set_def by (intro calm_publish [OF calm_friendly assms])
qed

lemma lone_put_all:
  "lone s \<Longrightarrow> chunks_free s \<Longrightarrow>
     \<exists>t. put_all (\<lambda>k d. session_set friendly_env k d False) xs s = Inr ((), t) \<and> lone t \<and> chunks_free t"
proof (induction xs arbitrary: s)
  case (Cons x xs)
  from lone_set [OF Cons.prems, of "fst x" "snd x" False] Cons.IH show ?case by fastforce
qed simp

definition lone_session :: "unit session" where
  "lone_session = sample_session (lone_router 0)"

lemma lone_session_ok [simp]: "lone lone_session" "session_ok lone_session" "chunks_free lone_session"
  using lone_ok [of lone_session] by (auto simp: lone_session_def lone_def sample_session_def)

lemma lone_write:
  "\<exists>t. write_from_file sha1 friendly_env sched (Some bytes) name lone_session = Inr (True, t)"
proof -
  let ?named = "map (\<lambda>d. (key_from_data sha1 d, d)) (read_chunks bytes)"
  obtain u where u: "put_all (\<lambda>k d. session_set friendly_env k d False) (map (\<lambda>i. ?named ! i) (sched (length (read_chunks bytes)))) lone_session
      = Inr ((), u)" "lone u" "chunks_free u"
    using lone_put_all [of lone_session] by auto
  obtain t where "session_set friendly_env (key_from_string sha1 name) (encode_keys (map fst ?named)) True u = Inr ((), t)"
    using lone_set [OF u(2,3)] by blast
  with u(1) show ?thesis by (simp add: write_from_file_def Let_def)
qed

text \<open>A digest of 20 bytes that tells strings of different length apart.\<close>

definition length_digest :: "string \<Rightarrow> 8 word list" where
  "length_digest s = replicate 20 (of_nat (length s))"

lemma length_digest_key:
  "length x < 256 \<Longrightarrow> length y < 256 \<Longrightarrow>
     key_from_data length_digest x = key_from_data length_digest y \<longleftrightarrow> length x = length y"
  by (subst key_from_data_eq_iff)
     (auto simp: length_digest_def replicate_eq_replicate word_unat_eq_iff unat_of_nat)

lemma short_read_chunks: "length data < max_chunk_size \<Longrightarrow> read_chunks data = [data]"
  by (subst read_chunks.simps) simp

theorem metadata_roundtrip_witness: "decode_keys [] (''ab'' @ nul # encode_keys [7, 9]) = Inr [7, 9]"
  using metadata_roundtrip [of "''ab''" "[7, 9]"] by simp

theorem write_then_read_witness:
  "\<exists>t. write_from_file length_digest friendly_env (\<lambda>n. [0..<n]) (Some ''hello'') ''f'' lone_session = Inr (True, t) \<and>
     read_in_files length_digest silent_env (\<lambda>n. [0..<n]) [''f''] t = Inr (Some ''hello'', t)"
proof -
  obtain t where run: "write_from_file length_digest friendly_env (\<lambda>n. [0..<n]) (Some ''hello'') ''f'' lone_session = Inr (True, t)"
    using lone_write by blast
  have chunks: "read_chunks ''hello'' = [''hello'']" by (simp add: short_read_chunks max_chunk_size_def)
  have "read_in_files length_digest silent_env (\<lambda>n. [0..<n]) [''f''] t = Inr (Some ''hello'', t)"
    using write_then_read [OF _ _ run] length_digest_key [of "''f''" "''hello''"]
    by (simp add: chunks key_from_string_def)
  with run show ?thesis by blast
qed

theorem add_files_then_list_witness:
  "\<exists>s t. init_index_file length_digest friendly_env lone_session = Inr (True, s) \<and>
     add_files_to_index_file length_digest friendly_env [''a'', ''bc''] s = Inr (True, t) \<and>
     get_index_files length_digest silent_env t = Inr (Some [''a'', ''bc''], t)"
proof -
  obtain s where s: "session_set friendly_env (index_key length_digest) [] True lone_session = Inr ((), s)"
      "lone s" "chunks_free s"
    using lone_set [of lone_session "index_key length_digest" "[]" True] by auto
  have ready: "store_ready lone_session" by (simp add: store_ready_def)
  have get: "session_get friendly_env (index_key length_digest) s = Inr (Some [], s)"
    by (rule store.get_held [OF store.inv_put [OF ready s(1)]]) (use store.put_holds [OF ready s(1)] in simp)
  obtain t where "session_set friendly_env (index_key length_digest)
      (fold (\<lambda>file b. b @ file @ [nul]) [''a'', ''bc''] []) True s = Inr ((), t)"
    using lone_set [OF s(2,3)] by blast
  with get have add: "add_files_to_index_file length_digest friendly_env [''a'', ''bc''] s = Inr (True, t)"
    by (simp add: add_files_to_index_file_def)
  have "get_index_files length_digest silent_env t = Inr (Some [''a'', ''bc''], t)"
    using add_files_then_list [OF lone_ok [OF s(2)] get add, of "''a''"] by simp
  with s(1) add show ?thesis by (simp add: init_index_file_def)
qed

theorem file_named_index_witness:
  "\<exists>t. write_from_file length_digest friendly_env (\<lambda>n. [0..<n]) (Some ''hello'') ''index'' lone_session = Inr (True, t) \<and>
     get_index_files length_digest silent_env t =
       Inr (Some [bitset_to_string (key_from_data length_digest ''hello'')], t)"
proof -
  obtain t where run: "write_from_file length_digest friendly_env (\<lambda>n. [0..<n]) (Some ''hello'') ''index'' lone_session = Inr (True, t)"
    using lone_write by blast
  with file_named_index [OF _ _ run] show ?thesis
    by (auto simp: short_read_chunks max_chunk_size_def)
qed

end
