(* ===== verification/Pipes.thy ===== *)
theory Pipes
  imports Prelude
begin

text \<open>
  The named pipes between the client and its daemon, from \<open>src/client/daemon.cpp\<close>: the
  system calls on them, and the functions \<open>write_cmd\<close>, \<open>read_cmd\<close>, \<open>write_err\<close> and \<open>read_err\<close>
  on both sides.
\<close>

section \<open>Reading from a pipe\<close>

text \<open>
  What a reader of a FIFO is going to see: the bytes its writers put in and then, when all
  of them have closed it, end of file, where \<open>read\<close> returns 0 and leaves the buffer as it
  is. If \<open>failing\<close>, \<open>read\<close> returns -1 instead; so does a read from a pipe that could not be
  opened, which the code does not check.
\<close>

record in_pipe =
  pending :: string
  failing :: bool

text \<open>\<open>None\<close> is a negative result; the bytes read are at most \<open>n\<close>, none at end of file.\<close>

definition pipe_read :: "nat \<Rightarrow> in_pipe \<Rightarrow> string option \<times> in_pipe" where
  "pipe_read n p =
     (if pending p = [] \<and> failing p then (None, p)
      else (Some (take n (pending p)), p\<lparr>pending := drop n (pending p)\<rparr>))"

text \<open>What the variable holds after a read into it.\<close>

definition store_char :: "string \<Rightarrow> char \<Rightarrow> char" where
  "store_char got old = (case got of [] \<Rightarrow> old | c # _ \<Rightarrow> c)"

text \<open>The bytes of a \<open>pid_t\<close> in memory, the least significant one first.\<close>

definition bytes_of_int :: "32 word \<Rightarrow> string" where
  "bytes_of_int w = map (\<lambda>i. char_of (unat (drop_bit (8 * i) w))) [0..<4]"

definition int_of_bytes :: "string \<Rightarrow> 32 word" where
  "int_of_bytes bs = word_of_nat (horner_sum of_char 256 bs)"

definition store_int :: "string \<Rightarrow> 32 word \<Rightarrow> 32 word" where
  "store_int got old = int_of_bytes (got @ drop (length got) (bytes_of_int old))"

section \<open>Writing to a pipe\<close>

text \<open>
  \<open>sys i n\<close> is the result of the \<open>i\<close>-th call of \<open>write\<close>, for \<open>n\<close> bytes: the number of bytes
  taken, or \<open>None\<close> for -1. A blocking pipe takes all of them; a pipe opened with \<open>O_NONBLOCK\<close>
  takes what fits.
\<close>

record out_pipe =
  written :: string
  writes :: nat

type_synonym write_results = "nat \<Rightarrow> nat \<Rightarrow> nat option"

definition fresh_pipe :: out_pipe where
  "fresh_pipe = \<lparr>written = [], writes = 0\<rparr>"

definition pipe_write :: "write_results \<Rightarrow> string \<Rightarrow> out_pipe \<Rightarrow> nat option \<times> out_pipe" where
  "pipe_write sys bs p =
     (case sys (writes p) (length bs) of
        None \<Rightarrow> (None, p\<lparr>writes := Suc (writes p)\<rparr>)
      | Some n \<Rightarrow> (Some n, \<lparr>written = written p @ take n bs, writes = Suc (writes p)\<rparr>))"

section \<open>The client sends a command\<close>

record command =
  client_id :: "32 word"
  cmd :: char
  argc :: char
  args :: "string list"

text \<open>
  \<open>spdlog::get\<close> returns a null pointer when no logger has the name; the client's functions
  call \<open>error\<close> on the result before they return false.
\<close>

definition client_failure :: "string set \<Rightarrow> 'a \<Rightarrow> cpp_error + (bool \<times> 'a)" where
  "client_failure loggers x = (if ''client_logs'' \<in> loggers then Inr (False, x) else Inl Null_Pointer)"

primrec write_args ::
  "string set \<Rightarrow> write_results \<Rightarrow> string list \<Rightarrow> out_pipe \<Rightarrow> cpp_error + (bool \<times> out_pipe)" where
  "write_args loggers sys [] p = Inr (True, p)"
| "write_args loggers sys (arg # rest) p =
     (let (r, p) = pipe_write sys (arg @ [nul]) p in
      if r = None then client_failure loggers p else write_args loggers sys rest p)"

text \<open>
  \<open>write_cmd\<close>: \<open>opened\<close> tells whether the pipe could be opened; the command holds the client's
  own process id. The first write is only checked for the result 0.
\<close>

definition write_cmd ::
  "string set \<Rightarrow> write_results \<Rightarrow> bool \<Rightarrow> command \<Rightarrow> cpp_error + (bool \<times> out_pipe)" where
  "write_cmd loggers sys opened c =
     (if \<not> opened then client_failure loggers fresh_pipe
      else let (r, p) = pipe_write sys (bytes_of_int (client_id c)) fresh_pipe in
           if r = Some 0 then client_failure loggers p
           else let (r, p) = pipe_write sys [cmd c] p in
                if r = None then client_failure loggers p
                else let (r, p) = pipe_write sys [argc c] p in
                     if r = None then client_failure loggers p
                     else write_args loggers sys (args c) p)"

section \<open>The daemon receives it\<close>

text \<open>
  The loop of \<open>read_cmd\<close>; \<open>buff\<close> is the variable every byte is read into and \<open>cur\<close> the
  argument read so far. The loop may run forever, then the value is \<open>None\<close>.
\<close>

partial_function (option) read_args ::
  "nat \<Rightarrow> char \<Rightarrow> string list \<Rightarrow> string \<Rightarrow> in_pipe \<Rightarrow> (bool \<times> string list \<times> in_pipe) option" where
  "read_args cnt buff as cur p =
     (if length as < cnt
      then let (r, p) = pipe_read 1 p in
           if r = None then Some (False, as, p)
           else let buff = store_char (the r) buff in
                if buff = nul
                then read_args cnt buff (if 0 < length cur then as @ [cur] else as) [] p
                else read_args cnt buff as (cur @ [buff]) p
      else Some (True, as, p))"

text \<open>
  \<open>read_cmd\<close>: the result says whether it returned true, what its reference parameters hold
  then, and what is left in the pipe. \<open>junk\<close> is the initial value of \<open>buff\<close>.
\<close>

definition read_cmd :: "char \<Rightarrow> command \<Rightarrow> in_pipe \<Rightarrow> (bool \<times> command \<times> in_pipe) option" where
  "read_cmd junk c p =
     (let (r, p) = pipe_read 4 p in
      if r = None then Some (False, c, p)
      else let c = c\<lparr>client_id := store_int (the r) (client_id c)\<rparr>; (r, p) = pipe_read 1 p in
           if r = None then Some (False, c, p)
           else let c = c\<lparr>cmd := store_char (the r) (cmd c)\<rparr>; (r, p) = pipe_read 1 p in
                if r = None then Some (False, c, p)
                else let c = c\<lparr>argc := store_char (the r) (argc c)\<rparr> in
                     map_option (\<lambda>(ok, as, p). (ok, c\<lparr>args := as\<rparr>, p))
                       (read_args (of_char (argc c)) junk [] [] p))"

section \<open>The daemon answers\<close>

text \<open>\<open>write_err\<close>; \<open>err\<close> is a bool cast to char. Its error paths log to a logger that exists.\<close>

definition write_err :: "write_results \<Rightarrow> bool \<Rightarrow> char \<Rightarrow> string \<Rightarrow> string \<Rightarrow> bool \<times> out_pipe" where
  "write_err sys opened err err_msg succ_msg =
     (if \<not> opened then (False, fresh_pipe)
      else let (r, p) = pipe_write sys [err] fresh_pipe in
           if r = None then (False, p)
           else let (r, p) = pipe_write sys (err_msg @ [nul]) p in
                if r = None then (False, p)
                else let (r, p) = pipe_write sys (succ_msg @ [nul]) p in
                     if r = None then (False, p) else (True, p))"

section \<open>The client reads the answer\<close>

text \<open>The two loops of \<open>read_err\<close>, which share \<open>buff\<close>.\<close>

partial_function (option) read_message ::
  "char \<Rightarrow> string \<Rightarrow> in_pipe \<Rightarrow> (bool \<times> char \<times> string \<times> in_pipe) option" where
  "read_message buff msg p =
     (let (r, p) = pipe_read 1 p in
      if r = None then Some (False, buff, msg, p)
      else let buff = store_char (the r) buff in
           if buff = nul then Some (True, buff, msg, p)
           else read_message buff (msg @ [buff]) p)"

text \<open>
  \<open>read_err\<close>: \<open>err\<close> and \<open>junk\<close> are the values of the caller's \<open>err\<close> and of \<open>buff\<close> before the
  call. The value is \<open>None\<close> when the call does not return.
\<close>

record answer_msg =
  err :: char
  err_msg :: string
  succ_msg :: string

definition read_err ::
  "string set \<Rightarrow> char \<Rightarrow> answer_msg \<Rightarrow> in_pipe \<Rightarrow> (cpp_error + (bool \<times> answer_msg)) option" where
  "read_err loggers junk a p =
     (let (r, p) = pipe_read 1 p in
      if r = None then Some (client_failure loggers a)
      else let a = a\<lparr>err := store_char (the r) (err a)\<rparr> in
           (case read_message junk (err_msg a) p of
              None \<Rightarrow> None
            | Some (ok, buff, msg, p) \<Rightarrow>
                let a = a\<lparr>err_msg := msg\<rparr> in
                if \<not> ok then Some (client_failure loggers a)
                else (case read_message buff (succ_msg a) p of
                        None \<Rightarrow> None
                      | Some (ok, buff, msg, p) \<Rightarrow>
                          let a = a\<lparr>succ_msg := msg\<rparr> in
                          if \<not> ok then Some (client_failure loggers a) else Some (Inr (True, a)))))"

end
