(* ===== verification/Pipes_Properties.thy ===== *)
theory Pipes_Properties
  imports Pipes
begin

text \<open>
  What the two sides of the pipes understand of each other: the round trips of commands and
  answers, and the byte sequences on which a reader never returns.
\<close>

section \<open>Numbers as bytes\<close>

lemma length_bytes_of_int [simp]: "length (bytes_of_int w) = 4"
  by (simp add: bytes_of_int_def)

lemma four_bytes:
  assumes "n < 2 ^ 32"
  shows "n mod 256 + 256 * (n div 2 ^ 8 mod 256 + 256 * (n div 2 ^ 16 mod 256 + 256 * (n div 2 ^ 24 mod 256))) = (n :: nat)"
proof -
  let ?a = "n div 2 ^ 8" and ?b = "n div 2 ^ 16" and ?c = "n div 2 ^ 24"
  have b: "?b = ?a div 256" and c: "?c = ?b div 256" by (simp_all flip: div_mult2_eq)
  have "?c < 256" using assms by (simp add: div_less_iff_less_mult)
  then have "?c mod 256 = ?c" by simp
  moreover have "?b mod 256 + 256 * ?c = ?b" unfolding c by simp
  moreover have "?a mod 256 + 256 * ?b = ?a" unfolding b by simp
  moreover have "n mod 256 + 256 * ?a = n" by simp
  ultimately show ?thesis by simp
qed

lemma int_of_bytes_of_int [simp]: "int_of_bytes (bytes_of_int w) = w"
proof -
  have upt: "[0..<4] = [0, 1, 2, 3 :: nat]" by (simp add: upt_rec)
  have "bytes_of_int w = map (\<lambda>i. char_of (unat w div 2 ^ (8 * i))) [0..<4]"
    unfolding bytes_of_int_def unat_drop_bit_eq by (simp add: drop_bit_eq_div)
  moreover have "unat w < 2 ^ LENGTH(32)" by (rule unsigned_less)
  ultimately have "horner_sum of_char (256 :: nat) (bytes_of_int w) = unat w"
    using four_bytes [of "unat w"] by (simp add: upt)
  then show ?thesis by (simp add: int_of_bytes_def)
qed

section \<open>Reading bytes one at a time\<close>

lemma pipe_read_more: "0 < n \<Longrightarrow> length bs = n \<Longrightarrow>
    pipe_read n \<lparr>pending = bs @ rest, failing = f\<rparr> = (Some bs, \<lparr>pending = rest, failing = f\<rparr>)"
  by (cases bs) (auto simp: pipe_read_def)

lemma pipe_read_byte [simp]:
  "pipe_read (Suc 0) \<lparr>pending = c # rest, failing = f\<rparr> = (Some [c], \<lparr>pending = rest, failing = f\<rparr>)"
  by (simp add: pipe_read_def)

lemma pipe_read_end [simp]:
  "pipe_read n \<lparr>pending = [], failing = False\<rparr> = (Some [], \<lparr>pending = [], failing = False\<rparr>)"
  by (simp add: pipe_read_def)

lemma store_char_simps [simp]: "store_char [] old = old" "store_char (c # cs) old = c"
  by (simp_all add: store_char_def)

lemma store_int_simps [simp]: "store_int [] old = old" "length bs = 4 \<Longrightarrow> store_int bs old = int_of_bytes bs"
  by (simp_all add: store_int_def)

lemma read_args_done: "cnt \<le> length as \<Longrightarrow> read_args cnt buff as cur p = Some (True, as, p)"
  by (subst read_args.simps) simp

lemma read_args_char:
  "length as < cnt \<Longrightarrow> c \<noteq> nul \<Longrightarrow>
     read_args cnt buff as cur \<lparr>pending = c # cs, failing = f\<rparr> =
     read_args cnt c as (cur @ [c]) \<lparr>pending = cs, failing = f\<rparr>"
  by (subst read_args.simps) simp

lemma read_args_nul:
  "length as < cnt \<Longrightarrow>
     read_args cnt buff as cur \<lparr>pending = nul # cs, failing = f\<rparr> =
     read_args cnt nul (if cur = [] then as else as @ [cur]) [] \<lparr>pending = cs, failing = f\<rparr>"
  by (subst read_args.simps) simp

text \<open>At end of file the loop makes no progress: the last byte read is seen again and again.\<close>

lemma read_args_end:
  assumes "length as < cnt" and "buff = nul \<Longrightarrow> cur = []"
  shows "read_args cnt buff as cur \<lparr>pending = [], failing = False\<rparr> = None"
proof (rule ccontr)
  assume "\<not> ?thesis"
  then obtain y where y: "read_args cnt buff as cur \<lparr>pending = [], failing = False\<rparr> = Some y" by blast
  let ?P = "\<lambda>cnt buff as cur p y. \<not> (p = \<lparr>pending = [], failing = False\<rparr> \<and> length as < cnt \<and> (buff = nul \<longrightarrow> cur = []))"
  have "?P cnt buff as cur \<lparr>pending = [], failing = False\<rparr> y"
    by (rule read_args.raw_induct [where P = ?P, OF _ y]) (auto split: if_splits; blast)
  with assms show False by blast
qed

lemma read_args_word:
  "length as < cnt \<Longrightarrow> nul \<notin> set w \<Longrightarrow>
     read_args cnt buff as cur \<lparr>pending = w @ nul # rest, failing = f\<rparr> =
     read_args cnt nul (if cur @ w = [] then as else as @ [cur @ w]) [] \<lparr>pending = rest, failing = f\<rparr>"
  by (induction w arbitrary: buff cur) (auto simp: read_args_char read_args_nul)

section \<open>Commands\<close>

text \<open>The arguments as they travel.\<close>

definition wire :: "string list \<Rightarrow> string" where
  "wire as = concat (map (\<lambda>a. a @ [nul]) as)"

lemma wire_simps [simp]: "wire [] = []" "wire (a # as) = a @ nul # wire as"
  by (simp_all add: wire_def)

lemma read_args_wire:
  assumes "\<And>a. a \<in> set ws \<Longrightarrow> nul \<notin> set a" and "length as + length (filter (\<lambda>a. a \<noteq> []) ws) < cnt"
  shows "read_args cnt buff as [] \<lparr>pending = wire ws @ rest, failing = f\<rparr> =
    read_args cnt (if ws = [] then buff else nul) (as @ filter (\<lambda>a. a \<noteq> []) ws) [] \<lparr>pending = rest, failing = f\<rparr>"
  using assms
proof (induction ws arbitrary: as buff)
  case (Cons w ws)
  have "length as < cnt" using Cons.prems(2) by (simp split: if_splits)
  with Cons.prems(1) [of w] have "read_args cnt buff as [] \<lparr>pending = wire (w # ws) @ rest, failing = f\<rparr> =
      read_args cnt nul (if w = [] then as else as @ [w]) [] \<lparr>pending = wire ws @ rest, failing = f\<rparr>"
    using read_args_word [of as cnt w buff "[]" "wire ws @ rest" f] by simp
  with Cons.IH [of "if w = [] then as else as @ [w]" nul] Cons.prems show ?case
    by (simp split: if_splits)
qed simp

lemma read_args_complete:
  assumes "\<And>a. a \<in> set ws \<Longrightarrow> a \<noteq> [] \<and> nul \<notin> set a" and "cnt \<le> length as + length ws" and "length as \<le> cnt"
  shows "read_args cnt buff as [] \<lparr>pending = wire ws @ rest, failing = f\<rparr> =
    Some (True, as @ take (cnt - length as) ws, \<lparr>pending = wire (drop (cnt - length as) ws) @ rest, failing = f\<rparr>)"
  using assms
proof (induction ws arbitrary: as buff)
  case Nil
  then show ?case by (simp add: read_args_done)
next
  case (Cons w ws)
  show ?case
  proof (cases "length as = cnt")
    case True
    then show ?thesis by (simp add: read_args_done)
  next
    case False
    then have less: "length as < cnt" using Cons.prems(3) by simp
    have w: "w \<noteq> []" "nul \<notin> set w" using Cons.prems(1) [of w] by simp_all
    have "read_args cnt buff as [] \<lparr>pending = wire (w # ws) @ rest, failing = f\<rparr> =
        read_args cnt nul (as @ [w]) [] \<lparr>pending = wire ws @ rest, failing = f\<rparr>"
      using read_args_word [OF less w(2), of buff "[]" "wire ws @ rest" f] w(1) by simp
    moreover have "cnt - length as = Suc (cnt - Suc (length as))" using less by simp
    ultimately show ?thesis using Cons.IH [of "as @ [w]" nul] Cons.prems less by simp
  qed
qed

text \<open>
  Every write is taken completely: so does a pipe opened for blocking writes, and one that is
  not as long as the bytes fit.
\<close>

definition takes_all :: "write_results \<Rightarrow> bool" where
  "takes_all sys \<longleftrightarrow> (\<forall>i n. sys i n = Some n)"

lemma pipe_write_takes_all [simp]:
  "takes_all sys \<Longrightarrow> pipe_write sys bs p = (Some (length bs), \<lparr>written = written p @ bs, writes = Suc (writes p)\<rparr>)"
  by (simp add: pipe_write_def takes_all_def)

lemma write_args_takes_all:
  "takes_all sys \<Longrightarrow> write_args loggers sys as p =
     Inr (True, \<lparr>written = written p @ wire as, writes = writes p + length as\<rparr>)"
  by (induction as arbitrary: p) simp_all

lemma write_cmd_takes_all:
  "takes_all sys \<Longrightarrow> write_cmd loggers sys True c =
     Inr (True, \<lparr>written = bytes_of_int (client_id c) @ cmd c # argc c # wire (args c), writes = 3 + length (args c)\<rparr>)"
  by (simp add: write_cmd_def write_args_takes_all fresh_pipe_def)

lemma read_cmd_header:
  "read_cmd junk old \<lparr>pending = bytes_of_int i @ c # n # body, failing = f\<rparr> =
     map_option (\<lambda>(ok, as, p). (ok, \<lparr>client_id = i, cmd = c, argc = n, args = as\<rparr>, p))
       (read_args (of_char n) junk [] [] \<lparr>pending = body, failing = f\<rparr>)"
  using pipe_read_more [of 4 "bytes_of_int i" "c # n # body" f]
  by (cases old) (simp add: read_cmd_def option.map_comp comp_def split_beta)



text \<open>A client that opens the pipe and closes it without writing makes the daemon execute its
  previous command again, with no arguments, if that had none; otherwise read_cmd never
  returns.\<close>

theorem vanished_client:
  "read_cmd junk old \<lparr>pending = [], failing = False\<rparr> =
     (if argc old = nul then Some (True, old\<lparr>args := []\<rparr>, \<lparr>pending = [], failing = False\<rparr>) else None)"
proof -
  have "of_char (argc old) = (0 :: nat) \<longleftrightarrow> argc old = nul"
    using of_char_eq_iff [of "argc old" nul, where 'a = nat] by simp
  then show ?thesis
    by (auto simp: read_cmd_def read_args_done read_args_end)
qed

section \<open>Answers\<close>

lemma read_message_byte:
  "c \<noteq> nul \<Longrightarrow> read_message buff msg \<lparr>pending = c # cs, failing = f\<rparr> =
     read_message c (msg @ [c]) \<lparr>pending = cs, failing = f\<rparr>"
  "read_message buff msg \<lparr>pending = nul # cs, failing = f\<rparr> = Some (True, nul, msg, \<lparr>pending = cs, failing = f\<rparr>)"
  by (subst read_message.simps; simp)+

lemma read_message_word:
  "nul \<notin> set w \<Longrightarrow> read_message buff msg \<lparr>pending = w @ nul # rest, failing = f\<rparr> =
     Some (True, nul, msg @ w, \<lparr>pending = rest, failing = f\<rparr>)"
  by (induction w arbitrary: buff msg) (auto simp: read_message_byte)

lemma read_message_end:
  "read_message nul msg \<lparr>pending = [], failing = False\<rparr> = Some (True, nul, msg, \<lparr>pending = [], failing = False\<rparr>)"
  by (subst read_message.simps) simp

lemma read_message_hangs:
  assumes "buff \<noteq> nul"
  shows "read_message buff msg \<lparr>pending = [], failing = False\<rparr> = None"
proof (rule ccontr)
  assume "\<not> ?thesis"
  then obtain y where y: "read_message buff msg \<lparr>pending = [], failing = False\<rparr> = Some y" by blast
  let ?P = "\<lambda>buff msg p y. \<not> (p = \<lparr>pending = [], failing = False\<rparr> \<and> buff \<noteq> nul)"
  have "?P buff msg \<lparr>pending = [], failing = False\<rparr> y"
    by (rule read_message.raw_induct [where P = ?P, OF _ y]) (auto split: if_splits; blast)
  with assms show False by blast
qed

lemma read_message_cut:
  "nul \<notin> set w \<Longrightarrow> w \<noteq> [] \<or> buff \<noteq> nul \<Longrightarrow> read_message buff msg \<lparr>pending = w, failing = False\<rparr> = None"
proof (induction w arbitrary: buff msg)
  case Nil
  then show ?case by (simp add: read_message_hangs)
next
  case (Cons c w)
  then have "c \<noteq> nul" by auto
  with Cons.IH [of c "msg @ [c]"] Cons.prems(1) show ?case by (simp add: read_message_byte(1))
qed

text \<open>C23: The answer of the daemon arrives as it was sent: when all bytes of it are taken, write_err
  reports success and read_err returns the error flag and both messages, for messages
  without NUL bytes.
\<close>

theorem answer_transfer:
  assumes "takes_all sys" and "nul \<notin> set m1" and "nul \<notin> set m2"
    and "write_err sys True e m1 m2 = (ok, p)"
  shows "ok \<and> read_err loggers junk \<lparr>err = e', err_msg = [], succ_msg = []\<rparr> \<lparr>pending = written p, failing = f\<rparr> =
    Some (Inr (True, \<lparr>err = e, err_msg = m1, succ_msg = m2\<rparr>))"
  using assms by (auto simp: write_err_def fresh_pipe_def read_err_def read_message_word)

text \<open>A truncated answer makes the client hang: when only a part of the bytes of an answer
  arrives, as after a short write to the nonblocking pipe, which write_err takes for a
  success, read_err never returns; except when the part ends with the first message, then
  the client takes the second one to be empty.\<close>

theorem truncated_answer:
  assumes "nul \<notin> set m1" and "nul \<notin> set m2" and "junk \<noteq> nul"
    and "strict_prefix bs (e # m1 @ nul # m2 @ [nul])" and "bs \<noteq> []"
  shows "read_err loggers junk \<lparr>err = e', err_msg = [], succ_msg = []\<rparr> \<lparr>pending = bs, failing = False\<rparr> =
    (if bs = e # m1 @ [nul] then Some (Inr (True, \<lparr>err = e, err_msg = m1, succ_msg = []\<rparr>)) else None)"
proof -
  obtain b cs where bcs: "bs = b # cs" using assms(5) by (cases bs) auto
  with assms(4) have bs: "bs = e # cs" and cs: "strict_prefix cs (m1 @ nul # m2 @ [nul])"
    by (simp_all only: strict_prefix_def prefix_Cons list.inject) blast+
  have "prefix cs m1 \<or> (\<exists>us. cs = m1 @ us \<and> prefix us (nul # m2 @ [nul]))"
    using cs by (simp add: strict_prefix_def prefix_append)
  moreover have "us = [] \<or> (\<exists>w. us = nul # w \<and> prefix w m2)"
    if "prefix us (nul # m2 @ [nul])" "cs = m1 @ us" for us
    using that cs by (auto simp: prefix_Cons prefix_snoc strict_prefix_def)
  ultimately have "prefix cs m1 \<or> (\<exists>w. cs = m1 @ nul # w \<and> prefix w m2)"
    by (metis append_Nil2 prefix_order.refl)
  then show ?thesis
  proof
    assume pre: "prefix cs m1"
    then have "nul \<notin> set cs" using assms(1) set_mono_prefix by blast
    then have "read_message junk [] \<lparr>pending = cs, failing = False\<rparr> = None"
      using assms(3) by (intro read_message_cut) auto
    moreover have "cs \<noteq> m1 @ [nul]" using \<open>nul \<notin> set cs\<close> by auto
    ultimately show ?thesis by (simp add: bs read_err_def)
  next
    assume "\<exists>w. cs = m1 @ nul # w \<and> prefix w m2"
    then obtain w where w: "cs = m1 @ nul # w" "prefix w m2" by blast
    then have "nul \<notin> set w" using assms(2) set_mono_prefix by blast
    then show ?thesis using assms(1) w(1)
      by (cases "w = []") (simp_all add: bs read_err_def read_message_word read_message_end read_message_cut)
  qed
qed

section \<open>Examples\<close>

definition sample_command :: "string list \<Rightarrow> command" where
  "sample_command as = \<lparr>client_id = 4711, cmd = CHR 0x04, argc = char_of (length as), args = as\<rparr>"

lemma takes_all_Some [simp]: "takes_all (\<lambda>i. Some)"
  by (simp add: takes_all_def)

lemma write_sample_command:
  "\<exists>p. write_cmd {} (\<lambda>i. Some) True (sample_command as) = Inr (True, p)"
  by (simp add: write_cmd_takes_all)



theorem answer_transfer_witness:
  "\<exists>p. write_err (\<lambda>i. Some) True nul [] ''INDEX'' = (True, p) \<and>
     read_err {} nul \<lparr>err = nul, err_msg = [], succ_msg = []\<rparr> \<lparr>pending = written p, failing = False\<rparr> =
       Some (Inr (True, \<lparr>err = nul, err_msg = [], succ_msg = ''INDEX''\<rparr>))"
proof -
  obtain ok p where p: "write_err (\<lambda>i. Some) True nul [] ''INDEX'' = (ok, p)" by (metis prod.exhaust)
  from answer_transfer [OF takes_all_Some _ _ p, of "{}" nul nul False] p show ?thesis by simp
qed

theorem truncated_answer_witness:
  "read_err {} (CHR ''x'') \<lparr>err = nul, err_msg = [], succ_msg = []\<rparr> \<lparr>pending = nul # nul # ''IND'', failing = False\<rparr> = None"
  using truncated_answer [of "[]" "''INDEX''" "CHR ''x''" "nul # nul # ''IND''" nul "{}" nul]
  by (simp add: strict_prefix_def)

end
