(* ===== verification/Steady.thy ===== *)
theory Steady
  imports Session_Properties
begin

text \<open>
  Lookups in a network where every query succeeds. The locale \<open>steady_queries\<close> is what such a
  network promises for one kind of query; then a lookup always returns, and what it returns
  are all the peers the node knows, if there are at most \<open>KBUCKET_MAX\<close>.
\<close>

lemma query_round_steady:
  assumes "\<And>p q s. P s \<Longrightarrow> p \<in> A \<Longrightarrow> set (closest_buffer q) \<subseteq> A \<Longrightarrow>
      \<exists>new q' t. query_fn E kind k p q s = Inr ((False, q'), t) \<and>
        closest_buffer q' = closest_buffer q @ new \<and> set new \<subseteq> A \<and> P t"
    and "P s" and "set (closest_buffer q) \<subseteq> A"
  shows "\<exists>queried' q' t. query_round E kind k cnt j queried q s = Inr ((False, queried', q'), t) \<and>
    set (closest_buffer q) \<subseteq> set (closest_buffer q') \<and> set (closest_buffer q') \<subseteq> A \<and> P t"
  using assms
proof (induction E kind k cnt j queried q s rule: query_round.induct)
  case (1 E kind k cnt j queried q s)
  let ?p = "closest_buffer q ! j"
  let ?more = "j < length (closest_buffer q) \<and> \<not> cnt \<le> status_ctr q"
  consider "\<not> ?more" | "?more" "pkey ?p \<in> queried" | "?more" "pkey ?p \<notin> queried" by blast
  then show ?case
  proof cases
    case 1
    with "1.prems"(2,3) show ?thesis by (simp add: query_round_done)
  next
    case 2
    show ?thesis
      unfolding query_round_skip [OF 2] by (rule "1.IH"(1) [OF 2(1) refl 2(2) "1.prems"])
  next
    case 3
    have "?p \<in> A" using 3(1) "1.prems"(3) nth_mem by blast
    then obtain new q' t where r: "query_fn E kind k ?p q s = Inr ((False, q'), t)"
      and q': "closest_buffer q' = closest_buffer q @ new" "set new \<subseteq> A" "P t"
      using "1.prems"(1) [OF "1.prems"(2) _ "1.prems"(3)] by blast
    have "set (closest_buffer q') \<subseteq> A" using q' "1.prems"(3) by simp
    from "1.IH"(2) [OF 3(1) refl 3(2) r refl refl not_False_eq_True [THEN iffD2, OF TrueI] "1.prems"(1) q'(3) this]
    obtain queried'' q'' u where
      "query_round E kind k cnt (Suc j) (insert (pkey ?p) queried) q' t = Inr ((False, queried'', q''), u)"
      "set (closest_buffer q') \<subseteq> set (closest_buffer q'')" "set (closest_buffer q'') \<subseteq> A" "P u" by blast
    with q'(1) r show ?thesis by (auto simp: query_round_step [OF 3])
  qed
qed

lemma unique_peers_all:
  assumes "set ps \<subseteq> A" and "inj_on pkey A"
  shows "set (unique_peers {} ps) = set ps"
proof (rule equalityI [OF unique_peers_subset], rule subsetI)
  fix p
  assume p: "p \<in> set ps"
  then have "pkey p \<in> pkey ` set (unique_peers {} ps)" by (simp add: unique_peers_keys)
  then obtain u where u: "u \<in> set (unique_peers {} ps)" "pkey u = pkey p" by auto
  then have "u \<in> set ps" using unique_peers_subset by blast
  then have "u = p" using inj_onD [OF assms(2) u(2)] p assms(1) by blast
  with u show "p \<in> set (unique_peers {} ps)" by simp
qed

lemma take_unique_all:
  assumes "set ps \<subseteq> A" and "inj_on pkey A" and "finite A" and "card A \<le> 20"
  shows "set (take 20 (sort_peers k (unique_peers {} ps))) = set ps"
proof -
  have "length (unique_peers {} ps) = card (set (unique_peers {} ps))"
    using unique_peers_distinct by (metis distinct_card distinct_map)
  also have "\<dots> \<le> 20"
    using card_mono [OF assms(3,1)] assms(4) unique_peers_all [OF assms(1,2)] by simp
  finally show ?thesis using unique_peers_all [OF assms(1,2)] by simp
qed

locale steady_queries =
  fixes E :: "'w env" and kind :: query_kind and k :: key and P :: "'w session \<Rightarrow> bool" and A :: "peer set"
  assumes finite: "P s \<Longrightarrow> finite A" and keys: "P s \<Longrightarrow> inj_on pkey A" and few: "P s \<Longrightarrow> card A \<le> 20"
    and some: "P s \<Longrightarrow> A \<noteq> {}"
    and ok: "P s \<Longrightarrow> session_ok s"
    and start: "P s \<Longrightarrow> P (after_closest E k s) \<and> set (known_closest s k) = A"
    and query: "P s \<Longrightarrow> p \<in> A \<Longrightarrow> set (closest_buffer q) \<subseteq> A \<Longrightarrow>
      \<exists>new q' t. query_fn E kind k p q s = Inr ((False, q'), t) \<and>
        closest_buffer q' = closest_buffer q @ new \<and> set new \<subseteq> A \<and> P t"
begin

lemma lookup_rounds_steady:
  assumes "P s" and "set buffer = A"
  shows "\<exists>buffer' t. lookup_rounds n E kind k queried buffer sz d s = Inr ((buffer', None), t) \<and>
    set buffer' = A \<and> P t"
  using assms
proof (induction n arbitrary: queried buffer sz d s)
  case (Suc n)
  let ?q = "\<lparr>closest_buffer = buffer, status_ctr = 0, found_data = None\<rparr>"
  have "\<exists>queried' q' t. query_round E kind k (min 3 (length buffer)) 0 queried ?q s = Inr ((False, queried', q'), t) \<and>
      set (closest_buffer ?q) \<subseteq> set (closest_buffer q') \<and> set (closest_buffer q') \<subseteq> A \<and> P t"
    by (rule query_round_steady [of P A]) (use query Suc.prems in blast, use Suc.prems in simp_all)
  then obtain queried' q' t where r:
    "query_round E kind k (min 3 (length buffer)) 0 queried ?q s = Inr ((False, queried', q'), t)"
    and q': "set buffer \<subseteq> set (closest_buffer q')" "set (closest_buffer q') \<subseteq> A" and t: "P t"
    by (simp only: query_state.simps) blast
  then have b: "set (select_closest k (closest_buffer q')) = A"
    using take_unique_all [OF q'(2) keys [OF t] finite [OF t] few [OF t], of k] Suc.prems(2) by (auto simp: select_closest_def)
  then have "select_closest k (closest_buffer q') \<noteq> []" using some [OF t] by auto
  with r Suc.IH [OF t b] b t show ?case by (auto simp: Let_def)
qed simp

lemma lookup_steady:
  assumes "P s"
  shows "\<exists>buffer t. lookup_helper E kind k [] s = Inr ((buffer, None), t) \<and> set buffer = A \<and> P t"
  unfolding lookup_helper_eq [OF ok [OF assms]]
  by (rule lookup_rounds_steady) (use start [OF assms] in auto)

end

locale steady_nodes = steady_queries E Node_Query k P A
  for E :: "'w env" and k P A +
  assumes final: "P s \<Longrightarrow> p \<in> A \<Longrightarrow> \<exists>done new t. find_node E p k buffer s = Inr ((done, buffer @ new), t) \<and>
    set new \<subseteq> A \<and> P t"
begin

lemma final_steady:
  assumes "P s" and "set ps \<subseteq> A"
  shows "\<exists>new t. final_queries E k ps buffer s = Inr (buffer @ new, t) \<and> set new \<subseteq> A \<and> P t"
  using assms
proof (induction ps arbitrary: buffer s)
  case (Cons p ps)
  obtain ok new t where r: "find_node E p k buffer s = Inr ((ok, buffer @ new), t)" "set new \<subseteq> A" "P t"
    using final [OF Cons.prems(1), of p buffer] Cons.prems(2) by (simp only: list.set insert_subset) blast
  with Cons.IH [OF r(3), of "buffer @ new"] Cons.prems(2) obtain new' u where
    "final_queries E k ps (buffer @ new) t = Inr ((buffer @ new) @ new', u)" "set new' \<subseteq> A" "P u" by auto
  with r(1,2) show ?case by (intro exI [of _ "new @ new'"] exI [of _ u]) simp
qed simp

lemma node_lookup_steady:
  assumes "P s"
  shows "\<exists>ps t. node_lookup E k [] s = Inr (ps, t) \<and> set ps = A \<and> distinct ps \<and> length ps \<le> 20 \<and> P t"
proof -
  obtain b t where b: "lookup_helper E Node_Query k [] s = Inr ((b, None), t)" "set b = A" "P t"
    using lookup_steady [OF assms] by blast
  obtain new u where u: "final_queries E k b b t = Inr (b @ new, u)" "set new \<subseteq> A" "P u"
    using final_steady [OF b(3)] b(2) by blast
  have all: "set (b @ new) = A" and sub: "set (b @ new) \<subseteq> A" using b(2) u(2) by auto
  let ?ps = "take 20 (sort_peers k (unique_peers {} (b @ new)))"
  have "set ?ps = A" using take_unique_all [OF sub keys [OF assms] finite [OF assms] few [OF assms], of k] all by simp
  moreover have "distinct ?ps"
    using unique_peers_distinct [of "{}" "b @ new"] by (intro distinct_take) (metis distinct_map sort_peers_distinct)
  ultimately show ?thesis using b(1) u by (simp add: node_lookup_def)
qed

end

end
