(* ===== verification/Mesh_Node.thy ===== *)
theory Mesh_Node
  imports Steady Handlers
begin

text \<open>
  A node that knows exactly the other members of a small group: as long as it only hears of
  members its table stays a single kbucket, it never pings and never evicts, and each of its
  handlers answers. The network \<open>V\<close> of the node is any.
\<close>

section \<open>A node whose table is one kbucket\<close>

definition leaf_node :: "peer \<Rightarrow> peer set \<Rightarrow> 'w session \<Rightarrow> bool" where
  "leaf_node me A n \<longleftrightarrow> session_ok n \<and> chunks_free n \<and> self_peer (router_of n) = me \<and>
     is_Leaf (table (router_of n)) \<and> set (tree_peers (table (router_of n))) = A"

lemma leaf_node_bucket:
  assumes "leaf_node me A n"
  obtains b c a kb where "table (router_of n) = Leaf b c a kb" and "set kb = A" and "distinct (map pkey kb)"
    and "length kb = card A" and "length kb \<le> 20"
proof -
  obtain b c a kb where t: "table (router_of n) = Leaf b c a kb"
    using assms by (cases "table (router_of n)") (simp_all add: leaf_node_def)
  with assms have "set kb = A" "distinct (map pkey kb)" "length kb \<le> 20"
    by (simp_all add: leaf_node_def session_ok_def wf_router_def)
  with t that distinct_card [of kb] show thesis by (simp add: distinct_map)
qed

lemma leaf_node_foreign:
  assumes "leaf_node me A n" and "p \<in> A"
  shows "pkey p \<noteq> pkey me" and "endpoint p \<noteq> endpoint me"
proof -
  have "pkey me \<notin> pkey ` A" "\<forall>q\<in>A. endpoint q \<noteq> endpoint me"
    using assms(1) by (auto simp: leaf_node_def session_ok_def wf_router_def tree_keys_def)
  then have "pkey p \<noteq> pkey me \<and> endpoint p \<noteq> endpoint me"
    using assms(2) by (metis image_eqI)
  then show "pkey p \<noteq> pkey me" "endpoint p \<noteq> endpoint me" by simp_all
qed

lemma leaf_node_router:
  assumes "leaf_node me A n" and "wf_router r" and "self_peer r = me" and "is_Leaf (table r)"
    and "set (tree_peers (table r)) = B"
  shows "leaf_node me B (n\<lparr>router_of := r\<rparr>)"
  using assms by (simp add: leaf_node_def session_ok_def)

lemma leaf_node_index:
  assumes "leaf_node me A n" and "p \<in> A"
  obtains b c a kb i where "table (router_of n) = Leaf b c a kb" and "set kb = A" and "distinct kb"
    and "key_index (pkey p) kb = Some i" and "i < length kb" and "kb ! i = p"
proof -
  obtain b c a kb where t: "table (router_of n) = Leaf b c a kb" and kb: "set kb = A" "distinct (map pkey kb)"
    by (rule leaf_node_bucket [OF assms(1)])
  have "p \<in> set kb" using kb assms(2) by simp
  then obtain i where i: "key_index (pkey p) kb = Some i" by (cases "key_index (pkey p) kb") (auto simp: key_index_None)
  then have "i < length kb" "pkey (kb ! i) = pkey p" by (simp_all add: key_index_Some)
  moreover from this have "kb ! i = p" using kb(2) \<open>p \<in> set kb\<close> by (simp add: distinct_map inj_on_def)
  ultimately show thesis using that t i kb by (simp add: distinct_map)
qed

lemma leaf_insert_known:
  assumes "leaf_node me A n" and "p \<in> A"
  shows "\<exists>lru r. attempt_insert_peer now (pkey p) (endpoint p) (router_of n) = ((True, lru), r) \<and>
    leaf_node me A (n\<lparr>router_of := r\<rparr>)"
proof -
  let ?r = "router_of n"
  have wf: "wf_router ?r" and me: "self_peer ?r = me"
    using assms(1) by (simp_all add: leaf_node_def session_ok_def)
  obtain b c a kb i where t: "table ?r = Leaf b c a kb" and kb: "set kb = A" "distinct kb"
    and i: "key_index (pkey p) kb = Some i" and l: "i < length kb" and at: "kb ! i = p"
    by (rule leaf_node_index [OF assms])
  let ?t = "Leaf b c now (rotate_to_front i kb)"
  have "kb[i := (kb ! i)\<lparr>endpoint := endpoint p\<rparr>] = kb"
    using at list_update_id [of kb i] by simp
  then have "insert_loop (Suc 159) now (pkey me) (pkey p) (endpoint p) (table ?r) = (Refreshed, ?t)"
    unfolding insert_loop.simps t using i by simp
  then have ins: "attempt_insert_peer now (pkey p) (endpoint p) ?r = ((True, None), ?r\<lparr>table := ?t\<rparr>)"
    using me leaf_node_foreign [OF assms] by (simp add: attempt_insert_peer_def)
  have "kb ! i # take i kb @ drop (Suc i) kb = rotate_to_front i kb" by (simp add: rotate_to_front_def)
  then have "set (rotate_to_front i kb) = set kb"
    using l id_take_nth_drop [of i kb] by (metis list.set(2) set_append Un_insert_right)
  then have "leaf_node me A (n\<lparr>router_of := ?r\<lparr>table := ?t\<rparr>\<rparr>)"
    using router.inv_insert [OF wf, of now "pkey p" "endpoint p"] kb ins me
    by (intro leaf_node_router [OF assms(1)]) simp_all
  with ins show ?thesis by blast
qed

lemma leaf_insert_new:
  assumes "leaf_node me A n" and "pkey p \<notin> pkey ` A" and "pkey p \<noteq> pkey me" and "endpoint p \<noteq> endpoint me" and "card A < 20"
  shows "\<exists>lru r. attempt_insert_peer now (pkey p) (endpoint p) (router_of n) = ((True, lru), r) \<and>
    leaf_node me (insert p A) (n\<lparr>router_of := r\<rparr>)"
proof -
  let ?r = "router_of n"
  have wf: "wf_router ?r" and me: "self_peer ?r = me"
    using assms(1) by (simp_all add: leaf_node_def session_ok_def)
  obtain b c a kb where t: "table ?r = Leaf b c a kb" and kb: "set kb = A" "length kb = card A"
    by (rule leaf_node_bucket [OF assms(1)])
  let ?t = "Leaf b (c + 1) now (p # kb)"
  have "key_index (pkey p) kb = None" using assms(2) kb by (auto simp: key_index_None)
  then have "insert_loop (Suc 159) now (pkey me) (pkey p) (endpoint p) (table ?r) = (Inserted, ?t)"
    unfolding insert_loop.simps t using assms(5) kb(2) by simp
  then have ins: "attempt_insert_peer now (pkey p) (endpoint p) ?r = ((True, None), ?r\<lparr>table := ?t\<rparr>)"
    using me assms(3,4) by (simp add: attempt_insert_peer_def)
  then have "leaf_node me (insert p A) (n\<lparr>router_of := ?r\<lparr>table := ?t\<rparr>\<rparr>)"
    using router.inv_insert [OF wf, of now "pkey p" "endpoint p"] kb me
    by (intro leaf_node_router [OF assms(1)]) simp_all
  with ins show ?thesis by blast
qed

lemma leaf_insert_self:
  assumes "leaf_node me A n" and "pkey p = pkey me \<or> endpoint p = endpoint me"
  shows "attempt_insert_peer now (pkey p) (endpoint p) (router_of n) = ((True, None), router_of n)"
  using assms by (auto simp: attempt_insert_peer_def leaf_node_def)

lemma leaf_evict:
  assumes "leaf_node me A n" and "p \<in> A"
  shows "leaf_node me (A - {p}) (n\<lparr>router_of := evict_peer (pkey p) (router_of n)\<rparr>)"
proof -
  let ?r = "router_of n"
  have wf: "wf_router ?r" and me: "self_peer ?r = me"
    using assms(1) by (simp_all add: leaf_node_def session_ok_def)
  obtain b c a kb i where t: "table ?r = Leaf b c a kb" and kb: "set kb = A" "distinct kb"
    and i: "key_index (pkey p) kb = Some i" and l: "i < length kb" and at: "kb ! i = p"
    by (rule leaf_node_index [OF assms])
  let ?t = "Leaf b (c - 1) a (take i kb @ drop (Suc i) kb)"
  have "evict_loop (Suc 159) (pkey p) (table ?r) = (True, ?t)"
    unfolding evict_loop.simps t using i by simp
  then have ev: "evict_peer (pkey p) ?r = ?r\<lparr>table := ?t\<rparr>" using leaf_node_foreign(1) [OF assms] me by (simp add: evict_peer_def)
  have "kb = take i kb @ p # drop (Suc i) kb" using id_take_nth_drop [OF l] at by simp
  then have "set (take i kb @ drop (Suc i) kb) = A - {p}"
    using kb by (metis Diff_insert_absorb Un_insert_right distinct_append distinct.simps(2) list.set(2) set_append not_distinct_conv_prefix disjoint_iff Un_iff insert_iff)
  then show ?thesis
    using router.inv_evict [OF wf, of "pkey p"] ev me by (intro leaf_node_router [OF assms(1)]) simp_all
qed

section \<open>Groups and their members\<close>

text \<open>At most \<open>KBUCKET_MAX\<close> members, each with a key and an endpoint of its own.\<close>

definition group :: "peer list \<Rightarrow> bool" where
  "group M \<longleftrightarrow> 2 \<le> length M \<and> length M \<le> 20 \<and> distinct (map pkey M) \<and> distinct (map endpoint M)"

lemma group_keys: "group M \<Longrightarrow> p \<in> set M \<Longrightarrow> q \<in> set M \<Longrightarrow> pkey p = pkey q \<longleftrightarrow> p = q"
  by (auto simp: group_def distinct_map inj_on_def)

lemma group_endpoints: "group M \<Longrightarrow> p \<in> set M \<Longrightarrow> q \<in> set M \<Longrightarrow> endpoint p = endpoint q \<longleftrightarrow> p = q"
  by (auto simp: group_def distinct_map inj_on_def)

lemma group_distinct: "group M \<Longrightarrow> distinct M"
  by (simp add: group_def distinct_map)

definition others :: "peer list \<Rightarrow> peer \<Rightarrow> peer set" where
  "others M me = set M - {me}"

lemma others_finite [simp]: "finite (others M me)"
  by (simp add: others_def)

lemma others_card: "group M \<Longrightarrow> card (others M me) \<le> 20"
  using card_Diff1_le [of "set M" me] card_length [of M] by (simp add: others_def group_def)

lemma others_inj: "group M \<Longrightarrow> inj_on pkey (others M me)"
  by (auto simp: others_def inj_on_def group_keys)

lemma others_nonempty: "group M \<Longrightarrow> me \<in> set M \<Longrightarrow> others M me \<noteq> {}"
proof
  assume g: "group M" and "others M me = {}"
  then have "set M \<subseteq> {me}" by (auto simp: others_def)
  then have "card (set M) \<le> 1" using card_mono [of "{me}" "set M"] by simp
  with g show False using distinct_card [OF group_distinct [OF g]] by (simp add: group_def)
qed

definition knows :: "peer list \<Rightarrow> peer \<Rightarrow> 'w session \<Rightarrow> bool" where
  "knows M me n \<longleftrightarrow> me \<in> set M \<and> leaf_node me (others M me) n"

lemmas knows_defs = knows_def leaf_node_def

lemma knows_chunks [simp]: "knows M me (n\<lparr>chunks := cs\<rparr>) = knows M me n"
  by (simp add: knows_defs session_ok_def)

lemma knows_ok: "knows M me n \<Longrightarrow> session_ok n \<and> chunks_free n \<and> store_ready n"
  by (simp add: knows_defs store_ready_def)

lemma knows_self:
  "knows M me n \<Longrightarrow> self_key n = pkey me" "knows M me n \<Longrightarrow> self_endpoint n = endpoint me"
  "knows M me n \<Longrightarrow> get_self_peer (router_of n) = me" "knows M me n \<Longrightarrow> rpc_caller_prelims n = local_to_rpc_peer me"
  by (simp_all add: knows_defs self_key_def self_endpoint_def get_self_peer_def rpc_caller_prelims_def)

section \<open>The router of a member\<close>

lemma insert_member:
  assumes "group M" and "knows M me n" and "p \<in> set M"
  shows "\<exists>lru r. attempt_insert_peer now (pkey p) (endpoint p) (router_of n) = ((True, lru), r) \<and>
    knows M me (n\<lparr>router_of := r\<rparr>)"
proof -
  have n: "leaf_node me (others M me) n" and me: "me \<in> set M" using assms(2) by (simp_all add: knows_def)
  show ?thesis
  proof (cases "p = me")
    case True
    with leaf_insert_self [OF n, of p] assms(2) show ?thesis by simp
  next
    case False
    then have "p \<in> others M me" using assms(3) by (simp add: others_def)
    from leaf_insert_known [OF n this] me show ?thesis by (auto simp: knows_def)
  qed
qed

lemma update_member:
  assumes "group M" and "knows M me n" and "p \<in> set M"
  shows "\<exists>r. update_peer E (pkey p) (endpoint p) n = Inr ((), n\<lparr>router_of := r\<rparr>) \<and> knows M me (n\<lparr>router_of := r\<rparr>)"
proof -
  obtain lru r where "attempt_insert_peer (now_at E (world n)) (pkey p) (endpoint p) (router_of n) = ((True, lru), r)"
    and "knows M me (n\<lparr>router_of := r\<rparr>)"
    using insert_member [OF assms] by blast
  with update_peer_inserted [of n E] knows_ok [OF assms(2)] show ?thesis
    by (auto simp: update_peer_def numeral_2_eq_2)
qed

lemma leaf_closest:
  assumes "leaf_node me A n"
  shows "set (known_closest n k) = A"
    and "leaf_node me A (n\<lparr>router_of := snd (closest_peers now k 20 (router_of n))\<rparr>)"
proof -
  let ?r = "router_of n"
  obtain b c a kb where t: "table ?r = Leaf b c a kb" and kb: "set kb = A" "length kb \<le> 20"
    by (rule leaf_node_bucket [OF assms])
  then show "set (known_closest n k) = A" by simp
  show "leaf_node me A (n\<lparr>router_of := snd (closest_peers now k 20 ?r)\<rparr>)"
    using router.inv_closest [of ?r now k 20] assms t kb
    by (intro leaf_node_router [OF assms]) (auto simp: leaf_node_def session_ok_def closest_peers_eq)
qed

lemma closest_members:
  assumes "group M" and "knows M me n"
  shows "set (known_closest n k) = others M me"
    and "knows M me (n\<lparr>router_of := snd (closest_peers now k 20 (router_of n))\<rparr>)"
  using leaf_closest [of me "others M me" n] assms(2) by (simp_all add: knows_def)

lemma answer_members:
  assumes "group M" and "knows M me n"
  shows "\<exists>ps r. answer_closest E k n = (ps, n\<lparr>router_of := r\<rparr>) \<and> set ps = others M me \<and> knows M me (n\<lparr>router_of := r\<rparr>)"
  using closest_members [OF assms] by (auto simp: answer_closest_def)

section \<open>The handlers of a member\<close>

lemma member_prelims:
  assumes "group M" and "knows M me n" and "p \<in> set M"
  shows "\<exists>r. rpc_handler_prelims V (local_to_rpc_peer p) n = Inr (local_to_rpc_peer me, n\<lparr>router_of := r\<rparr>) \<and>
    knows M me (n\<lparr>router_of := r\<rparr>)"
  using update_member [OF assms, of V] knows_self(3) by (fastforce simp: rpc_handler_prelims_def)

lemma member_find_node:
  fixes k :: key
  assumes "group M" and "knows M me n" and "p \<in> set M"
  shows "\<exists>ps r. handle_find_node V \<lparr>fn_sender = local_to_rpc_peer p, fn_search_key = bitset_to_string k\<rparr> n =
      Inr (\<lparr>fn_receiver = local_to_rpc_peer me, fn_closest_peers = map local_to_rpc_peer ps\<rparr>, n\<lparr>router_of := r\<rparr>) \<and>
    set ps = others M me \<and> knows M me (n\<lparr>router_of := r\<rparr>)"
proof -
  obtain r where r: "rpc_handler_prelims V (local_to_rpc_peer p) n = Inr (local_to_rpc_peer me, n\<lparr>router_of := r\<rparr>)"
      "knows M me (n\<lparr>router_of := r\<rparr>)"
    using member_prelims [OF assms] by blast
  obtain ps r' where "answer_closest V k (n\<lparr>router_of := r\<rparr>) = (ps, n\<lparr>router_of := r'\<rparr>)" "set ps = others M me"
      "knows M me (n\<lparr>router_of := r'\<rparr>)"
    using answer_members [OF assms(1) r(2), of V k] by auto
  with r(1) knows_ok [OF assms(2)] show ?thesis
    by (intro exI [of _ ps] exI [of _ r']) (simp add: handle_find_node_eq bitset_roundtrip)
qed

lemma member_find_value:
  fixes k :: key
  assumes "group M" and "knows M me n" and "p \<in> set M"
  shows "\<exists>ps r. handle_find_value V \<lparr>fv_sender = local_to_rpc_peer p, fv_search_key = bitset_to_string k\<rparr> n =
      Inr (case map_of (chunks n) k of
             Some c \<Rightarrow> \<lparr>fv_receiver = local_to_rpc_peer me, fv_found_value = True, fv_data = chunk_data c,
                        fv_size = of_nat (length (chunk_data c)), fv_closest_peers = []\<rparr>
           | None \<Rightarrow> \<lparr>fv_receiver = local_to_rpc_peer me, fv_found_value = False, fv_data = [], fv_size = 0,
                      fv_closest_peers = map local_to_rpc_peer ps\<rparr>, n\<lparr>router_of := r\<rparr>) \<and>
    set ps = others M me \<and> knows M me (n\<lparr>router_of := r\<rparr>)"
proof -
  obtain r where r: "rpc_handler_prelims V (local_to_rpc_peer p) n = Inr (local_to_rpc_peer me, n\<lparr>router_of := r\<rparr>)"
      "knows M me (n\<lparr>router_of := r\<rparr>)"
    using member_prelims [OF assms] by blast
  obtain ps r' where a: "answer_closest V k (n\<lparr>router_of := r\<rparr>) = (ps, n\<lparr>router_of := r'\<rparr>)" "set ps = others M me"
      "knows M me (n\<lparr>router_of := r'\<rparr>)"
    using answer_members [OF assms(1) r(2), of V k] by auto
  show ?thesis
  proof (cases "map_of (chunks n) k")
    case None
    with r(1) a knows_ok [OF assms(2)] show ?thesis
      by (intro exI [of _ ps] exI [of _ r']) (simp add: handle_find_value_eq bitset_roundtrip)
  next
    case (Some c)
    with r a(2) knows_ok [OF assms(2)] show ?thesis
      by (intro exI [of _ ps] exI [of _ r]) (simp add: handle_find_value_eq bitset_roundtrip)
  qed
qed

lemma member_store_init:
  fixes k :: key
  assumes "group M" and "knows M me n" and "p \<in> set M"
  shows "\<exists>r. handle_store_init V \<lparr>si_sender = local_to_rpc_peer p, si_chunk_key = bitset_to_string k\<rparr> n =
      Inr (\<lparr>si_receiver = local_to_rpc_peer me, si_continue_store = (map_of (chunks n) k = None)\<rparr>, n\<lparr>router_of := r\<rparr>) \<and>
    knows M me (n\<lparr>router_of := r\<rparr>)"
  using member_prelims [OF assms, of V] knows_ok [OF assms(2)]
  by (auto simp: handle_store_init_eq bitset_roundtrip)

lemma member_store:
  fixes k :: key
  assumes "group M" and "knows M me n" and "p \<in> set M" and "length data < 2 ^ 31"
  shows "\<exists>c r. handle_store V \<lparr>st_sender = local_to_rpc_peer p, st_chunk_key = bitset_to_string k, st_data = data,
        st_size = of_nat (length data), st_original_publish = w\<rparr> n =
      Inr (\<lparr>st_receiver = local_to_rpc_peer me\<rparr>, n\<lparr>router_of := r, chunks := AList.update k c (chunks n)\<rparr>) \<and>
    chunk_data c = data \<and> knows M me (n\<lparr>router_of := r, chunks := AList.update k c (chunks n)\<rparr>)"
proof -
  obtain r where r: "rpc_handler_prelims V (local_to_rpc_peer p) n = Inr (local_to_rpc_peer me, n\<lparr>router_of := r\<rparr>)"
      "knows M me (n\<lparr>router_of := r\<rparr>)"
    using member_prelims [OF assms(1-3)] by blast
  let ?rq = "\<lparr>st_sender = local_to_rpc_peer p, st_chunk_key = bitset_to_string k, st_data = data,
      st_size = of_nat (length data), st_original_publish = w\<rparr>"
  have "copy_bytes data (of_nat (length data)) = Inr data"
    using copy_bytes_size [of data] assms(4) by simp
  then show ?thesis
    using r knows_ok [OF assms(2)]
    by (intro exI [of _ "stored_chunk V ?rq k data (n\<lparr>router_of := r\<rparr>)"] exI [of _ r])
       (simp add: handle_store_eq bitset_roundtrip, simp add: stored_chunk_def new_chunk_def)
qed

end
