(* ===== verification/Network.thy ===== *)
theory Network
  imports Lookup
begin

text \<open>
  What the calls of a session do to the network. The locale \<open>world_relation\<close> is the
  interface between a session and its environment: a relation that every query of another
  node respects is respected by every operation that only queries, whatever it computes.
\<close>

text \<open>\<open>moves R s m\<close>: when \<open>m\<close>, started in \<open>s\<close>, returns, it took the world along \<open>R\<close>.\<close>

definition moves :: "('w \<Rightarrow> 'w \<Rightarrow> bool) \<Rightarrow> 'w session \<Rightarrow> ('w, 'a) outcome \<Rightarrow> bool" where
  "moves R s m \<longleftrightarrow> (case m of Inl e \<Rightarrow> True | Inr (x, t) \<Rightarrow> R (world s) (world t))"

lemma movesD: "moves R s m \<Longrightarrow> m = Inr (x, t) \<Longrightarrow> R (world s) (world t)"
  by (simp add: moves_def)

lemma moves_Inl [simp]: "moves R s (Inl e)"
  by (simp add: moves_def)

lemma moves_Inr [simp]: "moves R s (Inr (x, t)) \<longleftrightarrow> R (world s) (world t)"
  by (simp add: moves_def)

lemma world_unlock_router [simp]: "world (unlock_router s) = world s"
  by (simp add: unlock_router_def)

lemma world_lock_router: "lock_router s = Inr (x, t) \<Longrightarrow> world t = world s"
  by (auto simp: lock_router_def split: if_splits)

text \<open>A round of queries moves the world as its queries do.\<close>

lemma query_round_moves:
  assumes "\<And>p q s. moves R s (query_fn E kind k p q s)" and "reflp R" and "transp R"
  shows "moves R s (query_round E kind k cnt j queried q s)"
  using assms(1)
proof (induction E kind k cnt j queried q s rule: query_round.induct)
  case (1 E kind k cnt j queried q s)
  let ?p = "closest_buffer q ! j"
  let ?more = "j < length (closest_buffer q) \<and> \<not> cnt \<le> status_ctr q"
  consider "\<not> ?more" | "?more" "pkey ?p \<in> queried" | "?more" "pkey ?p \<notin> queried" by blast
  then show ?case
  proof cases
    case 1
    with assms(2) show ?thesis by (simp add: query_round_done reflpD)
  next
    case 2
    show ?thesis
      unfolding query_round_skip [OF 2] by (rule "1.IH"(1) [OF 2(1) refl 2(2) "1.prems"])
  next
    case 3
    show ?thesis
    proof (cases "query_fn E kind k ?p q s")
      case (Inl e)
      then show ?thesis by (simp add: query_round_step [OF 3])
    next
      case (Inr x)
      then obtain h q' t where r: "query_fn E kind k ?p q s = Inr ((h, q'), t)" by (metis prod.exhaust)
      have t: "R (world s) (world t)" by (rule movesD [OF "1.prems" r])
      show ?thesis
      proof (cases h)
        case True
        with r t show ?thesis by (simp add: query_round_step [OF 3])
      next
        case False
        have "moves R t (query_round E kind k cnt (Suc j) (insert (pkey ?p) queried) q' t)"
          by (rule "1.IH"(2) [OF 3(1) refl 3(2) r refl refl False "1.prems"])
        with t False r transpD [OF assms(3)] show ?thesis
          by (auto simp: query_round_step [OF 3] moves_def split: sum.splits)
      qed
    qed
  qed
qed

locale world_relation =
  fixes E :: "'w env" and R :: "'w \<Rightarrow> 'w \<Rightarrow> bool"
  assumes refl: "R w w"
    and trans: "R u v \<Longrightarrow> R v w \<Longrightarrow> R u w"
    and ping_moves: "rpc_ping E ep r1 w = (a1, w') \<Longrightarrow> R w w'"
    and find_node_moves: "rpc_find_node E ep r2 w = (a2, w') \<Longrightarrow> R w w'"
    and find_value_moves: "rpc_find_value E ep r3 w = (a3, w') \<Longrightarrow> R w w'"
begin

lemma moves_and_then:
  assumes "moves R s m" and "\<And>x t. m = Inr (x, t) \<Longrightarrow> moves R t (f (x, t))"
  shows "moves R s (and_then m f)"
proof (cases m)
  case (Inr y)
  then obtain x t where y: "m = Inr (x, t)" by (cases y) auto
  have "R (world s) (world t)" by (rule movesD [OF assms(1) y])
  with assms(2) [OF y] y trans show ?thesis
    by (auto simp: moves_def split: sum.splits)
qed simp

lemma moves_parse: "(\<And>x. m = Inr x \<Longrightarrow> moves R s (f x)) \<Longrightarrow> moves R s (and_then m f)"
  by (cases m) auto

lemma moves_same: "world t = world s \<Longrightarrow> moves R t m \<Longrightarrow> moves R s m"
  by (auto simp: moves_def split: sum.splits)

lemma ping_keeps: "moves R s (ping E p s)"
  by (auto simp: ping_def Let_def moves_def split: prod.split option.split sum.split
      dest: ping_moves intro!: moves_parse)

lemma lock_keeps: "moves R s (lock_router s)"
  using refl by (auto simp: lock_router_def)

lemma update_peer_loop_keeps: "moves R s (update_peer_loop n E k ep s)"
proof (induction n arbitrary: s)
  case (Suc n)
  have again: "moves R t (and_then (lock_router t) (\<lambda>(_, s).
      let s = unlock_router (s\<lparr>router_of := evict_peer k' (router_of s)\<rparr>);
          s = s\<lparr>dead_peers := dead_peers s + 1\<rparr>
      in update_peer_loop n E k ep s))" for t k'
    by (rule moves_and_then [OF lock_keeps]) (auto simp: Let_def intro: moves_same [OF _ Suc.IH])
  show ?case
    unfolding update_peer_loop.simps
    by (rule moves_and_then [OF lock_keeps])
       (auto simp: Let_def refl split: prod.split option.split
        intro!: moves_and_then [OF moves_same [OF _ ping_keeps]] again [unfolded Let_def])
qed (simp add: update_peer_loop.simps)

lemma update_peer_keeps: "moves R s (update_peer E k ep s)"
  by (simp add: update_peer_def update_peer_loop_keeps)

lemma epilogue_keeps: "moves R s (rpc_caller_epilogue E rp s)"
  by (auto simp: rpc_caller_epilogue_def intro!: moves_parse update_peer_keeps)

lemma add_closest_keeps: "moves R s (add_closest_peers E rps buffer s)"
proof (induction rps arbitrary: buffer s)
  case (Cons rp rps)
  then show ?case by (auto intro!: moves_parse moves_and_then [OF update_peer_keeps])
qed (simp add: refl)

lemma find_node_keeps: "moves R s (find_node E p k buffer s)"
proof -
  have "moves R s (and_then (rpc_caller_epilogue E rp (s\<lparr>world := w\<rparr>)) (\<lambda>(_, s).
      and_then (add_closest_peers E rps buffer s) (\<lambda>(buffer, s). Inr ((True, buffer), s))))"
    if "R (world s) w" for rp rps w
  proof -
    have "moves R (s\<lparr>world := w\<rparr>) (and_then (rpc_caller_epilogue E rp (s\<lparr>world := w\<rparr>)) (\<lambda>(_, s).
        and_then (add_closest_peers E rps buffer s) (\<lambda>(buffer, s). Inr ((True, buffer), s))))"
      by (auto intro!: moves_and_then [OF epilogue_keeps] moves_and_then [OF add_closest_keeps] simp: refl)
    with that trans show ?thesis by (auto simp: moves_def split: sum.splits)
  qed
  then show ?thesis
    by (auto simp: find_node_def Let_def split: prod.split option.split dest: find_node_moves)
qed

lemma find_value_keeps: "moves R s (find_value E p k buffer s)"
proof -
  have rest: "moves R t (if b then and_then (copy_bytes d sz) (\<lambda>data. Inr ((True, buffer, Some data), t))
      else and_then (add_closest_peers E rps buffer t) (\<lambda>(buffer, s). Inr ((True, buffer, None), s)))"
    for t b d sz rps
  proof (cases b)
    case True
    then show ?thesis by (auto intro!: moves_parse simp: refl)
  next
    case False
    then show ?thesis by (auto intro!: moves_and_then [OF add_closest_keeps] simp: refl)
  qed
  have "moves R s (and_then (rpc_caller_epilogue E rp (s\<lparr>world := w\<rparr>)) (\<lambda>(_, s).
      if b then and_then (copy_bytes d sz) (\<lambda>data. Inr ((True, buffer, Some data), s))
      else and_then (add_closest_peers E rps buffer s) (\<lambda>(buffer, s). Inr ((True, buffer, None), s))))"
    if "R (world s) w" for rp rps w b d sz
  proof -
    have "moves R (s\<lparr>world := w\<rparr>) (and_then (rpc_caller_epilogue E rp (s\<lparr>world := w\<rparr>)) (\<lambda>(_, s).
        if b then and_then (copy_bytes d sz) (\<lambda>data. Inr ((True, buffer, Some data), s))
        else and_then (add_closest_peers E rps buffer s) (\<lambda>(buffer, s). Inr ((True, buffer, None), s))))"
      by (rule moves_and_then [OF epilogue_keeps]) (simp only: prod.case rest)
    with that trans show ?thesis by (auto simp: moves_def split: sum.splits)
  qed
  then show ?thesis
    by (auto simp: find_value_def Let_def split: prod.split option.split dest: find_value_moves)
qed

lemma query_fn_keeps: "moves R s (query_fn E kind k p q s)"
  by (cases kind)
     (auto simp: query_fn_def refl intro!: moves_and_then [OF find_node_keeps] moves_and_then [OF find_value_keeps])

lemma query_round_keeps: "moves R s (query_round E kind k cnt j queried q s)"
  by (rule query_round_moves) (auto simp: query_fn_keeps refl intro: reflpI transpI trans)

lemma lookup_rounds_keeps: "moves R s (lookup_rounds n E kind k queried buffer sz d s)"
proof (induction n arbitrary: queried buffer sz d s)
  case (Suc n)
  show ?case
    unfolding lookup_rounds.simps
    by (rule moves_and_then [OF query_round_keeps]) (auto simp: Let_def refl Suc.IH)
qed (simp add: refl)

lemma lookup_helper_keeps: "moves R s (lookup_helper E kind k buffer s)"
  unfolding lookup_helper_def
  by (rule moves_and_then [OF lock_keeps])
     (auto simp: Let_def split: prod.split intro: moves_same [OF _ lookup_rounds_keeps])

lemma final_queries_keeps: "moves R s (final_queries E k ps buffer s)"
  by (induction ps arbitrary: buffer s) (auto simp: refl intro!: moves_and_then [OF find_node_keeps])

lemma node_lookup_keeps: "moves R s (node_lookup E k buffer s)"
  unfolding node_lookup_def
  by (rule moves_and_then [OF lookup_helper_keeps])
     (auto simp: refl intro!: moves_and_then [OF final_queries_keeps])

end

end
