(* ===== verification/Two_Nodes.thy ===== *)
theory Two_Nodes
  imports Network Session_Properties
begin

text \<open>
  Two sessions connected to each other: the environment of the one is the other, which
  answers the calls to its endpoint with its own handlers. What is stored on the one side
  is found on the other.
\<close>

section \<open>The network of one other node\<close>

text \<open>
  A handler that ends in an exception is a call that is not answered. \<open>V\<close> is the environment
  of the other node.
\<close>

definition answer :: "('v, 'r) outcome \<Rightarrow> 'v session \<Rightarrow> 'r option \<times> 'v session" where
  "answer m w = (case m of Inl e \<Rightarrow> (None, w) | Inr (r, w') \<Rightarrow> (Some r, w'))"

definition peer_env :: "'v env \<Rightarrow> ('v session) env" where
  "peer_env V =
     \<lparr>rpc_ping = \<lambda>ep rq w. if ep = self_endpoint w then answer (handle_ping V rq w) w else (None, w),
      rpc_find_node = \<lambda>ep rq w. if ep = self_endpoint w then answer (handle_find_node V rq w) w else (None, w),
      rpc_find_value = \<lambda>ep rq w. if ep = self_endpoint w then answer (handle_find_value V rq w) w else (None, w),
      rpc_store_init = \<lambda>ep rq w. if ep = self_endpoint w then answer (handle_store_init V rq w) w else (None, w),
      rpc_store = \<lambda>ep rq w. if ep = self_endpoint w then answer (handle_store V rq w) w else (None, w),
      now_at = \<lambda>w. now_at V (world w), clock_at = \<lambda>w. clock_at V (world w),
      rand_at = \<lambda>w. rand_at V (world w)\<rparr>"

lemma peer_env_simps [simp]:
  "rpc_ping (peer_env V) ep r1 w = (if ep = self_endpoint w then answer (handle_ping V r1 w) w else (None, w))"
  "rpc_find_node (peer_env V) ep r2 w = (if ep = self_endpoint w then answer (handle_find_node V r2 w) w else (None, w))"
  "rpc_find_value (peer_env V) ep r3 w = (if ep = self_endpoint w then answer (handle_find_value V r3 w) w else (None, w))"
  "rpc_store_init (peer_env V) ep r4 w = (if ep = self_endpoint w then answer (handle_store_init V r4 w) w else (None, w))"
  "rpc_store (peer_env V) ep r5 w = (if ep = self_endpoint w then answer (handle_store V r5 w) w else (None, w))"
  by (simp_all add: peer_env_def)

text \<open>Answering queries keeps the other node: its invariant, its identity and its chunks.\<close>

definition other_keeps :: "'v session \<Rightarrow> 'v session \<Rightarrow> bool" where
  "other_keeps w w' \<longleftrightarrow> (store_ready w \<longrightarrow> keeps w w')"

lemma other_keeps_ready: "other_keeps w w' \<Longrightarrow> store_ready w \<Longrightarrow> store_ready w' \<and> keeps w w'"
  by (auto simp: other_keeps_def store_ready_def keeps_def)

lemma answer_keeps:
  assumes "\<And>r t. store_ready w \<Longrightarrow> m = Inr (r, t) \<Longrightarrow> keeps w t" and "answer m w = (a, w')"
  shows "other_keeps w w'"
  using assms by (cases m) (auto simp: answer_def other_keeps_def store_ready_def keeps_refl)

lemma handle_find_node_keeps:
  "session_ok w \<Longrightarrow> handle_find_node V rq w = Inr (r, t) \<Longrightarrow> keeps w t"
  by (rule handle_find_node_runs) (auto dest: answer_closest_keeps(1) [OF keeps_ok] intro: keeps_trans)

lemma handle_find_value_keeps:
  "store_ready w \<Longrightarrow> handle_find_value V rq w = Inr (r, t) \<Longrightarrow> keeps w t"
  unfolding store_ready_def by (rule handle_find_value_runs) (auto intro: keeps_trans)

lemma handle_ping_keeps: "session_ok w \<Longrightarrow> handle_ping V rq w = Inr (r, t) \<Longrightarrow> keeps w t"
  by (auto simp: handle_ping_def dest: handler_prelims_result(1))

interpretation peer_net: world_relation "peer_env V" other_keeps for V :: "'v env"
proof unfold_locales
  show "other_keeps w w" for w :: "'v session"
    by (auto simp: other_keeps_def store_ready_def keeps_refl)
  show "other_keeps u w" if "other_keeps u v" "other_keeps v w" for u v w :: "'v session"
    using that other_keeps_ready [OF that(1)] by (auto simp: other_keeps_def intro: keeps_trans)
  have refl: "other_keeps w w" for w :: "'v session"
    by (auto simp: other_keeps_def store_ready_def keeps_refl)
  show "other_keeps w w'" if "rpc_ping (peer_env V) ep r1 w = (a1, w')" for ep r1 w a1 w'
    using that refl
    by (auto split: if_splits intro: answer_keeps [OF handle_ping_keeps] simp: store_ready_def)
  show "other_keeps w w'" if "rpc_find_node (peer_env V) ep r2 w = (a2, w')" for ep r2 w a2 w'
    using that refl
    by (auto split: if_splits intro: answer_keeps [OF handle_find_node_keeps] simp: store_ready_def)
  show "other_keeps w w'" if "rpc_find_value (peer_env V) ep r3 w = (a3, w')" for ep r3 w a3 w'
    using that refl
    by (auto split: if_splits intro: answer_keeps [OF handle_find_value_keeps])
qed

section \<open>Calls between the two nodes\<close>

text \<open>No answer to a ping is malformed.\<close>

definition pings_well_formed :: "'w env \<Rightarrow> bool" where
  "pings_well_formed E \<longleftrightarrow> (\<forall>ep rq w r w'. rpc_ping E ep rq w = (Some r, w') \<longrightarrow>
     (\<exists>k :: key. bitset_of_string (rpc_key (pg_receiver r)) = Inr k))"

lemma ping_total: "pings_well_formed E \<Longrightarrow> ping E p s \<noteq> Inl e"
  by (fastforce simp: ping_def pings_well_formed_def Let_def split: prod.splits option.splits)

lemma update_peer_total:
  assumes "pings_well_formed E" and "session_ok s"
  shows "\<exists>t. update_peer E k ep s = Inr ((), t) \<and> keeps s t"
proof -
  have two: "update_peer E k ep s = update_peer_loop (Suc (Suc 0)) E k ep s"
    by (simp add: update_peer_def numeral_2_eq_2)
  show ?thesis
    unfolding two by (rule update_peer_cases [OF assms(2), of E k ep]) (use ping_total [OF assms(1)] in auto)
qed

lemma handler_prelims_total:
  assumes "pings_well_formed E" and "session_ok s"
  shows "\<exists>t. rpc_handler_prelims E (local_to_rpc_peer p) s =
    Inr (local_to_rpc_peer (self_peer (router_of s)), t) \<and> keeps s t"
proof -
  obtain t where t: "update_peer E (pkey p) (endpoint p) s = Inr ((), t)" "keeps s t"
    using update_peer_total [OF assms] by blast
  then show ?thesis by (auto simp: rpc_handler_prelims_def get_self_peer_def keeps_def)
qed

lemma peer_env_well_formed: "pings_well_formed (peer_env V)"
  by (auto simp: pings_well_formed_def answer_def handle_ping_def rpc_handler_prelims_def local_to_rpc_peer_def
      bitset_roundtrip split: if_splits sum.splits)

lemma epilogue_total:
  assumes "session_ok s"
  shows "\<exists>t. rpc_caller_epilogue (peer_env V) (local_to_rpc_peer p) s = Inr ((), t) \<and> keeps s t \<and>
    other_keeps (world s) (world t)"
proof -
  obtain t where t: "update_peer (peer_env V) (pkey p) (endpoint p) s = Inr ((), t)" "keeps s t"
    using update_peer_total [OF peer_env_well_formed assms] by blast
  moreover have "other_keeps (world s) (world t)"
    by (rule movesD [OF peer_net.update_peer_keeps t(1)])
  ultimately show ?thesis by (simp add: rpc_caller_epilogue_def)
qed

text \<open>The selectors of a session whose world is a session itself.\<close>

lemma session_selectors [simp]:
  "world (s\<lparr>router_of := r\<rparr>) = world s" "world (s\<lparr>chunks := cs\<rparr>) = world s"
  "world (s\<lparr>chunks_locked := b\<rparr>) = world s" "world (s\<lparr>world := w\<rparr>) = w"
  "chunks (s\<lparr>chunks_locked := b\<rparr>) = chunks s"
  "router_of (s\<lparr>world := w\<rparr>) = router_of s" "router_locked (s\<lparr>world := w\<rparr>) = router_locked s"
  by simp_all

text \<open>Both nodes are ready, and the other node stays the same one.\<close>

definition both_ready :: "('v session) session \<Rightarrow> bool" where
  "both_ready s \<longleftrightarrow> session_ok s \<and> store_ready (world s)"

lemma both_readyI:
  "both_ready s \<Longrightarrow> keeps s t \<Longrightarrow> other_keeps (world s) (world t) \<Longrightarrow>
     both_ready t \<and> self_endpoint (world t) = self_endpoint (world s)"
  using other_keeps_ready [of "world s" "world t"]
  by (auto simp: both_ready_def keeps_ok dest: keeps_self(2))

lemma store_init_answered:
  fixes k :: key
  assumes "pings_well_formed V" and "store_ready w" and "ep = self_endpoint w"
  shows "\<exists>continue u. rpc_store_init (peer_env V) ep
      \<lparr>si_sender = local_to_rpc_peer p, si_chunk_key = bitset_to_string k\<rparr> w =
    (Some \<lparr>si_receiver = local_to_rpc_peer (self_peer (router_of w)), si_continue_store = continue\<rparr>, u) \<and> keeps w u"
proof -
  have w: "session_ok w" "chunks_free w" using assms(2) by (simp_all add: store_ready_def)
  from handler_prelims_total [OF assms(1) w(1), of p] show ?thesis
    using assms(3) by (auto simp: handle_store_init_eq [OF w] answer_def bitset_roundtrip)
qed

lemma store_answered:
  assumes "pings_well_formed V" and "store_ready w" and "ep = self_endpoint w" and "length data < 2 ^ 31"
  shows "\<exists>u a. rpc_store (peer_env V) ep
      \<lparr>st_sender = local_to_rpc_peer p, st_chunk_key = bitset_to_string k, st_data = data,
       st_size = of_nat (length data), st_original_publish = n\<rparr> w = (Some a, u) \<and>
    store_ready u \<and> self_endpoint u = self_endpoint w \<and> holds_locally u k data"
proof -
  have w: "session_ok w" "chunks_free w" using assms(2) by (simp_all add: store_ready_def)
  let ?rq = "\<lparr>st_sender = local_to_rpc_peer p, st_chunk_key = bitset_to_string k, st_data = data,
      st_size = of_nat (length data), st_original_publish = n\<rparr>"
  obtain t where t: "rpc_handler_prelims V (local_to_rpc_peer p) w =
      Inr (local_to_rpc_peer (self_peer (router_of w)), t)" "keeps w t"
    using handler_prelims_total [OF assms(1) w(1)] by blast
  let ?u = "t\<lparr>chunks := AList.update k (stored_chunk V ?rq k data t) (chunks t)\<rparr>"
  have copy: "copy_bytes data (of_nat (length data)) = Inr data"
    using copy_bytes_size [of data] assms(4) by simp
  have "handle_store V ?rq w = Inr (\<lparr>st_receiver = local_to_rpc_peer (self_peer (router_of w))\<rparr>, ?u)"
    using t(1) copy by (simp add: handle_store_eq [OF w] bitset_roundtrip)
  moreover have "store_ready ?u" "self_endpoint ?u = self_endpoint w"
    using t(2) w(2) by (simp_all add: store_ready_def keeps_def session_ok_def self_endpoint_def get_self_peer_def)
  moreover have "holds_locally ?u k data"
    by (simp add: holds_locally_def update_conv' stored_chunk_def new_chunk_def)
  ultimately show ?thesis using assms(3) by (simp add: answer_def)
qed

lemma store_delivers:
  assumes V: "pings_well_formed V" and both: "both_ready s" and ep: "endpoint p = self_endpoint (world s)"
    and len: "length (chunk_data c) < 2 ^ 31"
  shows "\<exists>t. store (peer_env V) p c True s = Inr (True, t) \<and> keeps s t \<and> both_ready t \<and>
    self_endpoint (world t) = self_endpoint (world s) \<and> holds_locally (world t) (chunk_key c) (chunk_data c)"
proof -
  let ?self = "get_self_peer (router_of s)" and ?k = "chunk_key c" and ?d = "chunk_data c"
  have s: "session_ok s" "store_ready (world s)" using both by (simp_all add: both_ready_def)
  let ?receiver = "local_to_rpc_peer (self_peer (router_of (world s)))"
  obtain cont u where init: "rpc_store_init (peer_env V) (endpoint p)
      \<lparr>si_sender = rpc_caller_prelims s, si_chunk_key = bitset_to_string ?k\<rparr> (world s) =
      (Some \<lparr>si_receiver = ?receiver, si_continue_store = cont\<rparr>, u)" "keeps (world s) u"
    using store_init_answered [OF V s(2) ep] unfolding rpc_caller_prelims_def by metis
  have k1: "keeps s (s\<lparr>world := u\<rparr>)" using s(1) by (simp add: keeps_world keeps_refl)
  obtain t where t: "rpc_caller_epilogue (peer_env V) ?receiver (s\<lparr>world := u\<rparr>) = Inr ((), t)"
      "keeps (s\<lparr>world := u\<rparr>) t" "other_keeps u (world t)"
    using epilogue_total [OF keeps_ok [OF k1]] by fastforce
  have b1: "both_ready (s\<lparr>world := u\<rparr>)" "self_endpoint u = self_endpoint (world s)"
    using both_readyI [OF both k1] init(2) by (simp_all add: other_keeps_def)
  then have b2: "both_ready t" "self_endpoint (world t) = self_endpoint (world s)"
    using both_readyI [OF b1(1) t(2)] t(3) by simp_all
  obtain v a where v: "rpc_store (peer_env V) (endpoint p)
      \<lparr>st_sender = rpc_caller_prelims t, st_chunk_key = bitset_to_string ?k, st_data = ?d,
       st_size = of_nat (length ?d), st_original_publish = to_seconds (original_publish c)\<rparr> (world t) = (Some a, v)"
      "store_ready v" "self_endpoint v = self_endpoint (world t)" "holds_locally v ?k ?d"
    using store_answered [OF V, of "world t" "endpoint p" ?d] b2 ep len
    unfolding rpc_caller_prelims_def both_ready_def by metis
  have k2: "keeps t (t\<lparr>world := v\<rparr>)" using b2(1) by (simp add: keeps_world keeps_refl both_ready_def)
  obtain x where x: "rpc_caller_epilogue (peer_env V) ?receiver (t\<lparr>world := v\<rparr>) = Inr ((), x)"
      "keeps (t\<lparr>world := v\<rparr>) x" "other_keeps v (world x)"
    using epilogue_total [OF keeps_ok [OF k2]] by fastforce
  have "both_ready (t\<lparr>world := v\<rparr>)" using keeps_ok [OF k2] v(2) by (simp add: both_ready_def)
  from both_readyI [OF this x(2)] x(3) have b3: "both_ready x" "self_endpoint (world x) = self_endpoint v"
    by simp_all
  have "holds_locally (world x) ?k ?d"
    using other_keeps_ready [OF x(3) v(2)] v(4) by (simp add: holds_locally_def keeps_def)
  moreover have "store (peer_env V) p c True s = Inr (True, x)"
    using init(1) t(1) v(1) x(1) by (simp add: store_def)
  moreover have "keeps s x" using k1 t(2) k2 x(2) by (meson keeps_trans)
  ultimately show ?thesis using b2(2) b3 v(3) by auto
qed

lemma store_elsewhere:
  assumes "both_ready s" and "endpoint p \<noteq> self_endpoint (world s)"
  shows "\<exists>t. store (peer_env V) p c True s = Inr (False, t) \<and> keeps s t \<and> world t = world s"
proof -
  have "keeps s (s\<lparr>world := world s\<rparr>)" using assms(1) by (simp add: keeps_world keeps_refl both_ready_def)
  from keeps_evict [OF this, of "pkey p"] assms(2) show ?thesis by (simp add: store_def Let_def)
qed

lemma store_closest_delivers:
  assumes V: "pings_well_formed V" and "both_ready s" and len: "length (chunk_data c) < 2 ^ 31"
    and "store_closest (peer_env V) c True ps d s = Inr (d', t)"
    and "(\<exists>p\<in>set ps. endpoint p = self_endpoint (world s)) \<or> holds_locally (world s) (chunk_key c) (chunk_data c)"
  shows "both_ready t \<and> holds_locally (world t) (chunk_key c) (chunk_data c)"
  using assms(2,4,5)
proof (induction ps arbitrary: d s)
  case (Cons p ps)
  show ?case
  proof (cases "endpoint p = self_endpoint (world s)")
    case True
    obtain u where "store (peer_env V) p c True s = Inr (True, u)" "both_ready u"
      "holds_locally (world u) (chunk_key c) (chunk_data c)"
      using store_delivers [OF V Cons.prems(1) True len] by blast
    with Cons show ?thesis by auto
  next
    case False
    obtain u where u: "store (peer_env V) p c True s = Inr (False, u)" "keeps s u" "world u = world s"
      using store_elsewhere [OF Cons.prems(1) False] by blast
    then have "both_ready u" using Cons.prems(1) by (simp add: both_ready_def keeps_ok)
    with Cons.IH [of u] Cons.prems u False show ?thesis by auto
  qed
qed auto

section \<open>What one node sets the other one gets\<close>


lemma find_value_answered:
  assumes V: "pings_well_formed V" and both: "both_ready s" and ep: "endpoint p = self_endpoint (world s)"
    and held: "holds_locally (world s) k d" and len: "length d < 2 ^ 31"
  shows "\<exists>t. find_value (peer_env V) p k buffer s = Inr ((True, buffer, Some d), t)"
proof -
  let ?w = "world s" and ?rq = "\<lparr>fv_sender = rpc_caller_prelims s, fv_search_key = bitset_to_string k\<rparr>"
  let ?receiver = "local_to_rpc_peer (self_peer (router_of ?w))"
  have w: "session_ok ?w" "chunks_free ?w" using both by (simp_all add: both_ready_def store_ready_def)
  obtain u where u: "rpc_handler_prelims V (rpc_caller_prelims s) ?w = Inr (?receiver, u)" "keeps ?w u"
    using handler_prelims_total [OF V w(1)] unfolding rpc_caller_prelims_def by blast
  obtain c where c: "map_of (chunks u) k = Some c" "chunk_data c = d"
    using held u(2) by (auto simp: holds_locally_def keeps_def)
  have answer: "rpc_find_value (peer_env V) (endpoint p) ?rq ?w =
      (Some \<lparr>fv_receiver = ?receiver, fv_found_value = True, fv_data = d, fv_size = of_nat (length d),
             fv_closest_peers = []\<rparr>, u)"
    using u(1) c ep by (simp add: handle_find_value_eq [OF w] bitset_roundtrip answer_def)
  have "session_ok (s\<lparr>world := u\<rparr>)" using both by (simp add: both_ready_def session_ok_def)
  then obtain t where "rpc_caller_epilogue (peer_env V) ?receiver (s\<lparr>world := u\<rparr>) = Inr ((), t)"
    using epilogue_total by blast
  moreover have "copy_bytes d (of_nat (length d)) = Inr d"
    using copy_bytes_size [of d] len by simp
  ultimately show ?thesis
    unfolding find_value_def answer by simp
qed

lemma value_lookup_first_hit:
  assumes "session_ok s" and "known_closest s k \<noteq> []"
    and hit: "find_value E (hd (sort_peers k (known_closest s k))) k (sort_peers k (known_closest s k))
      (after_closest E k s) = Inr ((True, buffer, Some d), t)"
  shows "value_lookup E k s = Inr (Some d, t)"
proof -
  let ?ps = "sort_peers k (known_closest s k)" and ?s = "after_closest E k s"
  let ?q = "\<lparr>closest_buffer = ?ps, status_ctr = 0, found_data = None\<rparr>"
  have ne: "?ps \<noteq> []"
    using assms(2) length_sort_peers [of k "known_closest s k"] by (metis length_0_conv)
  then have more: "0 < length (closest_buffer ?q) \<and> \<not> min 3 (length ?ps) \<le> status_ctr ?q"
    using assms(2) by simp
  have "query_fn E Value_Query k (closest_buffer ?q ! 0) ?q ?s =
      Inr ((True, ?q\<lparr>closest_buffer := buffer, status_ctr := 1, found_data := Some d\<rparr>), t)"
    using hit ne by (simp add: query_fn_def hd_conv_nth)
  then have "query_round E Value_Query k (min 3 (length ?ps)) 0 {} ?q ?s =
      Inr ((True, {}, ?q\<lparr>closest_buffer := buffer, status_ctr := 1, found_data := Some d\<rparr>), t)"
    by (subst query_round_step [OF more]) simp_all
  then have "lookup_rounds (Suc 159) E Value_Query k {} ?ps 0 m ?s = Inr ((buffer, Some d), t)" for m
    unfolding lookup_rounds.simps by simp
  then show ?thesis
    by (simp add: value_lookup_def lookup_helper_eq [OF assms(1)])
qed


section \<open>Examples\<close>

text \<open>
  A node and a peer of it that know nobody but each other. The peer of a router that knows
  at most this peer is always taken in, without a ping.
\<close>

lemma update_peer_only:
  assumes "session_ok s" and "contacts (router_of s) \<subseteq>\<^sub>m [k \<mapsto> ep]"
    and "k \<noteq> self_key s" and "ep \<noteq> self_endpoint s"
  shows "\<exists>r. update_peer E k ep s = Inr ((), s\<lparr>router_of := r\<rparr>) \<and> keeps s (s\<lparr>router_of := r\<rparr>) \<and>
    contacts r = [k \<mapsto> ep]"
proof -
  have wf: "wf_router (router_of s)" using assms(1) by (simp add: session_ok_def)
  have other: "k \<noteq> pkey (self_peer (router_of s))" "ep \<noteq> endpoint (self_peer (router_of s))"
    using assms(3,4) by (simp_all add: self_key_def self_endpoint_def get_self_peer_def)
  obtain ok lru r where ins: "attempt_insert_peer (now_at E (world s)) k ep (router_of s) = ((ok, lru), r)"
    by (metis prod.exhaust)
  have ok
  proof (rule ccontr)
    assume "\<not> ok"
    with ins router.insert_full [OF wf, of "now_at E (world s)" k ep lru r] obtain p :: peer where
      p: "contacts (router_of s) k = None" "contacts (router_of s) (pkey p) = Some (endpoint p)" by auto
    have "dom (contacts (router_of s)) \<subseteq> {k}" using map_le_implies_dom_le [OF assms(2)] by simp
    moreover have "pkey p \<in> dom (contacts (router_of s))" using p(2) by auto
    ultimately have "pkey p = k" by blast
    with p show False by simp
  qed
  with ins have ins: "attempt_insert_peer (now_at E (world s)) k ep (router_of s) = ((True, lru), r)" by simp
  have "contacts r = (contacts (router_of s))(k \<mapsto> ep)" by (rule router.insert_ok [OF wf ins other])
  also have "\<dots> = [k \<mapsto> ep]" using assms(2) by (fastforce simp: map_le_def dom_def)
  finally have "contacts r = [k \<mapsto> ep]" .
  moreover have "keeps s (s\<lparr>router_of := r\<rparr>)"
    using router.inv_insert [OF wf, of "now_at E (world s)" k ep]
      router.self_insert [of "now_at E (world s)" k ep "router_of s"] ins
    by (intro keeps_router keeps_refl assms(1)) simp_all
  ultimately show ?thesis
    using update_peer_inserted [OF assms(1) ins] by (auto simp: update_peer_def numeral_2_eq_2)
qed

definition guest :: "'v session \<Rightarrow> bool" where
  "guest w \<longleftrightarrow> store_ready w \<and> self_peer (router_of w) = sample_peer 1 \<and>
     contacts (router_of w) \<subseteq>\<^sub>m [0 \<mapsto> ''a:1'']"

definition host :: "('v session) session \<Rightarrow> bool" where
  "host s \<longleftrightarrow> session_ok s \<and> self_peer (router_of s) = sample_self \<and>
     contacts (router_of s) \<subseteq>\<^sub>m [1 \<mapsto> ''b:1''] \<and> guest (world s)"

lemma guest_prelims:
  assumes "guest w"
  shows "\<exists>u. rpc_handler_prelims V (local_to_rpc_peer sample_self) w = Inr (local_to_rpc_peer (sample_peer 1), u) \<and>
    guest u"
proof -
  have w: "session_ok w" "contacts (router_of w) \<subseteq>\<^sub>m [0 \<mapsto> ''a:1'']"
      "(0 :: key) \<noteq> self_key w" "''a:1'' \<noteq> self_endpoint w"
    using assms by (auto simp: guest_def store_ready_def self_key_def self_endpoint_def get_self_peer_def sample_peer_def)
  obtain r where r: "update_peer V 0 ''a:1'' w = Inr ((), w\<lparr>router_of := r\<rparr>)" "keeps w (w\<lparr>router_of := r\<rparr>)"
      "contacts r = [0 \<mapsto> ''a:1'']"
    using update_peer_only [OF w] by blast
  have "guest (w\<lparr>router_of := r\<rparr>)"
    using assms r(2,3) by (auto simp: guest_def store_ready_def keeps_def)
  with r(1,2) assms show ?thesis
    by (auto simp: rpc_handler_prelims_def sample_self_def get_self_peer_def guest_def keeps_def)
qed

lemma host_epilogue:
  assumes "host s"
  shows "\<exists>t. rpc_caller_epilogue (peer_env V) (local_to_rpc_peer (sample_peer 1)) s = Inr ((), t) \<and> host t"
proof -
  have s: "session_ok s" "contacts (router_of s) \<subseteq>\<^sub>m [1 \<mapsto> ''b:1'']"
      "(1 :: key) \<noteq> self_key s" "''b:1'' \<noteq> self_endpoint s"
    using assms by (auto simp: host_def self_key_def self_endpoint_def get_self_peer_def sample_self_def)
  obtain r where r: "update_peer (peer_env V) 1 ''b:1'' s = Inr ((), s\<lparr>router_of := r\<rparr>)" "keeps s (s\<lparr>router_of := r\<rparr>)"
      "contacts r = [1 \<mapsto> ''b:1'']"
    using update_peer_only [OF s] by blast
  have "host (s\<lparr>router_of := r\<rparr>)"
    using assms r(2,3) by (auto simp: host_def keeps_def)
  with r(1) show ?thesis by (auto simp: rpc_caller_epilogue_def sample_peer_def)
qed

lemma host_sender: "host s \<Longrightarrow> rpc_caller_prelims s = local_to_rpc_peer sample_self"
  by (simp add: host_def rpc_caller_prelims_def get_self_peer_def)

lemma host_world: "host s \<Longrightarrow> guest w \<Longrightarrow> host (s\<lparr>world := w\<rparr>)"
  by (simp add: host_def session_ok_def)

lemma host_evict:
  assumes "host s"
  shows "host (s\<lparr>router_of := evict_peer k (router_of s)\<rparr>)"
proof -
  have "wf_router (router_of s)" using assms by (simp add: host_def session_ok_def)
  then have "contacts (evict_peer k (router_of s)) \<subseteq>\<^sub>m [1 \<mapsto> ''b:1'']"
    using assms by (auto simp: router.evict_contacts host_def map_le_def split: if_splits)
  with assms \<open>wf_router _\<close> show ?thesis
    by (simp add: host_def session_ok_def router.inv_evict router.self_evict)
qed

lemma host_find_node:
  assumes "host s"
  shows "\<exists>ok t. find_node (peer_env V) p k buffer s = Inr ((ok, buffer), t) \<and> host t"
proof (cases "endpoint p = self_endpoint (world s)")
  case False
  have "host (s\<lparr>world := world s\<rparr>)" using assms by (simp add: host_world host_def)
  from host_evict [OF this, of "pkey p"] False show ?thesis by (simp add: find_node_def) blast
next
  case True
  have g: "guest (world s)" using assms by (simp add: host_def)
  obtain u where u: "rpc_handler_prelims V (local_to_rpc_peer sample_self) (world s) =
      Inr (local_to_rpc_peer (sample_peer 1), u)" "guest u"
    using guest_prelims [OF g] by blast
  obtain ps v where v: "answer_closest V k u = (ps, v)" by fastforce
  have ok: "session_ok u" using u(2) by (simp add: guest_def store_ready_def)
  have "guest v"
    using answer_closest_keeps [OF ok v] u(2) by (simp add: guest_def store_ready_def keeps_def)
  have own: "pkey p = 0" if "p \<in> set ps" for p
    using answer_closest_contacts(1) [OF ok v that] u(2) by (auto simp: guest_def map_le_def split: if_splits)
  have "rpc_find_node (peer_env V) (endpoint p)
      \<lparr>fn_sender = rpc_caller_prelims s, fn_search_key = bitset_to_string k\<rparr> (world s) =
      (Some \<lparr>fn_receiver = local_to_rpc_peer (sample_peer 1), fn_closest_peers = map local_to_rpc_peer ps\<rparr>, v)"
    using True u(1) v g by (simp add: host_sender [OF assms] answer_def handle_find_node_eq guest_def
        store_ready_def bitset_roundtrip)
  moreover obtain t where t: "rpc_caller_epilogue (peer_env V) (local_to_rpc_peer (sample_peer 1)) (s\<lparr>world := v\<rparr>)
      = Inr ((), t)" "host t"
    using host_epilogue [OF host_world [OF assms \<open>guest v\<close>]] by blast
  moreover have "add_closest_peers (peer_env V) (map local_to_rpc_peer ps) buffer t = Inr (buffer, t)"
  proof -
    have "self_key t = 0" using t(2) by (simp add: host_def self_key_def get_self_peer_def sample_self_def)
    with own show ?thesis by (induction ps) auto
  qed
  ultimately have "find_node (peer_env V) p k buffer s = Inr ((True, buffer), t)" by (simp add: find_node_def)
  with t(2) show ?thesis by blast
qed

lemma guest_endpoint: "guest w \<Longrightarrow> self_endpoint w = ''b:1''"
  by (simp add: guest_def self_endpoint_def get_self_peer_def sample_peer_def)

lemma guest_store:
  assumes "guest w"
  shows "\<exists>a u. rpc_store (peer_env V) ep
      \<lparr>st_sender = local_to_rpc_peer sample_self, st_chunk_key = bitset_to_string (k :: key), st_data = data,
       st_size = sz, st_original_publish = n\<rparr> w = (a, u) \<and> guest u"
proof -
  let ?rq = "\<lparr>st_sender = local_to_rpc_peer sample_self, st_chunk_key = bitset_to_string k, st_data = data,
      st_size = sz, st_original_publish = n\<rparr>"
  have w: "session_ok w" "chunks_free w" using assms by (simp_all add: guest_def store_ready_def)
  obtain u where u: "rpc_handler_prelims V (local_to_rpc_peer sample_self) w =
      Inr (local_to_rpc_peer (sample_peer 1), u)" "guest u"
    using guest_prelims [OF assms] by blast
  have "guest (u\<lparr>chunks := cs\<rparr>)" for cs
    using u(2) by (simp add: guest_def store_ready_def session_ok_def)
  then have "\<exists>a v. answer (handle_store V ?rq w) w = (a, v) \<and> guest v"
    using u(1) assms by (cases "copy_bytes data sz") (simp_all add: handle_store_eq [OF w] answer_def bitset_roundtrip)
  with assms show ?thesis by simp
qed

lemma host_store:
  assumes "host s"
  shows "\<exists>ok t. store (peer_env V) p c force s = Inr (ok, t) \<and> host t"
proof (cases "endpoint p = self_endpoint (world s)")
  case False
  have "host (s\<lparr>world := world s\<rparr>)" using assms by (simp add: host_world host_def)
  from host_evict [OF this, of "pkey p"] False show ?thesis by (simp add: store_def) blast
next
  case True
  have g: "guest (world s)" using assms by (simp add: host_def)
  then have w: "session_ok (world s)" "chunks_free (world s)" by (simp_all add: guest_def store_ready_def)
  obtain u where u: "rpc_handler_prelims V (local_to_rpc_peer sample_self) (world s) =
      Inr (local_to_rpc_peer (sample_peer 1), u)" "guest u"
    using guest_prelims [OF g] by blast
  then obtain cont where init: "rpc_store_init (peer_env V) (endpoint p)
      \<lparr>si_sender = rpc_caller_prelims s, si_chunk_key = bitset_to_string (chunk_key c)\<rparr> (world s) =
      (Some \<lparr>si_receiver = local_to_rpc_peer (sample_peer 1), si_continue_store = cont\<rparr>, u)"
    using True by (simp add: host_sender [OF assms] answer_def handle_store_init_eq [OF w] bitset_roundtrip)
  have h: "host (s\<lparr>world := u\<rparr>)" by (rule host_world [OF assms u(2)])
  obtain t where t: "rpc_caller_epilogue (peer_env V) (local_to_rpc_peer (sample_peer 1)) (s\<lparr>world := u\<rparr>)
      = Inr ((), t)" "host t"
    using host_epilogue [OF h] by blast
  have gt: "guest (world t)" using t(2) by (simp add: host_def)
  obtain a v where v: "rpc_store (peer_env V) (endpoint p)
      \<lparr>st_sender = rpc_caller_prelims t, st_chunk_key = bitset_to_string (chunk_key c), st_data = chunk_data c,
       st_size = of_nat (length (chunk_data c)), st_original_publish = to_seconds (original_publish c)\<rparr> (world t)
      = (a, v)" "guest v"
    using guest_store [OF gt] unfolding host_sender [OF t(2)] by blast
  have h2: "host (t\<lparr>world := v\<rparr>)" by (rule host_world [OF t(2) v(2)])
  obtain x where x: "rpc_caller_epilogue (peer_env V) (local_to_rpc_peer (sample_peer 1)) (t\<lparr>world := v\<rparr>)
      = Inr ((), x)" "host x"
    using host_epilogue [OF h2] by blast
  show ?thesis
    unfolding store_def init Let_def prod.case option.case
    using t x h h2 v(1) by (cases a) (simp_all del: peer_env_simps, blast+)
qed

lemma calm_host: "calm (peer_env V) host"
proof -
  have closest: "host (after_closest (peer_env V) k s)" if h: "host s" for k s
  proof -
    have ok: "session_ok s" using h by (simp add: host_def)
    from after_closest_keeps [OF ok, of "peer_env V" k] h show ?thesis
      by (simp add: host_def keeps_def after_closest_def router.contacts_closest)
  qed
  have "host (s\<lparr>chunks := cs\<rparr>)" if "host s" for s cs using that by (simp add: host_def session_ok_def)
  moreover have "session_ok s" if "host s" for s :: "'a session session" using that by (simp add: host_def)
  ultimately show ?thesis
    unfolding calm_def using closest host_find_node host_store by blast
qed

definition guest_session :: "unit session" where
  "guest_session =
     \<lparr>dying = False, router_of = \<lparr>self_peer = sample_peer 1, table = Leaf 159 0 0 []\<rparr>, router_locked = False,
      chunks = [(7, new_chunk 0 7 ''stored'' True 0)], chunks_locked = False, dead_peers = 0, world = ()\<rparr>"

definition host_session :: "unit session session" where
  "host_session =
     \<lparr>dying = False, router_of = \<lparr>self_peer = sample_self, table = Leaf 159 1 0 [sample_peer 1]\<rparr>, router_locked = False,
      chunks = [], chunks_locked = False, dead_peers = 0, world = guest_session\<rparr>"

lemma guest_session_ok [simp]: "guest guest_session" "store_ready guest_session"
  by (simp_all add: guest_def guest_session_def store_ready_def session_ok_def wf_router_def tree_keys_def contacts_def)

lemma host_session_ok [simp]: "host host_session" "session_ok host_session" "world host_session = guest_session"
  "chunks_free host_session" "known_closest host_session k = [sample_peer 1]"
  by (auto simp: host_def host_session_def session_ok_def wf_router_def tree_keys_def contacts_def
      sample_self_def sample_peer_def map_le_def)

lemma silent_well_formed: "pings_well_formed silent_env"
  by (simp add: pings_well_formed_def)



end
