(* ===== verification/Cluster.thy ===== *)
theory Cluster
  imports Two_Nodes Files
begin

text \<open>
  The sessions of one client process, as \<open>src/client/cmd.cpp\<close> keeps them: a list of sessions
  that are each other's network. An operation of one of them runs with the others as its
  environment, which answer with the handlers of \<open>Rpc\<close>.
\<close>

section \<open>Sessions as each other's network\<close>

text \<open>The first session with the given endpoint.\<close>

fun node_index :: "string \<Rightarrow> 'v session list \<Rightarrow> nat option" where
  "node_index ep [] = None"
| "node_index ep (n # ns) = (if self_endpoint n = ep then Some 0 else map_option Suc (node_index ep ns))"

text \<open>
  A call goes to the session with the endpoint, or leaves the process; what is outside is
  the world of the first session. An operation runs while the list is not empty.
\<close>

definition call_node ::
  "('q \<Rightarrow> 'v session \<Rightarrow> ('v, 'r) outcome) \<Rightarrow> (string \<Rightarrow> 'q \<Rightarrow> 'v \<Rightarrow> 'r option \<times> 'v) \<Rightarrow>
     string \<Rightarrow> 'q \<Rightarrow> 'v session list \<Rightarrow> 'r option \<times> 'v session list" where
  "call_node handler outside ep rq ns =
     (case node_index ep ns of
        Some j \<Rightarrow> let (a, n) = answer (handler rq (ns ! j)) (ns ! j) in (a, ns[j := n])
      | None \<Rightarrow> let (a, w) = outside ep rq (world (hd ns)) in (a, ns[0 := (hd ns)\<lparr>world := w\<rparr>]))"

text \<open>
  \<open>V\<close> is the network of a session while it answers (it may ping the least recently used peer
  of a full kbucket then), and of the process.
\<close>

definition cluster_env :: "'v env \<Rightarrow> ('v session list) env" where
  "cluster_env V =
     \<lparr>rpc_ping = call_node (handle_ping V) (rpc_ping V),
      rpc_find_node = call_node (handle_find_node V) (rpc_find_node V),
      rpc_find_value = call_node (handle_find_value V) (rpc_find_value V),
      rpc_store_init = call_node (handle_store_init V) (rpc_store_init V),
      rpc_store = call_node (handle_store V) (rpc_store V),
      now_at = \<lambda>ns. now_at V (world (hd ns)), clock_at = \<lambda>ns. clock_at V (world (hd ns)),
      rand_at = \<lambda>ns. rand_at V (world (hd ns))\<rparr>"

lemma cluster_env_simps [simp]:
  "rpc_ping (cluster_env V) = call_node (handle_ping V) (rpc_ping V)"
  "rpc_find_node (cluster_env V) = call_node (handle_find_node V) (rpc_find_node V)"
  "rpc_find_value (cluster_env V) = call_node (handle_find_value V) (rpc_find_value V)"
  "rpc_store_init (cluster_env V) = call_node (handle_store_init V) (rpc_store_init V)"
  "rpc_store (cluster_env V) = call_node (handle_store V) (rpc_store V)"
  by (simp_all add: cluster_env_def)

section \<open>Running an operation on one session\<close>

text \<open>
  \<open>enter i ns\<close> is session \<open>i\<close> with the sessions as its world, \<open>leave i s\<close> puts its state
  back into the list. While it runs, the list holds its state from before; nobody calls it
  then, since a router never holds the endpoint of its own node.
\<close>

definition enter :: "nat \<Rightarrow> 'v session list \<Rightarrow> ('v session list) session" where
  "enter i ns =
     (let n = ns ! i in
      \<lparr>dying = dying n, router_of = router_of n, router_locked = router_locked n, chunks = chunks n,
       chunks_locked = chunks_locked n, dead_peers = dead_peers n, world = ns\<rparr>)"

definition leave :: "nat \<Rightarrow> ('v session list) session \<Rightarrow> 'v session list" where
  "leave i s =
     (world s)[i := \<lparr>dying = dying s, router_of = router_of s, router_locked = router_locked s,
       chunks = chunks s, chunks_locked = chunks_locked s, dead_peers = dead_peers s,
       world = world (world s ! i)\<rparr>]"

definition on_node ::
  "nat \<Rightarrow> (('v session list) session \<Rightarrow> ('v session list, 'a) outcome) \<Rightarrow> 'v session list \<Rightarrow>
     cpp_error + ('a \<times> 'v session list)" where
  "on_node i f ns = and_then (f (enter i ns)) (\<lambda>(x, s). Inr (x, leave i s))"

end
