(* ===== verification/Mesh.thy ===== *)
theory Mesh
  imports Mesh_Node Cluster
begin

text \<open>
  A cluster whose sessions all know each other. As long as it has at most \<open>KBUCKET_MAX\<close> sessions
  no call fails, and the cluster behaves like one shared map from keys to data: what is set
  through any session is what every session gets.
\<close>

section \<open>A session and the rest of the cluster\<close>

definition meshed :: "peer list \<Rightarrow> nat \<Rightarrow> ('v session list) session \<Rightarrow> bool" where
  "meshed M i s \<longleftrightarrow> i < length M \<and> knows M (M ! i) s \<and> length (world s) = length M \<and>
     (\<forall>j<length M. self_endpoint (world s ! j) = endpoint (M ! j) \<and> (j \<noteq> i \<longrightarrow> knows M (M ! j) (world s ! j)))"

lemma node_index_nth:
  "distinct (map self_endpoint ns) \<Longrightarrow> j < length ns \<Longrightarrow> node_index (self_endpoint (ns ! j)) ns = Some j"
proof (induction ns arbitrary: j)
  case (Cons n ns)
  then show ?case by (cases j) (auto simp: image_iff)
qed simp

lemma meshed_index:
  assumes "group M" and "meshed M i s" and "j < length M"
  shows "node_index (endpoint (M ! j)) (world s) = Some j"
proof -
  have "map self_endpoint (world s) = map endpoint M"
    using assms(2) by (intro nth_equalityI) (auto simp: meshed_def)
  moreover have "distinct (map endpoint M)" using assms(1) by (simp add: group_def)
  moreover have "endpoint (M ! j) = self_endpoint (world s ! j)" using assms(2,3) by (simp add: meshed_def)
  ultimately show ?thesis using node_index_nth [of "world s" j] assms(2,3) by (simp add: meshed_def)
qed

lemma knows_world [simp]: "knows M me (s\<lparr>world := w\<rparr>) = knows M me s"
  by (simp add: knows_defs session_ok_def)

lemma meshed_router: "meshed M i s \<Longrightarrow> knows M (M ! i) (s\<lparr>router_of := r\<rparr>) \<Longrightarrow> meshed M i (s\<lparr>router_of := r\<rparr>)"
  by (simp add: meshed_def)

lemma meshed_reply:
  assumes "meshed M i s" and "j < length M" and "j \<noteq> i" and "knows M (M ! j) n"
  shows "meshed M i (s\<lparr>world := (world s)[j := n]\<rparr>)"
  using assms knows_self(2) [OF assms(4)] by (auto simp: meshed_def nth_list_update)

lemma other_member:
  assumes "meshed M i s" and "p \<in> others M (M ! i)"
  obtains j where "j < length M" and "j \<noteq> i" and "p = M ! j"
  using assms by (auto simp: others_def in_set_conv_nth)

lemma meshed_knows: "meshed M i s \<Longrightarrow> knows M (M ! i) s \<and> M ! i \<in> set M"
  by (simp add: meshed_def)

text \<open>A call to another member is answered by its handler.\<close>

lemma call_member:
  assumes "group M" and "meshed M i s" and "j < length M"
  shows "call_node handler out (endpoint (M ! j)) rq (world s) =
    (let (a, n) = answer (handler rq (world s ! j)) (world s ! j) in (a, (world s)[j := n]))"
  using meshed_index [OF assms] by (simp add: call_node_def)

section \<open>What the calls do to the chunks\<close>

definition same_chunks :: "('v session list) session \<Rightarrow> ('v session list) session \<Rightarrow> bool" where
  "same_chunks s t \<longleftrightarrow> chunks t = chunks s \<and> map chunks (world t) = map chunks (world s)"

lemma same_chunks_refl [simp]: "same_chunks s s"
  by (simp add: same_chunks_def)

lemma same_chunks_trans: "same_chunks s t \<Longrightarrow> same_chunks t u \<Longrightarrow> same_chunks s u"
  by (simp add: same_chunks_def)

lemma same_chunks_router [simp]: "same_chunks s (t\<lparr>router_of := r\<rparr>) = same_chunks s t"
  by (simp add: same_chunks_def)

lemma same_chunks_reply:
  "chunks n = chunks (world s ! j) \<Longrightarrow> j < length (world s) \<Longrightarrow> same_chunks s (s\<lparr>world := (world s)[j := n]\<rparr>)"
  by (simp add: same_chunks_def map_update) (metis length_map list_update_id nth_map)

lemma epilogue_member:
  assumes "group M" and "meshed M i s" and "p \<in> set M"
  shows "\<exists>r. rpc_caller_epilogue E (local_to_rpc_peer p) s = Inr ((), s\<lparr>router_of := r\<rparr>) \<and> meshed M i (s\<lparr>router_of := r\<rparr>)"
proof -
  obtain r where "update_peer E (pkey p) (endpoint p) s = Inr ((), s\<lparr>router_of := r\<rparr>)" "knows M (M ! i) (s\<lparr>router_of := r\<rparr>)"
    using update_member [OF assms(1) _ assms(3)] meshed_knows [OF assms(2)] by blast
  with meshed_router [OF assms(2)] show ?thesis by (auto simp: rpc_caller_epilogue_def)
qed

lemma add_closest_members:
  assumes "group M" and "meshed M i s" and "set ps \<subseteq> set M"
  shows "\<exists>new r. add_closest_peers E (map local_to_rpc_peer ps) buffer s = Inr (buffer @ new, s\<lparr>router_of := r\<rparr>) \<and>
    set new \<subseteq> others M (M ! i) \<and> meshed M i (s\<lparr>router_of := r\<rparr>)"
  using assms(2,3)
proof (induction ps arbitrary: buffer s)
  case Nil
  then show ?case by (intro exI [of _ "[]"] exI [of _ "router_of s"]) simp
next
  case (Cons p ps)
  have p: "p \<in> set M" and ps: "set ps \<subseteq> set M" using Cons.prems(2) by simp_all
  note me = meshed_knows [OF Cons.prems(1)]
  show ?case
  proof (cases "p = M ! i")
    case True
    then have "pkey p = self_key s" using knows_self(1) [OF me [THEN conjunct1]] by simp
    with Cons.IH [OF Cons.prems(1) ps, of buffer] show ?thesis by simp
  next
    case False
    obtain r where r: "update_peer E (pkey p) (endpoint p) s = Inr ((), s\<lparr>router_of := r\<rparr>)"
        "knows M (M ! i) (s\<lparr>router_of := r\<rparr>)"
      using update_member [OF assms(1) _ p] me by blast
    obtain new r' where new: "add_closest_peers E (map local_to_rpc_peer ps) (buffer @ [p]) (s\<lparr>router_of := r\<rparr>) =
        Inr ((buffer @ [p]) @ new, s\<lparr>router_of := r'\<rparr>)" "set new \<subseteq> others M (M ! i)" "meshed M i (s\<lparr>router_of := r'\<rparr>)"
      using Cons.IH [OF meshed_router [OF Cons.prems(1) r(2)] ps, of "buffer @ [p]"] by auto
    have "pkey p \<noteq> self_key s" "endpoint p \<noteq> self_endpoint s"
      using False group_keys [OF assms(1) p] group_endpoints [OF assms(1) p] me
      by (simp_all add: knows_self(1,2) [OF me [THEN conjunct1]])
    with r(1) new False p show ?thesis
      by (intro exI [of _ "p # new"] exI [of _ r']) (simp add: others_def)
  qed
qed

lemma find_node_member:
  assumes "group M" and "meshed M i s" and "p \<in> others M (M ! i)"
  shows "\<exists>new t. find_node (cluster_env V) p k buffer s = Inr ((True, buffer @ new), t) \<and>
    set new \<subseteq> others M (M ! i) \<and> meshed M i t \<and> same_chunks s t"
proof -
  obtain j where j: "j < length M" "j \<noteq> i" "p = M ! j" by (rule other_member [OF assms(2,3)])
  let ?n = "world s ! j"
  note me = meshed_knows [OF assms(2)]
  have n: "knows M p ?n" using assms(2) j by (simp add: meshed_def)
  obtain ps r where reply: "handle_find_node V \<lparr>fn_sender = local_to_rpc_peer (M ! i), fn_search_key = bitset_to_string k\<rparr> ?n =
      Inr (\<lparr>fn_receiver = local_to_rpc_peer p, fn_closest_peers = map local_to_rpc_peer ps\<rparr>, ?n\<lparr>router_of := r\<rparr>)"
    and ps: "set ps = others M p" and n': "knows M p (?n\<lparr>router_of := r\<rparr>)"
    using member_find_node [OF assms(1) n, of "M ! i" V k] me by blast
  let ?s = "s\<lparr>world := (world s)[j := ?n\<lparr>router_of := r\<rparr>]\<rparr>"
  have s: "meshed M i ?s" using meshed_reply [OF assms(2) j(1,2)] n' j(3) by simp
  obtain r1 where r1: "rpc_caller_epilogue (cluster_env V) (local_to_rpc_peer p) ?s = Inr ((), ?s\<lparr>router_of := r1\<rparr>)"
      "meshed M i (?s\<lparr>router_of := r1\<rparr>)"
    using epilogue_member [OF assms(1) s, of p] assms(3) by (auto simp: others_def)
  obtain new r2 where r2: "add_closest_peers (cluster_env V) (map local_to_rpc_peer ps) buffer (?s\<lparr>router_of := r1\<rparr>) =
      Inr (buffer @ new, ?s\<lparr>router_of := r1, router_of := r2\<rparr>)" "set new \<subseteq> others M (M ! i)"
      "meshed M i (?s\<lparr>router_of := r1, router_of := r2\<rparr>)"
    using add_closest_members [OF assms(1) r1(2), of ps "cluster_env V" buffer] ps by (auto simp: others_def)
  have "same_chunks s ?s" using assms(2) j(1) by (intro same_chunks_reply) (simp_all add: meshed_def)
  then have same: "same_chunks s (?s\<lparr>router_of := r1, router_of := r2\<rparr>)" by (simp only: same_chunks_router)
  have "find_node (cluster_env V) p k buffer s = Inr ((True, buffer @ new), ?s\<lparr>router_of := r1, router_of := r2\<rparr>)"
    unfolding find_node_def knows_self(4) [OF me [THEN conjunct1]] cluster_env_simps j(3)
      call_member [OF assms(1,2) j(1)] reply [unfolded j(3)]
    using r1(1) r2(1) j(3) by (simp add: answer_def)
  with r2(2,3) same show ?thesis by blast
qed

text \<open>The data a session keeps under a key.\<close>

definition kept :: "'w session \<Rightarrow> key \<Rightarrow> string option" where
  "kept n k = map_option chunk_data (map_of (chunks n) k)"

lemma kept_update [simp]:
  "kept (n\<lparr>chunks := AList.update k c (chunks n)\<rparr>) = (kept n)(k \<mapsto> chunk_data c)"
  by (auto simp: kept_def update_conv')

lemma kept_chunks: "chunks n = chunks m \<Longrightarrow> kept n = kept m"
  by (simp add: kept_def fun_eq_iff)

lemma same_kept:
  assumes "same_chunks s t"
  shows "kept t = kept s" and "j < length (world s) \<Longrightarrow> kept (world t ! j) = kept (world s ! j)"
proof -
  show "kept t = kept s" using assms by (intro kept_chunks) (simp add: same_chunks_def)
  assume j: "j < length (world s)"
  moreover have "length (world t) = length (world s)" using assms by (metis same_chunks_def length_map)
  moreover have "map chunks (world t) ! j = map chunks (world s) ! j" using assms by (simp add: same_chunks_def)
  ultimately show "kept (world t ! j) = kept (world s ! j)" by (intro kept_chunks) simp
qed

lemma find_value_member:
  assumes "group M" and "meshed M i s" and "j < length M" and "j \<noteq> i"
  shows "kept (world s ! j) k = None \<Longrightarrow>
      \<exists>new t. find_value (cluster_env V) (M ! j) k buffer s = Inr ((True, buffer @ new, None), t) \<and>
        set new \<subseteq> others M (M ! i) \<and> meshed M i t \<and> same_chunks s t"
proof -
  assume none: "kept (world s ! j) k = None"
  let ?n = "world s ! j" and ?p = "M ! j"
  note me = meshed_knows [OF assms(2)]
  have n: "knows M ?p ?n" using assms(2-4) by (simp add: meshed_def)
  have absent: "map_of (chunks ?n) k = None" using none by (simp add: kept_def)
  obtain ps r where reply: "handle_find_value V \<lparr>fv_sender = local_to_rpc_peer (M ! i), fv_search_key = bitset_to_string k\<rparr> ?n =
      Inr (\<lparr>fv_receiver = local_to_rpc_peer ?p, fv_found_value = False, fv_data = [], fv_size = 0,
            fv_closest_peers = map local_to_rpc_peer ps\<rparr>, ?n\<lparr>router_of := r\<rparr>)"
    and ps: "set ps = others M ?p" and n': "knows M ?p (?n\<lparr>router_of := r\<rparr>)"
    using member_find_value [OF assms(1) n, of "M ! i" V k] me unfolding absent option.case by blast
  let ?s = "s\<lparr>world := (world s)[j := ?n\<lparr>router_of := r\<rparr>]\<rparr>"
  have s: "meshed M i ?s" using meshed_reply [OF assms(2-4) n'] .
  obtain r1 where r1: "rpc_caller_epilogue (cluster_env V) (local_to_rpc_peer ?p) ?s = Inr ((), ?s\<lparr>router_of := r1\<rparr>)"
      "meshed M i (?s\<lparr>router_of := r1\<rparr>)"
    using epilogue_member [OF assms(1) s, of ?p] assms(3) by auto
  obtain new r2 where r2: "add_closest_peers (cluster_env V) (map local_to_rpc_peer ps) buffer (?s\<lparr>router_of := r1\<rparr>) =
      Inr (buffer @ new, ?s\<lparr>router_of := r1, router_of := r2\<rparr>)" "set new \<subseteq> others M (M ! i)"
      "meshed M i (?s\<lparr>router_of := r1, router_of := r2\<rparr>)"
    using add_closest_members [OF assms(1) r1(2), of ps "cluster_env V" buffer] ps by (auto simp: others_def)
  have "same_chunks s ?s" using assms(2,3) by (intro same_chunks_reply) (simp_all add: meshed_def)
  then have same: "same_chunks s (?s\<lparr>router_of := r1, router_of := r2\<rparr>)" by (simp only: same_chunks_router)
  have "find_value (cluster_env V) ?p k buffer s = Inr ((True, buffer @ new, None), ?s\<lparr>router_of := r1, router_of := r2\<rparr>)"
    unfolding find_value_def knows_self(4) [OF me [THEN conjunct1]] cluster_env_simps
      call_member [OF assms(1-3)] reply
    using r1(1) r2(1) by (simp add: answer_def)
  with r2(2,3) same show ?thesis by blast
qed

text \<open>A store leaves the data with the other member, unless that has some already and is not forced.\<close>

lemma store_member:
  assumes "group M" and "meshed M i s" and "j < length M" and "j \<noteq> i" and "length (chunk_data c) < 2 ^ 31"
  shows "\<exists>t. store (cluster_env V) (M ! j) c force s = Inr (True, t) \<and> meshed M i t \<and> kept t = kept s \<and>
    (\<forall>l<length M. kept (world t ! l) =
       (if l = j \<and> (force \<or> kept (world s ! j) (chunk_key c) = None)
        then (kept (world s ! j))(chunk_key c \<mapsto> chunk_data c) else kept (world s ! l)))"
proof -
  let ?n = "world s ! j" and ?p = "M ! j" and ?k = "chunk_key c" and ?d = "chunk_data c" and ?E = "cluster_env V"
  note me = meshed_knows [OF assms(2)]
  have n: "knows M ?p ?n" and p: "?p \<in> set M" and len: "j < length (world s)"
    using assms(2-4) by (simp_all add: meshed_def)
  let ?free = "map_of (chunks ?n) ?k = None"
  have free: "?free \<longleftrightarrow> kept ?n ?k = None" by (simp add: kept_def)
  obtain r where init: "handle_store_init V \<lparr>si_sender = local_to_rpc_peer (M ! i), si_chunk_key = bitset_to_string ?k\<rparr> ?n =
      Inr (\<lparr>si_receiver = local_to_rpc_peer ?p, si_continue_store = ?free\<rparr>, ?n\<lparr>router_of := r\<rparr>)"
    and n1: "knows M ?p (?n\<lparr>router_of := r\<rparr>)"
    using member_store_init [OF assms(1) n, of "M ! i" V ?k] me by blast
  let ?s = "s\<lparr>world := (world s)[j := ?n\<lparr>router_of := r\<rparr>]\<rparr>"
  have s: "meshed M i ?s" using meshed_reply [OF assms(2-4) n1] .
  have same: "same_chunks s ?s" using len by (intro same_chunks_reply) simp_all
  show ?thesis
  proof (cases "\<not> ?free \<and> \<not> force")
    case True
    have "store ?E ?p c force s = Inr (True, ?s)"
      unfolding store_def knows_self(4) [OF me [THEN conjunct1]] cluster_env_simps
        call_member [OF assms(1-3)] init
      using True by (simp add: answer_def)
    with s True free same_kept [OF same] assms(2) show ?thesis
      by (intro exI [of _ ?s]) (auto simp: meshed_def)
  next
    case False
    obtain r1 where r1: "rpc_caller_epilogue ?E (local_to_rpc_peer ?p) ?s = Inr ((), ?s\<lparr>router_of := r1\<rparr>)"
        "meshed M i (?s\<lparr>router_of := r1\<rparr>)"
      using epilogue_member [OF assms(1) s p] by blast
    let ?t = "?s\<lparr>router_of := r1\<rparr>"
    have t: "world ?t = (world s)[j := ?n\<lparr>router_of := r\<rparr>]" "world ?t ! j = ?n\<lparr>router_of := r\<rparr>" using len by simp_all
    have me': "rpc_caller_prelims ?t = local_to_rpc_peer (M ! i)"
      using meshed_knows [OF r1(2)] knows_self(4) by blast
    obtain d r2 where st: "handle_store V \<lparr>st_sender = local_to_rpc_peer (M ! i), st_chunk_key = bitset_to_string ?k, st_data = ?d,
          st_size = of_nat (length ?d), st_original_publish = to_seconds (original_publish c)\<rparr> (?n\<lparr>router_of := r\<rparr>) =
        Inr (\<lparr>st_receiver = local_to_rpc_peer ?p\<rparr>,
          ?n\<lparr>router_of := r, router_of := r2, chunks := AList.update ?k d (chunks (?n\<lparr>router_of := r\<rparr>))\<rparr>)"
      and d: "chunk_data d = ?d"
      and n2: "knows M ?p (?n\<lparr>router_of := r, router_of := r2, chunks := AList.update ?k d (chunks (?n\<lparr>router_of := r\<rparr>))\<rparr>)"
      using member_store [OF assms(1) n1, of "M ! i" ?d V ?k "to_seconds (original_publish c)"] me assms(5) by blast
    let ?m = "?n\<lparr>router_of := r, router_of := r2, chunks := AList.update ?k d (chunks (?n\<lparr>router_of := r\<rparr>))\<rparr>"
    let ?u = "?t\<lparr>world := (world ?t)[j := ?m]\<rparr>"
    have u: "meshed M i ?u" by (rule meshed_reply [OF r1(2) assms(3,4) n2])
    obtain r3 where r3: "rpc_caller_epilogue ?E (local_to_rpc_peer ?p) ?u = Inr ((), ?u\<lparr>router_of := r3\<rparr>)"
        "meshed M i (?u\<lparr>router_of := r3\<rparr>)"
      using epilogue_member [OF assms(1) u p] by blast
    have "store ?E ?p c force s = Inr (True, ?u\<lparr>router_of := r3\<rparr>)"
    proof -
      have c1: "rpc_store_init ?E (endpoint ?p) \<lparr>si_sender = rpc_caller_prelims s, si_chunk_key = bitset_to_string ?k\<rparr> (world s) =
          (Some \<lparr>si_receiver = local_to_rpc_peer ?p, si_continue_store = ?free\<rparr>, (world s)[j := ?n\<lparr>router_of := r\<rparr>])"
        unfolding knows_self(4) [OF me [THEN conjunct1]] cluster_env_simps call_member [OF assms(1-3)] init
        by (simp add: answer_def)
      have c2: "rpc_store ?E (endpoint ?p)
          \<lparr>st_sender = rpc_caller_prelims ?t, st_chunk_key = bitset_to_string ?k, st_data = ?d,
           st_size = of_nat (length ?d), st_original_publish = to_seconds (original_publish c)\<rparr> (world ?t) =
          (Some \<lparr>st_receiver = local_to_rpc_peer ?p\<rparr>, (world ?t)[j := ?m])"
        unfolding me' cluster_env_simps call_member [OF assms(1) r1(2) assms(3)] t(2) st by (simp add: answer_def)
      show ?thesis
        unfolding store_def c1 Let_def prod.case option.case store_init_response.select_convs if_not_P [OF False]
          r1(1) and_then.simps c2 r3(1) ..
    qed
    moreover have "kept (world (?u\<lparr>router_of := r3\<rparr>) ! l) =
        (if l = j then (kept ?n)(?k \<mapsto> ?d) else kept (world s ! l))" if "l < length M" for l
      using len that assms(2) d by (auto simp: nth_list_update meshed_def kept_def update_conv' fun_eq_iff)
    moreover have "kept (?u\<lparr>router_of := r3\<rparr>) = kept s" by (rule kept_chunks) simp
    ultimately show ?thesis using r3(2) False free by (intro exI [of _ "?u\<lparr>router_of := r3\<rparr>"]) auto
  qed
qed

section \<open>Lookups in a mesh\<close>

lemma meshed_closest:
  assumes "group M" and "meshed M i s"
  shows "meshed M i (after_closest E k s)" and "set (known_closest s k) = others M (M ! i)"
    and "same_chunks s (after_closest E k s)"
  using closest_members [OF assms(1), of "M ! i" s] meshed_knows [OF assms(2)] meshed_router [OF assms(2)]
  by (auto simp: after_closest_def)

text \<open>A mesh in which the sessions keep the given data under the key.\<close>

definition mesh_with :: "peer list \<Rightarrow> nat \<Rightarrow> (nat \<Rightarrow> key \<Rightarrow> string option) \<Rightarrow> ('v session list) session \<Rightarrow> bool" where
  "mesh_with M i D s \<longleftrightarrow> group M \<and> meshed M i s \<and> kept s = D i \<and>
     (\<forall>j<length M. j \<noteq> i \<longrightarrow> kept (world s ! j) = D j)"

lemma mesh_with_same:
  assumes "mesh_with M i D s" and "meshed M i t" and "same_chunks s t"
  shows "mesh_with M i D t"
  using assms same_kept [OF assms(3)] by (auto simp: mesh_with_def meshed_def)

lemma mesh_with_steady:
  assumes "mesh_with M i D s"
  shows "finite (others M (M ! i))" and "inj_on pkey (others M (M ! i))" and "card (others M (M ! i)) \<le> 20"
    and "others M (M ! i) \<noteq> {}" and "session_ok s"
    and "mesh_with M i D (after_closest E k s) \<and> set (known_closest s k) = others M (M ! i)"
  using assms others_inj [of M "M ! i"] others_card [of M "M ! i"] others_nonempty [of M "M ! i"] meshed_closest [of M i s]
    meshed_knows [of M i s] knows_ok [of M "M ! i" s] mesh_with_same [OF assms]
  by (auto simp: mesh_with_def)

lemma mesh_with_find_node:
  assumes "mesh_with M i D s" and "p \<in> others M (M ! i)"
  shows "\<exists>new t. find_node (cluster_env V) p k buffer s = Inr ((True, buffer @ new), t) \<and>
    set new \<subseteq> others M (M ! i) \<and> mesh_with M i D t"
  using find_node_member [of M i s p V k buffer] mesh_with_same [OF assms(1)] assms by (auto simp: mesh_with_def)

interpretation mesh_nodes: steady_nodes "cluster_env V" k "mesh_with M i D" "others M (M ! i)"
  for V :: "'v env" and k M i D
proof unfold_locales
  fix s :: "('v session list) session" and p and q :: query_state
  assume s: "mesh_with M i D s" and p: "p \<in> others M (M ! i)"
  from mesh_with_find_node [OF s p, of V k "closest_buffer q"]
  show "\<exists>new q' t. query_fn (cluster_env V) Node_Query k p q s = Inr ((False, q'), t) \<and>
      closest_buffer q' = closest_buffer q @ new \<and> set new \<subseteq> others M (M ! i) \<and> mesh_with M i D t"
    by (fastforce simp: query_fn_def)
  fix buffer
  from mesh_with_find_node [OF s p, of V k buffer]
  show "\<exists>done new t. find_node (cluster_env V) p k buffer s = Inr ((done, buffer @ new), t) \<and>
      set new \<subseteq> others M (M ! i) \<and> mesh_with M i D t" by blast
qed (fact mesh_with_steady)+

text \<open>When no session keeps data under the key, a value lookup finds none.\<close>

interpretation mesh_values: steady_queries "cluster_env V" Value_Query k
    "\<lambda>s. mesh_with M i D s \<and> (\<forall>j<length M. D j k = None)" "others M (M ! i)"
  for V :: "'v env" and k M i D
proof unfold_locales
  fix s :: "('v session list) session" and p and q :: query_state
  assume s: "mesh_with M i D s \<and> (\<forall>j<length M. D j k = None)" and "p \<in> others M (M ! i)"
  then have m: "group M" "meshed M i s" "mesh_with M i D s" by (simp_all add: mesh_with_def)
  obtain j where j: "j < length M" "j \<noteq> i" "p = M ! j"
    using other_member [OF m(2) \<open>p \<in> _\<close>] .
  have "kept (world s ! j) k = None" using s j by (simp add: mesh_with_def)
  from find_value_member [OF m(1,2) j(1,2) this, of V "closest_buffer q"] j(3) obtain new t where
    r: "find_value (cluster_env V) p k (closest_buffer q) s = Inr ((True, closest_buffer q @ new, None), t)"
      "set new \<subseteq> others M (M ! i)" "meshed M i t" "same_chunks s t" by blast
  have "mesh_with M i D t" by (rule mesh_with_same [OF m(3) r(3,4)])
  with r(1,2) s
  show "\<exists>new q' t. query_fn (cluster_env V) Value_Query k p q s = Inr ((False, q'), t) \<and>
      closest_buffer q' = closest_buffer q @ new \<and> set new \<subseteq> others M (M ! i) \<and>
      (mesh_with M i D t \<and> (\<forall>j<length M. D j k = None))"
    by (simp add: query_fn_def)
next
  fix s :: "('v session list) session"
  assume "mesh_with M i D s \<and> (\<forall>j<length M. D j k = None)"
  with mesh_with_steady(6) [of M i D s "cluster_env V" k]
  show "(mesh_with M i D (after_closest (cluster_env V) k s) \<and> (\<forall>j<length M. D j k = None)) \<and>
      set (known_closest s k) = others M (M ! i)" by blast
qed (erule conjE, erule mesh_with_steady(1-5))+

end
