(* ===== verification/Mesh_Map.thy ===== *)
theory Mesh_Map
  imports Mesh Session_Store
begin

text \<open>
  What \<open>set\<close> and \<open>get\<close> do in a mesh: every session keeps what any of them sets, so the
  sessions together are one map from keys to data.
\<close>

section \<open>Setting in a mesh\<close>

text \<open>The data the sessions keep after the members in \<open>A\<close> were offered \<open>d\<close> under \<open>k\<close>.\<close>

definition offered ::
  "peer list \<Rightarrow> peer set \<Rightarrow> key \<Rightarrow> string \<Rightarrow> bool \<Rightarrow> (nat \<Rightarrow> key \<Rightarrow> string option) \<Rightarrow> nat \<Rightarrow> key \<Rightarrow> string option" where
  "offered M A k d force D j =
     (if M ! j \<in> A \<and> (force \<or> D j k = None) then (D j)(k \<mapsto> d) else D j)"

lemma mesh_with_cong:
  "mesh_with M i D s \<Longrightarrow> (\<And>j. j < length M \<Longrightarrow> D' j = D j) \<Longrightarrow> mesh_with M i D' s"
  by (auto simp: mesh_with_def meshed_def)

lemma mesh_store:
  assumes "mesh_with M i D s" and "p \<in> others M (M ! i)" and "length (chunk_data c) < 2 ^ 31"
  shows "\<exists>t. store (cluster_env V) p c force s = Inr (True, t) \<and>
    mesh_with M i (offered M {p} (chunk_key c) (chunk_data c) force D) t"
proof -
  have g: "group M" and m: "meshed M i s" using assms(1) by (simp_all add: mesh_with_def)
  obtain j where j: "j < length M" "j \<noteq> i" "p = M ! j" by (rule other_member [OF m assms(2)])
  from store_member [OF g m j(1,2) assms(3), of V force] obtain t where
    t: "store (cluster_env V) p c force s = Inr (True, t)" "meshed M i t" "kept t = kept s"
    and l: "\<And>l. l < length M \<Longrightarrow> kept (world t ! l) =
       (if l = j \<and> (force \<or> kept (world s ! j) (chunk_key c) = None)
        then (kept (world s ! j))(chunk_key c \<mapsto> chunk_data c) else kept (world s ! l))"
    using j(3) by blast
  have eq: "M ! l = M ! j \<longleftrightarrow> l = j" if "l < length M" for l
    using nth_eq_iff_index_eq [OF group_distinct [OF g] that j(1)] .
  have "i < length M" using m by (simp add: meshed_def)
  then have "mesh_with M i (offered M {p} (chunk_key c) (chunk_data c) force D) t"
    using assms(1) t(2,3) g j by (auto simp: mesh_with_def offered_def l eq)
  with t(1) show ?thesis by blast
qed

lemma mesh_store_closest:
  assumes "mesh_with M i D s" and "set ps \<subseteq> others M (M ! i)" and "distinct ps" and "length (chunk_data c) < 2 ^ 31"
  shows "\<exists>e t. store_closest (cluster_env V) c force ps dm s = Inr (e, t) \<and>
    mesh_with M i (offered M (set ps) (chunk_key c) (chunk_data c) force D) t"
  using assms(1-3)
proof (induction ps arbitrary: D dm s)
  case Nil
  then show ?case by (simp add: offered_def mesh_with_cong [OF Nil(1)])
next
  case (Cons p ps)
  let ?off = "\<lambda>A. offered M A (chunk_key c) (chunk_data c) force"
  have p: "p \<in> others M (M ! i)" using Cons.prems(2) by simp
  obtain t where t: "store (cluster_env V) p c force s = Inr (True, t)" "mesh_with M i (?off {p} D) t"
    using mesh_store [OF Cons.prems(1) p assms(4), of V force] by blast
  have ps: "set ps \<subseteq> others M (M ! i)" "distinct ps" using Cons.prems(2,3) by simp_all
  obtain e u where u: "store_closest (cluster_env V) c force ps (max dm (dist_between (chunk_key c) (pkey p))) t = Inr (e, u)"
      "mesh_with M i (?off (set ps) (?off {p} D)) u"
    using Cons.IH [OF t(2) ps] by blast
  have "?off (set (p # ps)) D j = ?off (set ps) (?off {p} D) j" for j
    using Cons.prems(3) by (auto simp: offered_def)
  then have "mesh_with M i (?off (set (p # ps)) D) u" by (intro mesh_with_cong [OF u(2)])
  with t(1) u(1) show ?case by simp
qed

lemma mesh_publish:
  assumes "mesh_with M i D s" and "length (chunk_data c) < 2 ^ 31"
  shows "\<exists>t. publish (cluster_env V) c force s = Inr ((), t) \<and>
    mesh_with M i (\<lambda>j. if j = i \<or> force \<or> D j (chunk_key c) = None then (D j)(chunk_key c \<mapsto> chunk_data c) else D j) t"
proof -
  have g: "group M" and i: "i < length M" using assms(1) by (simp_all add: mesh_with_def meshed_def)
  obtain ps t where ps: "node_lookup (cluster_env V) (chunk_key c) [] s = Inr (ps, t)"
      "set ps = others M (M ! i)" "distinct ps" "length ps \<le> 20" "mesh_with M i D t"
    using mesh_nodes.node_lookup_steady [OF assms(1), of V "chunk_key c"] by blast
  let ?off = "offered M (others M (M ! i)) (chunk_key c) (chunk_data c) force D"
  obtain e u where u: "store_closest (cluster_env V) c force ps (Dist 0) t = Inr (e, u)" "mesh_with M i ?off u"
    using mesh_store_closest [OF ps(5) equalityD1 [OF ps(2)] ps(3) assms(2), of V force "Dist 0"] ps(2) by auto
  let ?u = "u\<lparr>chunks := AList.update (chunk_key c) c (chunks u)\<rparr>"
  have free: "chunks_free u" using u(2) by (simp add: mesh_with_def meshed_def knows_defs)
  have mu: "mesh_with M i (\<lambda>j. if j = i \<or> force \<or> D j (chunk_key c) = None then (D j)(chunk_key c \<mapsto> chunk_data c) else D j) ?u"
  proof -
    have "M ! j \<noteq> M ! i" if "j < length M" "j \<noteq> i" for j
      using nth_eq_iff_index_eq [OF group_distinct [OF g] that(1) i] that(2) by simp
    with u(2) i show ?thesis by (auto simp: mesh_with_def meshed_def offered_def others_def)
  qed
  have "publish (cluster_env V) c force s = Inr ((), ?u)"
    using ps(1,4) u(1) free by (cases u) (simp add: publish_def lock_chunks_def unlock_chunks_def)
  with mu show ?thesis by blast
qed

section \<open>The shared map\<close>

text \<open>All sessions keep the data of the map \<open>m\<close>.\<close>

definition shared :: "peer list \<Rightarrow> nat \<Rightarrow> (key \<Rightarrow> string option) \<Rightarrow> ('v session list) session \<Rightarrow> bool" where
  "shared M i m = mesh_with M i (\<lambda>_. m)"

lemma shared_set:
  assumes "shared M i m s" and "length d < 2 ^ 31" and "force \<or> m k = None \<or> m k = Some d"
  shows "\<exists>t. session_set (cluster_env V) k d force s = Inr ((), t) \<and> shared M i (m(k \<mapsto> d)) t"
proof -
  let ?c = "new_chunk (clock_at (cluster_env V) (world s) 1) k d True (clock_at (cluster_env V) (world s) 0)"
  have c: "chunk_key ?c = k" "chunk_data ?c = d" by (simp_all add: new_chunk_def)
  obtain t where t: "publish (cluster_env V) ?c force s = Inr ((), t)"
    and m: "mesh_with M i (\<lambda>j. if j = i \<or> force \<or> m k = None then m(k \<mapsto> d) else m) t"
    using mesh_publish [OF assms(1) [unfolded shared_def], of ?c V force] assms(2) unfolding c by blast
  have "m(k \<mapsto> d) = m" if "m k = Some d" using that by auto
  with assms(3) have "shared M i (m(k \<mapsto> d)) t"
    unfolding shared_def by (intro mesh_with_cong [OF m]) auto
  with t show ?thesis by (simp add: session_set_def)
qed

lemma shared_get:
  assumes "shared M i m s"
  shows "\<exists>t. session_get (cluster_env V) k s = Inr (m k, t) \<and> shared M i m t"
proof -
  have s: "mesh_with M i (\<lambda>_. m) s" using assms by (simp add: shared_def)
  then have free: "chunks_free s" and k: "kept s k = m k" by (simp_all add: mesh_with_def meshed_def knows_defs)
  show ?thesis
  proof (cases "m k")
    case (Some d)
    with k obtain c where "map_of (chunks s) k = Some c" "chunk_data c = d" by (auto simp: kept_def)
    with Some free assms show ?thesis
      by (simp add: session_get_def lock_chunks_free unlock_chunks_after)
  next
    case None
    then have "mesh_with M i (\<lambda>_. m) s \<and> (\<forall>j<length M. m k = None)" using s by simp
    from mesh_values.lookup_steady [OF this, of V] obtain b t where
      "lookup_helper (cluster_env V) Value_Query k [] s = Inr ((b, None), t)" "mesh_with M i (\<lambda>_. m) t" by blast
    with None k free show ?thesis
      by (auto simp: session_get_def value_lookup_def shared_def kept_def lock_chunks_free unlock_chunks_after)
  qed
qed

end
