(* ===== verification/Shared_Files.thy ===== *)
theory Shared_Files
  imports Files_Properties
begin

text \<open>
  The file layer over a session that is a window on a map shared by many sessions. The
  locale \<open>shared_session\<close> is what such a session promises; then the file operations refine
  the operations of a catalog, which lists names and has a content for some of them.
\<close>

section \<open>The interface\<close>

locale shared_session =
  fixes E :: "'w env" and rep :: "(key \<Rightarrow> string option) \<Rightarrow> 'w session \<Rightarrow> bool"
  assumes set_shared: "rep m s \<Longrightarrow> length d < 2 ^ 31 \<Longrightarrow> force \<or> m k = None \<or> m k = Some d \<Longrightarrow>
      \<exists>t. session_set E k d force s = Inr ((), t) \<and> rep (m(k \<mapsto> d)) t"
    and get_shared: "rep m s \<Longrightarrow> \<exists>t. session_get E k s = Inr (m k, t) \<and> rep m t"
begin

lemma put_all_shared:
  assumes "rep m s" and "\<forall>x\<in>set xs. length (snd x) < 2 ^ 31 \<and> (m (fst x) = None \<or> m (fst x) = Some (snd x))"
    and "inj_on fst (set xs)"
  shows "\<exists>t. put_all (\<lambda>k d. session_set E k d False) xs s = Inr ((), t) \<and> rep (m ++ map_of xs) t"
  using assms
proof (induction xs arbitrary: m s)
  case (Cons x xs)
  obtain t where t: "session_set E (fst x) (snd x) False s = Inr ((), t)" "rep (m(fst x \<mapsto> snd x)) t"
    using set_shared [OF Cons.prems(1), of "snd x" False "fst x"] Cons.prems(2) by auto
  have same: "snd y = snd x" if "y \<in> set xs" "fst y = fst x" for y
    using inj_onD [OF Cons.prems(3) that(2)] that(1) by simp
  have "\<exists>u. put_all (\<lambda>k d. session_set E k d False) xs t = Inr ((), u) \<and> rep (m(fst x \<mapsto> snd x) ++ map_of xs) u"
  proof (rule Cons.IH [OF t(2)])
    show "inj_on fst (set xs)" using Cons.prems(3) by simp
    show "\<forall>y\<in>set xs. length (snd y) < 2 ^ 31 \<and>
        ((m(fst x \<mapsto> snd x)) (fst y) = None \<or> (m(fst x \<mapsto> snd x)) (fst y) = Some (snd y))"
      using Cons.prems(2) same by simp
  qed
  moreover have "m(fst x \<mapsto> snd x) ++ map_of xs = m ++ map_of (x # xs)"
  proof
    fix k
    show "(m(fst x \<mapsto> snd x) ++ map_of xs) k = (m ++ map_of (x # xs)) k"
      using same by (cases "map_of xs k") (force simp: map_add_def dest: map_of_SomeD)+
  qed
  ultimately have "\<exists>u. put_all (\<lambda>k d. session_set E k d False) xs t = Inr ((), u) \<and> rep (m ++ map_of (x # xs)) u"
    by (simp only:)
  with t(1) show ?case by (auto simp del: map_of.simps)
qed simp

lemma get_all_shared:
  "rep m s \<Longrightarrow> \<exists>t. get_all (session_get E) ks s = Inr (map m ks, t) \<and> rep m t"
proof (induction ks arbitrary: s)
  case (Cons k ks)
  obtain t where "session_get E k s = Inr (m k, t)" "rep m t" using get_shared [OF Cons.prems] by blast
  with Cons.IH show ?case by fastforce
qed simp

end

section \<open>The catalog\<close>

record catalog =
  listed :: "string list"
  content :: "string \<Rightarrow> string option"

text \<open>The digest tells the possible chunks and names apart; \<open>index\<close> is the name of the index.\<close>

definition digest_ok :: "(string \<Rightarrow> 8 word list) \<Rightarrow> string set \<Rightarrow> string set \<Rightarrow> bool" where
  "digest_ok sha1 C N \<longleftrightarrow> inj_on (key_from_data sha1) (C \<union> N) \<and> C \<inter> N = {} \<and> ''index'' \<in> N \<and>
     (\<forall>n\<in>N. n \<noteq> [] \<and> nul \<notin> set n)"

definition index_text :: "string list \<Rightarrow> string" where
  "index_text names = concat (map (\<lambda>n. n @ [nul]) names)"

text \<open>The map holds the metadata and the chunks of a file.\<close>

definition holds_file :: "(string \<Rightarrow> 8 word list) \<Rightarrow> (key \<Rightarrow> string option) \<Rightarrow> string \<Rightarrow> string \<Rightarrow> bool" where
  "holds_file sha1 m name bytes \<longleftrightarrow>
     m (key_from_string sha1 name) = Some (encode_keys (map (key_from_data sha1) (read_chunks bytes))) \<and>
     (\<forall>d\<in>set (read_chunks bytes). m (key_from_data sha1 d) = Some d)"

text \<open>
  The map holds a catalog: the index, the chunks of its files as far as they are stored, and
  nothing else but empty data (of the strain reliever) under keys that are not in use.
\<close>

definition catalogs ::
  "(string \<Rightarrow> 8 word list) \<Rightarrow> string set \<Rightarrow> string set \<Rightarrow> catalog \<Rightarrow> (key \<Rightarrow> string option) \<Rightarrow> bool" where
  "catalogs sha1 C N a m \<longleftrightarrow> digest_ok sha1 C N \<and> set (listed a) \<subseteq> N \<and>
     m (index_key sha1) = Some (index_text (listed a)) \<and>
     (\<forall>d\<in>C. m (key_from_data sha1 d) = None \<or> m (key_from_data sha1 d) = Some d) \<and>
     (\<forall>k. k \<notin> key_from_data sha1 ` (C \<union> N) \<longrightarrow> m k = None \<or> m k = Some []) \<and>
     (\<forall>n b. content a n = Some b \<longrightarrow> n \<in> N - {''index''} \<and> set (read_chunks b) \<subseteq> C \<and> holds_file sha1 m n b)"

lemma digest_keys:
  assumes "digest_ok sha1 C N" and "x \<in> C \<union> N" and "y \<in> C \<union> N"
  shows "key_from_data sha1 x = key_from_data sha1 y \<longleftrightarrow> x = y"
  using assms by (auto simp: digest_ok_def inj_on_def)

lemma index_names_text:
  "digest_ok sha1 C N \<Longrightarrow> set names \<subseteq> N \<Longrightarrow> index_names [] (index_text names) = names"
  unfolding index_text_def by (rule index_names_files) (auto simp: digest_ok_def)

lemma index_text_append: "fold (\<lambda>file b. b @ file @ [nul]) files (index_text names) = index_text (names @ files)"
  by (simp add: fold_index index_text_def)

text \<open>The metadata of a file of less than 8 TB fits the size field of a message.\<close>

lemma length_encode_keys: "length (encode_keys ks) = 161 * length ks"
  unfolding encode_keys_eq by (induction ks) simp_all

lemma metadata_fits:
  assumes "length bytes < 2 ^ 43"
  shows "length (encode_keys (map (key_from_data sha1) (read_chunks bytes))) < 2 ^ 31"
proof -
  have "length bytes div max_chunk_size < 2 ^ 23"
    using assms by (intro less_mult_imp_div_less) (simp add: max_chunk_size_def)
  with read_chunks_shape [of bytes] show ?thesis by (simp add: length_encode_keys)
qed

lemma chunk_size_bound:
  assumes "d \<in> set (read_chunks bytes)"
  shows "length d \<le> max_chunk_size"
proof -
  let ?cs = "read_chunks bytes"
  have "?cs \<noteq> []" using assms by auto
  then have "?cs = butlast ?cs @ [last ?cs]" by simp
  then have "d \<in> set (butlast ?cs) \<or> d = last ?cs" using assms by (metis Un_iff empty_iff insert_iff list.set set_append)
  with read_chunks_shape [of bytes] show ?thesis
    by (auto intro: less_imp_le [OF mod_less_divisor])
qed

section \<open>The operations of the file layer\<close>

lemma map_of_graph:
  "inj_on f (set xs) \<Longrightarrow> x \<in> set xs \<Longrightarrow> map_of (map (\<lambda>x. (f x, x)) xs) (f x) = Some x"
  by (induction xs) (auto simp: inj_on_def)

lemma map_of_shuffled:
  assumes "set xs = set ys" and "inj_on fst (set ys)"
  shows "map_of xs = map_of ys"
proof
  fix k
  show "map_of xs k = map_of ys k"
  proof (cases "map_of xs k")
    case None
    then show ?thesis using assms(1) by (metis map_of_eq_None_iff)
  next
    case (Some x)
    then have x: "(k, x) \<in> set ys" using assms(1) map_of_SomeD by fastforce
    then obtain y where y: "map_of ys k = Some y" by (metis map_of_eq_None_iff not_None_eq image_eqI fst_conv)
    then have "(k, y) \<in> set ys" by (rule map_of_SomeD)
    then have "x = y" using inj_onD [OF assms(2), of "(k, x)" "(k, y)"] x by simp
    with Some y show ?thesis by simp
  qed
qed

abbreviation name_chunks :: "(string \<Rightarrow> 8 word list) \<Rightarrow> string \<Rightarrow> (key \<times> string) list" where
  "name_chunks sha1 bytes \<equiv> map (\<lambda>d. (key_from_data sha1 d, d)) (read_chunks bytes)"

text \<open>What writing a file adds to the map.\<close>

definition with_file ::
  "(string \<Rightarrow> 8 word list) \<Rightarrow> string \<Rightarrow> string \<Rightarrow> (key \<Rightarrow> string option) \<Rightarrow> key \<Rightarrow> string option" where
  "with_file sha1 name bytes m =
     (m ++ map_of (name_chunks sha1 bytes))
       (key_from_string sha1 name \<mapsto> encode_keys (map (key_from_data sha1) (read_chunks bytes)))"

lemma catalogs_with_file:
  assumes c: "catalogs sha1 C N a m" and n: "n \<in> N - {''index''}" and b: "set (read_chunks b) \<subseteq> C"
  shows "catalogs sha1 C N (a\<lparr>content := (content a)(n \<mapsto> b)\<rparr>) (with_file sha1 n b m)"
proof -
  let ?key = "key_from_data sha1" and ?m = "with_file sha1 n b m"
  have ok: "digest_ok sha1 C N" and sep: "C \<inter> N = {}" and index: "''index'' \<in> N"
    using c by (simp_all add: catalogs_def digest_ok_def)
  have keys: "?key x = ?key y \<longleftrightarrow> x = y" if "x \<in> C \<union> N" "y \<in> C \<union> N" for x y
    using digest_keys [OF ok that] .
  have chunk: "?m (?key d) = (if d \<in> set (read_chunks b) then Some d else m (?key d))" if d: "d \<in> C" for d
  proof -
    have "?key n \<noteq> ?key d" using keys [of n d] n d sep by auto
    moreover have "map_of (name_chunks sha1 b) (?key d) = (if d \<in> set (read_chunks b) then Some d else None)"
    proof (cases "d \<in> set (read_chunks b)")
      case True
      have "inj_on (key_from_data sha1) (set (read_chunks b))" using keys b by (auto simp: inj_on_def subset_iff)
      from map_of_graph [OF this True] True show ?thesis by simp
    next
      case False
      with keys d b show ?thesis by (auto simp: map_of_eq_None_iff)
    qed
    ultimately show ?thesis by (simp add: with_file_def key_from_string_def map_add_def)
  qed
  have other: "?m (?key x) = (if x = n then Some (encode_keys (map ?key (read_chunks b))) else m (?key x))" if x: "x \<in> N" for x
  proof -
    have "map_of (name_chunks sha1 b) (?key x) = None"
      using keys x b sep by (force simp: map_of_eq_None_iff)
    with keys [of n x] n x show ?thesis by (auto simp: with_file_def key_from_string_def map_add_def)
  qed
  have "holds_file sha1 ?m n b"
    using other [of n] chunk n b by (auto simp: holds_file_def key_from_string_def)
  moreover have "holds_file sha1 ?m n' b'" if "n' \<noteq> n" "content a n' = Some b'" for n' b'
  proof -
    have h: "n' \<in> N" "set (read_chunks b') \<subseteq> C" "holds_file sha1 m n' b'"
      using c that(2) by (auto simp: catalogs_def)
    have "?m (?key d) = Some d" if "d \<in> set (read_chunks b')" for d
      using h(2,3) chunk [of d] that by (auto simp: holds_file_def)
    with h other [OF h(1)] that(1) show ?thesis by (simp add: holds_file_def key_from_string_def)
  qed
  moreover have "?m (index_key sha1) = m (index_key sha1)"
    using other [OF index] n by (auto simp: index_key_def key_from_string_def)
  moreover have "?m k = m k" if "k \<notin> ?key ` (C \<union> N)" for k
  proof -
    have "map_of (name_chunks sha1 b) k = None" using that b by (auto simp: map_of_eq_None_iff)
    moreover have "k \<noteq> ?key n" using that n by auto
    ultimately show ?thesis by (auto simp: with_file_def key_from_string_def map_add_def)
  qed
  ultimately show ?thesis
    using c n b chunk by (auto simp: catalogs_def)
qed

lemma catalogs_dummy:
  assumes "catalogs sha1 C N a m" and "k \<notin> key_from_data sha1 ` (C \<union> N)"
  shows "catalogs sha1 C N a (m(k \<mapsto> []))"
proof -
  have used: "(m(k \<mapsto> [])) (key_from_data sha1 x) = m (key_from_data sha1 x)" if "x \<in> C \<union> N" for x
    using assms(2) that by auto
  have index: "''index'' \<in> N" using assms(1) by (simp add: catalogs_def digest_ok_def)
  have "holds_file sha1 (m(k \<mapsto> [])) n b" if "content a n = Some b" for n b
  proof -
    have h: "n \<in> N" "set (read_chunks b) \<subseteq> C" "holds_file sha1 m n b"
      using assms(1) that by (auto simp: catalogs_def)
    have "(m(k \<mapsto> [])) (key_from_data sha1 d) = Some d" if "d \<in> set (read_chunks b)" for d
      using h(2,3) used [of d] that by (auto simp: holds_file_def)
    with h(1,3) used [of n] show ?thesis by (simp add: holds_file_def key_from_string_def)
  qed
  then show ?thesis
    using assms used index unfolding catalogs_def by (simp add: index_key_def key_from_string_def)
qed

context shared_session
begin

lemma write_shared:
  assumes s: "rep m s" and c: "catalogs sha1 C N a m" and n: "n \<in> N - {''index''}"
    and b: "set (read_chunks b) \<subseteq> C" "length b < 2 ^ 43"
    and order: "mset (sched (length (read_chunks b))) = mset [0..<length (read_chunks b)]"
  shows "\<exists>t. write_from_file sha1 E sched (Some b) n s = Inr (True, t) \<and> rep (with_file sha1 n b m) t"
proof -
  let ?key = "key_from_data sha1" and ?named = "name_chunks sha1 b"
  let ?xs = "map (\<lambda>i. ?named ! i) (sched (length ?named))"
  have xs: "set ?xs = set ?named" using nth_all [of "sched (length ?named)" ?named] order by simp
  have ok: "digest_ok sha1 C N" using c by (simp add: catalogs_def)
  have inj: "inj_on fst (set ?named)"
    using digest_keys [OF ok] b(1) by (auto simp: inj_on_def subset_iff)
  have free: "\<forall>x\<in>set ?named. length (snd x) < 2 ^ 31 \<and> (m (fst x) = None \<or> m (fst x) = Some (snd x))"
    using c b(1) chunk_size_bound by (fastforce simp: catalogs_def max_chunk_size_def)
  obtain t where t: "put_all (\<lambda>k d. session_set E k d False) ?xs s = Inr ((), t)" "rep (m ++ map_of ?named) t"
    using put_all_shared [OF s, of ?xs] free inj map_of_shuffled [OF xs inj] unfolding xs by auto
  obtain u where "session_set E (key_from_string sha1 n) (encode_keys (map ?key (read_chunks b))) True t = Inr ((), u)"
      "rep (with_file sha1 n b m) u"
    using set_shared [OF t(2) metadata_fits [OF b(2)], of True] unfolding with_file_def by blast
  with t(1) show ?thesis by (auto simp: write_from_file_def Let_def o_def)
qed

lemma ordered_keys_shared:
  "rep m s \<Longrightarrow> \<forall>n\<in>set names. \<exists>b. f n = b \<and> holds_file sha1 m n b \<Longrightarrow>
     \<exists>t. ordered_keys sha1 E names s =
       Inr (Some (concat (map (\<lambda>n. map (key_from_data sha1) (read_chunks (f n))) names)), t) \<and> rep m t"
proof (induction names arbitrary: s)
  case (Cons n names)
  obtain t where t: "session_get E (key_from_string sha1 n) s = Inr (m (key_from_string sha1 n), t)" "rep m t"
    using get_shared [OF Cons.prems(1)] by blast
  obtain u where u: "ordered_keys sha1 E names t =
       Inr (Some (concat (map (\<lambda>n. map (key_from_data sha1) (read_chunks (f n))) names)), u)" "rep m u"
    using Cons.IH [OF t(2)] Cons.prems(2) by auto
  have "m (key_from_string sha1 n) = Some (encode_keys (map (key_from_data sha1) (read_chunks (f n))))"
    using Cons.prems(2) by (simp add: holds_file_def)
  with t(1) u show ?case by (simp add: decode_encode)
qed simp

lemma read_shared:
  assumes s: "rep m s" and held: "\<forall>n\<in>set names. holds_file sha1 m n (f n)"
    and order: "\<And>l. mset (sched l) = mset [0..<l]"
  shows "\<exists>t. read_in_files sha1 E sched names s = Inr (Some (concat (map f names)), t) \<and> rep m t"
proof -
  let ?ks = "concat (map (\<lambda>n. map (key_from_data sha1) (read_chunks (f n))) names)"
  let ?order = "sched (length ?ks)"
  obtain t where t: "ordered_keys sha1 E names s = Inr (Some ?ks, t)" "rep m t"
    using ordered_keys_shared [OF s] held by blast
  obtain u where u: "get_all (session_get E) (map (\<lambda>i. ?ks ! i) ?order) t = Inr (map m (map (\<lambda>i. ?ks ! i) ?order), u)" "rep m u"
    using get_all_shared [OF t(2)] by blast
  have "fold (\<lambda>(i, r) slots. slots[i := r]) (zip ?order (map (m \<circ> (!) ?ks) ?order)) (replicate (length ?ks) None) = map m ?ks"
    using mset_eq_setD [OF order, of "length ?ks"] by (simp only: fold_slots) (auto intro!: nth_equalityI)
  moreover have "map m ?ks = map Some (concat (map (\<lambda>n. read_chunks (f n)) names))"
    using held by (induction names) (auto simp: holds_file_def)
  moreover have "concat (concat (map (\<lambda>n. read_chunks (f n)) names)) = concat (map f names)"
    by (induction names) (simp_all add: concat_read_chunks)
  ultimately show ?thesis
    using t u by (auto simp: read_in_files_def o_def Let_def)
qed

lemma index_shared:
  assumes s: "rep m s" and c: "catalogs sha1 C N a m"
  shows "\<exists>t. get_index_files sha1 E s = Inr (Some (listed a), t) \<and> rep m t"
    and "n \<in> N \<Longrightarrow> \<exists>t. file_exists sha1 E n s = Inr (n \<in> set (listed a), t) \<and> rep m t"
proof -
  have m: "m (index_key sha1) = Some (index_text (listed a))" and ok: "digest_ok sha1 C N" and sub: "set (listed a) \<subseteq> N"
    using c by (simp_all add: catalogs_def)
  obtain t where t: "session_get E (index_key sha1) s = Inr (m (index_key sha1), t)" "rep m t"
    using get_shared [OF s] by blast
  with m show "\<exists>t. get_index_files sha1 E s = Inr (Some (listed a), t) \<and> rep m t"
    by (simp add: get_index_files_def index_names_text [OF ok sub])
  assume "n \<in> N"
  then have "n \<noteq> []" using ok by (simp add: digest_ok_def)
  with t m show "\<exists>t. file_exists sha1 E n s = Inr (n \<in> set (listed a), t) \<and> rep m t"
    by (simp add: file_exists_def index_contains_iff index_names_text [OF ok sub])
qed

lemma add_files_shared:
  assumes s: "rep m s" and c: "catalogs sha1 C N a m"
    and new: "set files \<subseteq> N" "length (index_text (listed a @ files)) < 2 ^ 31"
  shows "\<exists>m' t. add_files_to_index_file sha1 E files s = Inr (True, t) \<and> rep m' t \<and>
    catalogs sha1 C N (a\<lparr>listed := listed a @ files\<rparr>) m'"
proof -
  let ?m = "m(index_key sha1 \<mapsto> index_text (listed a @ files))"
  obtain t where t: "session_get E (index_key sha1) s = Inr (Some (index_text (listed a)), t)" "rep m t"
    using get_shared [OF s, of "index_key sha1"] c by (auto simp: catalogs_def)
  obtain u where u: "session_set E (index_key sha1) (index_text (listed a @ files)) True t = Inr ((), u)" "rep ?m u"
    using set_shared [OF t(2) new(2)] by blast
  have ok: "digest_ok sha1 C N" and index: "''index'' \<in> N" and sep: "C \<inter> N = {}"
    using c by (simp_all add: catalogs_def digest_ok_def)
  have other: "?m (key_from_data sha1 x) = m (key_from_data sha1 x)" if "x \<in> C \<union> N - {''index''}" for x
    using digest_keys [OF ok, of x "''index''"] that index by (auto simp: index_key_def key_from_string_def)
  have "holds_file sha1 ?m n b" if "content a n = Some b" for n b
  proof -
    have h: "n \<in> N - {''index''}" "set (read_chunks b) \<subseteq> C" "holds_file sha1 m n b"
      using c that by (auto simp: catalogs_def)
    have "?m (key_from_data sha1 d) = m (key_from_data sha1 d)" if "d \<in> set (read_chunks b)" for d
    proof (rule other)
      show "d \<in> C \<union> N - {''index''}" using h(2) that sep index by blast
    qed
    with h(1,3) other [of n] show ?thesis by (auto simp: holds_file_def key_from_string_def)
  qed
  moreover have "?m (key_from_data sha1 d) = m (key_from_data sha1 d)" if "d \<in> C" for d
  proof (rule other)
    show "d \<in> C \<union> N - {''index''}" using that sep index by blast
  qed
  moreover have "?m k = m k" if "k \<notin> key_from_data sha1 ` (C \<union> N)" for k
    using that index by (auto simp: index_key_def key_from_string_def)
  ultimately have "catalogs sha1 C N (a\<lparr>listed := listed a @ files\<rparr>) ?m"
    using c new(1) unfolding catalogs_def by simp
  with t(1) u show ?thesis
    by (auto simp: add_files_to_index_file_def index_text_append)
qed

lemma init_index_shared:
  "rep (\<lambda>_. None) s \<Longrightarrow> \<exists>t. init_index_file sha1 E s = Inr (True, t) \<and> rep [index_key sha1 \<mapsto> []] t"
  using set_shared [of "\<lambda>_. None" s "[]" True "index_key sha1"] by (auto simp: init_index_file_def)

end

lemma catalogs_empty:
  "digest_ok sha1 C N \<Longrightarrow> catalogs sha1 C N \<lparr>listed = [], content = \<lambda>_. None\<rparr> [index_key sha1 \<mapsto> []]"
  using digest_keys [of sha1 C N _ "''index''"]
  by (auto simp: catalogs_def index_text_def index_key_def key_from_string_def digest_ok_def)

end
