(* ===== verification/Commands.thy ===== *)
theory Commands
  imports Cluster
begin

text \<open>
  \<open>src/client/cmd.cpp\<close>: the class \<open>CommandControl\<close>, which starts the sessions of a client
  process and executes the commands on a session it picks at random.
\<close>

section \<open>The state of a client\<close>

text \<open>
  What the commands use of the system: the network outside the process, the digest,
  \<open>std::rand()\<close>, the bits of the random keys, the order in which threads run that are
  started together, which output files can be opened, and for how many pings the model
  waits for the start of a neighbour.
\<close>

record 'v host =
  net :: "'v env"
  sha1 :: "string \<Rightarrow> 8 word list"
  rand :: "nat \<Rightarrow> nat"
  draw :: "nat \<Rightarrow> nat \<Rightarrow> bool"
  sched :: "nat \<Rightarrow> nat list"
  writable :: "string \<Rightarrow> bool"
  patience :: nat

text \<open>
  \<open>client_state_data\<close>. The sessions from \<open>meta_from\<close> on share the current \<open>session_metadata\<close>:
  its counter \<open>dead_peers\<close> is the sum of their counters, and starts from 0 in the model (the
  code never sets it first). \<open>rands\<close> and \<open>draws\<close> count the random numbers and keys taken,
  and \<open>disk\<close> is the local file system. \<open>threads\<close> counts the background threads.
\<close>

record 'v control =
  exiting :: bool
  endpoints :: "string list"
  sessions :: "'v session list"
  threads :: nat
  cmd_err :: string
  cmd_out :: string
  thresh :: uint
  meta_from :: nat
  rands :: nat
  draws :: nat
  disk :: "string \<Rightarrow> string option"

type_synonym ('v, 'a) command_result = "cpp_error + ('a \<times> 'v control)"

definition clear_cmd :: "'v control \<Rightarrow> 'v control" where
  "clear_cmd c = c\<lparr>cmd_err := [], cmd_out := []\<rparr>"

abbreviation newline :: char where
  "newline \<equiv> CHR 0x0A"

section \<open>Picking a session\<close>

text \<open>\<open>sessions[std::rand() % sessions.size()]\<close>\<close>

definition pick :: "'v host \<Rightarrow> 'v control \<Rightarrow> ('v, nat) command_result" where
  "pick h c =
     (if sessions c = [] then Inl Division_By_Zero
      else Inr (rand h (rands c) mod length (sessions c), c\<lparr>rands := Suc (rands c)\<rparr>))"

definition with_session ::
  "'v host \<Rightarrow> (('v session list) env \<Rightarrow> ('v session list) session \<Rightarrow> ('v session list, 'a) outcome) \<Rightarrow>
     'v control \<Rightarrow> ('v, 'a) command_result" where
  "with_session h f c =
     and_then (pick h c) (\<lambda>(i, c).
     and_then (on_node i (f (cluster_env (net h))) (sessions c)) (\<lambda>(x, ns).
     Inr (x, c\<lparr>sessions := ns\<rparr>)))"

section \<open>Commands on files\<close>

definition list_cmd :: "'v host \<Rightarrow> 'v control \<Rightarrow> ('v, bool) command_result" where
  "list_cmd h c =
     and_then (with_session h (get_index_files (sha1 h)) c) (\<lambda>(index_files, c).
     case index_files of
       None \<Rightarrow> Inr (False, c\<lparr>cmd_err := ''Failed to access index file''\<rparr>)
     | Some files \<Rightarrow>
         Inr (True, c\<lparr>cmd_out := fold (\<lambda>file out. out @ file @ [newline]) files (cmd_out c @ ''INDEX'' @ [newline])\<rparr>))"

text \<open>\<open>std::filesystem::path(file).filename().string()\<close>\<close>

definition file_name :: "string \<Rightarrow> string" where
  "file_name path = rev (takeWhile (\<lambda>c. c \<noteq> CHR ''/'') (rev path))"

text \<open>The loop of \<open>store_cmd\<close>; \<open>added\<close> is \<open>added_files\<close>.\<close>

primrec store_files :: "'v host \<Rightarrow> string list \<Rightarrow> string list \<Rightarrow> 'v control \<Rightarrow> ('v, string list) command_result" where
  "store_files h [] added c = Inr (added, c)"
| "store_files h (file # files) added c =
     (let name = file_name file in
      and_then (if name \<in> set added then Inr (True, c)
                else with_session h (\<lambda>E. file_exists (sha1 h) E name) c) (\<lambda>(present, c).
      if present
      then store_files h files added
             (c\<lparr>cmd_err := cmd_err c @ ''File'' @ file @ '' already exists in the current session. Skipping.''\<rparr>)
      else and_then (with_session h (\<lambda>E. write_from_file (sha1 h) E (sched h) (disk c file) name) c) (\<lambda>(ok, c).
           if \<not> ok
           then store_files h files added
                  (c\<lparr>cmd_err := cmd_err c @ ''File '' @ file @ '' does not exist or read failed. Skipping.''\<rparr>)
           else store_files h files (added @ [name]) c)))"

definition store_cmd :: "'v host \<Rightarrow> string list \<Rightarrow> 'v control \<Rightarrow> ('v, bool) command_result" where
  "store_cmd h files c =
     and_then (store_files h files [] c) (\<lambda>(added, c).
     and_then (with_session h (\<lambda>E. add_files_to_index_file (sha1 h) E added) c) (\<lambda>(ok, c).
     if \<not> ok then Inr (False, c\<lparr>cmd_err := cmd_err c @ ''Failed to write to index file.''\<rparr>)
     else Inr (True, c\<lparr>cmd_out := fold (\<lambda>file out. out @ file @ [newline]) added
                                  (''Successfully stored the following files'' @ [newline])\<rparr>)))"

definition load_cmd :: "'v host \<Rightarrow> string list \<Rightarrow> string \<Rightarrow> 'v control \<Rightarrow> ('v, bool) command_result" where
  "load_cmd h input_files output_file c =
     and_then (with_session h (\<lambda>E. read_in_files (sha1 h) E (sched h) input_files) c) (\<lambda>(buffer, c).
     case buffer of
       None \<Rightarrow> Inr (False, c\<lparr>cmd_err := ''Failed to read from files''\<rparr>)
     | Some data \<Rightarrow>
         if \<not> writable h output_file
         then Inr (False, c\<lparr>cmd_err := ''Failed to open output file '' @ output_file\<rparr>)
         else Inr (True, c\<lparr>disk := (disk c)(output_file := Some data),
                           cmd_out := ''Successfully loaded all files into output file '' @ output_file\<rparr>))"

section \<open>Starting and ending the sessions\<close>

text \<open>A session object before its \<open>startup\<close>, which sets the router.\<close>

definition new_session :: "'v \<Rightarrow> 'v session" where
  "new_session w =
     \<lparr>dying = False, router_of = \<lparr>self_peer = default_peer, table = new_tree 0 159\<rparr>, router_locked = False,
      chunks = [], chunks_locked = False, dead_peers = 0, world = w\<rparr>"

text \<open>
  \<open>bootstrap_cmd\<close> starts a thread for the \<open>startup\<close> of every session. In the model all
  sessions begin, in order, before the first one waits for its neighbour; then they join in
  the order the threads run. The key of session \<open>i\<close> and its temporary key for the neighbour
  are the draws \<open>2 * i\<close> and \<open>2 * i + 1\<close>.
\<close>

primrec begin_all :: "'v host \<Rightarrow> string list \<Rightarrow> nat list \<Rightarrow> 'v session list \<Rightarrow> cpp_error + 'v session list" where
  "begin_all h eps [] ns = Inr ns"
| "begin_all h eps (i # is) ns =
     and_then (on_node (length ns - length eps + i) (startup_begin (cluster_env (net h)) (draw h (2 * i)) (draw h (2 * i + 1))
                 (eps ! i) (eps ! (Suc i mod length eps))) ns) (\<lambda>(_, ns).
     begin_all h eps is ns)"

primrec join_all :: "'v host \<Rightarrow> string list \<Rightarrow> nat list \<Rightarrow> 'v session list \<Rightarrow> cpp_error + 'v session list" where
  "join_all h eps [] ns = Inr ns"
| "join_all h eps (i # is) ns =
     and_then (on_node (length ns - length eps + i) (startup_join (patience h) (cluster_env (net h)) (random_key (draw h (2 * i)))
                 (random_key (draw h (2 * i + 1))) (eps ! (Suc i mod length eps))) ns) (\<lambda>(_, ns).
     join_all h eps is ns)"

primrec teardown_all :: "'v host \<Rightarrow> nat list \<Rightarrow> 'v session list \<Rightarrow> cpp_error + 'v session list" where
  "teardown_all h [] ns = Inr ns"
| "teardown_all h (i # is) ns =
     and_then (on_node i (teardown (cluster_env (net h)) False) ns) (\<lambda>(_, ns). teardown_all h is ns)"

text \<open>\<open>exit_cmd\<close>; the background threads return once \<open>exiting\<close> is set (\<open>strain_step\<close> below).\<close>

definition exit_cmd :: "'v host \<Rightarrow> 'v control \<Rightarrow> ('v, unit) command_result" where
  "exit_cmd h c =
     (let c = c\<lparr>exiting := True, threads := 0\<rparr> in
      and_then (teardown_all h (sched h (length (sessions c))) (sessions c)) (\<lambda>ns.
      Inr ((), c\<lparr>sessions := ns\<rparr>)))"

definition bootstrap_cmd :: "'v host \<Rightarrow> 'v \<Rightarrow> string list \<Rightarrow> 'v control \<Rightarrow> ('v, bool) command_result" where
  "bootstrap_cmd h w eps c =
     (let c = c\<lparr>exiting := False, endpoints := eps, sessions := sessions c @ map (\<lambda>_. new_session w) eps,
                meta_from := length (sessions c), draws := 2 * length eps\<rparr> in
      and_then (begin_all h eps [0..<length eps] (sessions c)) (\<lambda>ns.
      and_then (join_all h eps (sched h (length eps)) ns) (\<lambda>ns.
      and_then (with_session h (init_index_file (sha1 h)) (c\<lparr>sessions := ns\<rparr>)) (\<lambda>(ok, c).
      if \<not> ok
      then and_then (exit_cmd h c) (\<lambda>(_, c).
           Inr (False, c\<lparr>cmd_err := ''Failed to initialize session index file''\<rparr>))
      else Inr (True, c\<lparr>cmd_out := ''Initialized sessions and index file for new cluster.''\<rparr>)))))"

definition join_cmd :: "'v host \<Rightarrow> 'v \<Rightarrow> string \<Rightarrow> string \<Rightarrow> 'v control \<Rightarrow> ('v, bool) command_result" where
  "join_cmd h w my_endpoint ext_endpoint c =
     (let c = c\<lparr>endpoints := endpoints c @ [my_endpoint], sessions := sessions c @ [new_session w],
                meta_from := length (sessions c), draws := draws c + 2\<rparr> in
      and_then (on_node (length (sessions c) - 1)
          (startup (patience h) (cluster_env (net h)) (draw h (draws c - 2)) (draw h (draws c - 1))
             my_endpoint ext_endpoint) (sessions c)) (\<lambda>(_, ns).
      Inr (True, c\<lparr>sessions := ns, cmd_out := ''Joined external session successfully.''\<rparr>)))"

section \<open>The strain reliever\<close>

definition dead_peers_total :: "'v control \<Rightarrow> uint" where
  "dead_peers_total c = sum_list (map dead_peers (drop (meta_from c) (sessions c)))"

text \<open>
  The loop that sets dummy chunks; its condition calls \<open>std::rand()\<close> every time it is tested.
  \<open>i\<close> is the loop variable.
\<close>

function dummy_sets :: "'v host \<Rightarrow> nat \<Rightarrow> 'v control \<Rightarrow> ('v, nat) command_result" where
  "dummy_sets h i c =
     (let r = rand h (rands c) mod 10; c = c\<lparr>rands := Suc (rands c)\<rparr> in
      if i < r
      then and_then (with_session h (\<lambda>E. session_set E (random_key (draw h (draws c))) [] False)
                       (c\<lparr>draws := Suc (draws c)\<rparr>)) (\<lambda>(_, c).
           dummy_sets h (Suc i) c)
      else Inr (i, c))"
  by pat_completeness auto
termination
proof (relation "measure (\<lambda>(h, i, c). 10 - i)")
  fix h :: "'v host" and i r :: nat and c :: "'v control"
  assume "r = rand h (rands c) mod 10" and "i < r"
  then have "i < 10" using mod_less_divisor [of 10 "rand h (rands c)"] by linarith
  then show "((h, Suc i, y), (h, i, c)) \<in> measure (\<lambda>(h, i, c). 10 - i)" for y by simp
qed simp

declare dummy_sets.simps [simp del]

text \<open>One iteration of the background thread: it waits, or returns, or relieves.\<close>

datatype strain_event = Waits | Returns | Relieved nat

definition strain_step :: "'v host \<Rightarrow> 'v control \<Rightarrow> ('v, strain_event) command_result" where
  "strain_step h c =
     (if \<not> exiting c \<and> thresh c \<le> dead_peers_total c then Inr (Waits, c)
      else let c = c\<lparr>sessions := take (meta_from c) (sessions c) @
                        map (\<lambda>n. n\<lparr>dead_peers := 0\<rparr>) (drop (meta_from c) (sessions c))\<rparr> in
           if exiting c then Inr (Returns, c)
           else and_then (dummy_sets h 0 c) (\<lambda>(n, c). Inr (Relieved n, c)))"

definition start_background_strain_reliever_cmd :: "'v control \<Rightarrow> bool \<times> 'v control" where
  "start_background_strain_reliever_cmd c = (True, c\<lparr>thresh := 15, threads := Suc (threads c)\<rparr>)"

end
