(* ===== verification/Catalog.thy ===== *)
theory Catalog
  imports Mesh_Map Shared_Files Commands
begin

text \<open>
  The commands of a client whose sessions all know each other refine a catalog of files:
  whichever session a command picks, a stored file is listed and loaded by all.
\<close>

interpretation mesh: shared_session "cluster_env V" "shared M i"
  for V :: "'v env" and M i
  by unfold_locales (blast intro: shared_set, rule shared_get)

section \<open>The cluster as one map\<close>

definition cluster_keeps :: "peer list \<Rightarrow> (key \<Rightarrow> string option) \<Rightarrow> 'v session list \<Rightarrow> bool" where
  "cluster_keeps M m ns \<longleftrightarrow> group M \<and> length ns = length M \<and>
     (\<forall>j<length M. knows M (M ! j) (ns ! j) \<and> kept (ns ! j) = m)"

lemma kept_enter [simp]: "kept (enter i ns) = kept (ns ! i)"
  by (rule kept_chunks) (simp add: enter_def Let_def)

lemma knows_enter [simp]: "knows M me (enter i ns) = knows M me (ns ! i)"
  by (simp add: enter_def Let_def knows_defs session_ok_def)

lemma world_enter [simp]: "world (enter i ns) = ns"
  by (simp add: enter_def Let_def)

lemma shared_enter:
  assumes "cluster_keeps M m ns" and "i < length M"
  shows "shared M i m (enter i ns)"
  using assms knows_self(2) by (fastforce simp: cluster_keeps_def shared_def mesh_with_def meshed_def)

lemma shared_leave:
  assumes "shared M i m s"
  shows "cluster_keeps M m (leave i s)"
proof -
  let ?n = "leave i s ! i"
  have s: "group M" "meshed M i s" "kept s = m" "\<And>j. j < length M \<Longrightarrow> j \<noteq> i \<Longrightarrow> kept (world s ! j) = m"
    using assms by (simp_all add: shared_def mesh_with_def)
  then have l: "i < length (world s)" by (simp add: meshed_def)
  then have n: "chunks ?n = chunks s" "knows M (M ! i) ?n"
    using s(2) by (simp_all add: leave_def meshed_def knows_defs session_ok_def)
  have at: "leave i s ! j = world s ! j" if "j \<noteq> i" for j using that by (simp add: leave_def)
  have "knows M (M ! j) (leave i s ! j) \<and> kept (leave i s ! j) = m" if j: "j < length M" for j
    using s n kept_chunks [OF n(1)] at [of j] j by (cases "j = i") (simp_all add: meshed_def)
  moreover have "length (leave i s) = length M" using s(2) by (simp add: meshed_def leave_def)
  ultimately show ?thesis using s(1) by (simp add: cluster_keeps_def)
qed

lemma on_node_shared:
  assumes "cluster_keeps M m ns" and "i < length ns"
    and "\<And>s. shared M i m s \<Longrightarrow> \<exists>t. f s = Inr (x, t) \<and> shared M i m' t"
  shows "\<exists>ns'. on_node i f ns = Inr (x, ns') \<and> cluster_keeps M m' ns'"
proof -
  have "i < length M" using assms(1,2) by (simp add: cluster_keeps_def)
  from assms(3) [OF shared_enter [OF assms(1) this]] shared_leave show ?thesis by (auto simp: on_node_def)
qed

lemma with_session_shared:
  assumes "cluster_keeps M m (sessions c)"
    and "\<And>i s. shared M i m s \<Longrightarrow> \<exists>t. f (cluster_env (net h)) s = Inr (x, t) \<and> shared M i m' t"
  shows "\<exists>ns. with_session h f c = Inr (x, c\<lparr>rands := Suc (rands c), sessions := ns\<rparr>) \<and> cluster_keeps M m' ns"
proof -
  have ne: "sessions c \<noteq> []" using assms(1) by (auto simp: cluster_keeps_def group_def)
  let ?i = "rand h (rands c) mod length (sessions c)"
  obtain ns where "on_node ?i (f (cluster_env (net h))) (sessions c) = Inr (x, ns)" "cluster_keeps M m' ns"
    using on_node_shared [OF assms(1), of ?i "f (cluster_env (net h))"] assms(2) ne by fastforce
  with ne show ?thesis by (auto simp: with_session_def pick_def)
qed


section \<open>The commands\<close>

definition represents :: "'v host \<Rightarrow> string set \<Rightarrow> string set \<Rightarrow> catalog \<Rightarrow> 'v control \<Rightarrow> bool" where
  "represents h C N a c \<longleftrightarrow> (\<exists>M m. cluster_keeps M m (sessions c) \<and> catalogs (sha1 h) C N a m)"

text \<open>The lines of an answer.\<close>

definition lines_of :: "string list \<Rightarrow> string" where
  "lines_of ls = concat (map (\<lambda>l. l @ [newline]) ls)"

lemma fold_lines: "fold (\<lambda>file out. out @ file @ [newline]) files s = s @ lines_of files"
  by (induction files arbitrary: s) (simp_all add: lines_of_def)

lemma represents_same [simp]:
  "represents h C N a (c\<lparr>cmd_err := e\<rparr>) = represents h C N a c"
  "represents h C N a (c\<lparr>cmd_out := e\<rparr>) = represents h C N a c"
  "represents h C N a (c\<lparr>disk := d\<rparr>) = represents h C N a c"
  "represents h C N a (c\<lparr>rands := r\<rparr>) = represents h C N a c"
  by (simp_all add: represents_def)

text \<open>
  What the loop of \<open>store_cmd\<close> does to the catalog, with the files it skips reported in \<open>errs\<close>;
  \<open>added\<close> are the names added so far.
\<close>

fun catalog_store ::
  "(string \<Rightarrow> string option) \<Rightarrow> string list \<Rightarrow> string list \<Rightarrow> string \<Rightarrow> catalog \<Rightarrow> string list \<times> string \<times> catalog" where
  "catalog_store files [] added errs a = (added, errs, a)"
| "catalog_store files (p # ps) added errs a =
     (if file_name p \<in> set added \<union> set (listed a)
      then catalog_store files ps added (errs @ ''File'' @ p @ '' already exists in the current session. Skipping.'') a
      else case files p of
             None \<Rightarrow> catalog_store files ps added (errs @ ''File '' @ p @ '' does not exist or read failed. Skipping.'') a
           | Some b \<Rightarrow> catalog_store files ps (added @ [file_name p]) errs (a\<lparr>content := (content a)(file_name p \<mapsto> b)\<rparr>))"

lemma catalog_store_listed: "catalog_store files ps added errs a = (added', errs', a') \<Longrightarrow> listed a' = listed a"
  by (induction files ps added errs a rule: catalog_store.induct) (auto split: option.splits if_splits)

lemma catalog_store_added:
  "catalog_store files ps added errs a = (added', errs', a') \<Longrightarrow>
     distinct added \<Longrightarrow> set added \<inter> set (listed a) = {} \<Longrightarrow>
     distinct added' \<and> set added' \<inter> set (listed a) = {} \<and> set added' \<subseteq> set added \<union> file_name ` set ps"
proof (induction files ps added errs a rule: catalog_store.induct)
  case (2 files p ps added errs a)
  show ?case
  proof (cases "file_name p \<in> set added \<union> set (listed a)")
    case True
    with 2 show ?thesis by auto
  next
    case False
    with 2 show ?thesis by (cases "files p") auto
  qed
qed simp

text \<open>Files that can be stored: their names and chunks are among those the digest tells apart.\<close>

definition storable :: "string set \<Rightarrow> string set \<Rightarrow> (string \<Rightarrow> string option) \<Rightarrow> string list \<Rightarrow> bool" where
  "storable C N files ps \<longleftrightarrow> (\<forall>p\<in>set ps. file_name p \<in> N - {''index''} \<and>
     (\<forall>b. files p = Some b \<longrightarrow> set (read_chunks b) \<subseteq> C \<and> length b < 2 ^ 43))"

definition orders_threads :: "'v host \<Rightarrow> bool" where
  "orders_threads h \<longleftrightarrow> (\<forall>l. mset (sched h l) = mset [0..<l])"

lemma store_files_catalog:
  assumes "represents h C N a c" and "storable C N (disk c) ps" and "orders_threads h"
    and "catalog_store (disk c) ps added (cmd_err c) a = (added', errs, a')"
  shows "\<exists>c'. store_files h ps added c = Inr (added', c') \<and>
    represents h C N a' c' \<and> disk c' = disk c \<and> cmd_out c' = cmd_out c \<and> cmd_err c' = errs"
  using assms(1,2,4)
proof (induction ps arbitrary: a c added)
  case (Cons p ps)
  let ?n = "file_name p"
  have n: "?n \<in> N - {''index''}" and ps: "storable C N (disk c) ps" using Cons.prems(2) by (simp_all add: storable_def)
  obtain M m where k: "cluster_keeps M m (sessions c)" and m: "catalogs (sha1 h) C N a m"
    using Cons.prems(1) by (auto simp: represents_def)
  let ?there = "\<lambda>c. if ?n \<in> set added then Inr (True, c) else with_session h (\<lambda>E. file_exists (sha1 h) E ?n) c"
  obtain c1 where c1: "?there c = Inr (?n \<in> set added \<union> set (listed a), c1)" "cluster_keeps M m (sessions c1)"
      "disk c1 = disk c" "cmd_out c1 = cmd_out c" "cmd_err c1 = cmd_err c"
  proof (cases "?n \<in> set added")
    case True
    with k that show ?thesis by simp
  next
    case False
    with with_session_shared [OF k, of "\<lambda>E. file_exists (sha1 h) E ?n" h "?n \<in> set (listed a)" m]
      mesh.index_shared(2) [OF _ m] n that show ?thesis by fastforce
  qed
  have r1: "represents h C N a c1" using c1(2) m by (auto simp: represents_def)
  show ?case
  proof (cases "?n \<in> set added \<union> set (listed a)")
    case True
    with c1 ps r1 Cons.prems(3) Cons.IH [of a "c1\<lparr>cmd_err := cmd_err c1 @ ''File'' @ p @ '' already exists in the current session. Skipping.''\<rparr>" added]
    show ?thesis by (auto simp: Let_def)
  next
    case new: False
    show ?thesis
    proof (cases "disk c p")
      case None
      have "\<exists>ns. with_session h (\<lambda>E. write_from_file (sha1 h) E (sched h) None ?n) c1 =
          Inr (False, c1\<lparr>rands := Suc (rands c1), sessions := ns\<rparr>) \<and> cluster_keeps M m ns"
        by (rule with_session_shared [OF c1(2)]) (simp add: write_from_file_def)
      then obtain c2 where c2: "with_session h (\<lambda>E. write_from_file (sha1 h) E (sched h) None ?n) c1 = Inr (False, c2)"
          "cluster_keeps M m (sessions c2)" "disk c2 = disk c" "cmd_out c2 = cmd_out c" "cmd_err c2 = cmd_err c"
        using c1(3-5) by fastforce
      have "represents h C N a c2" using c2(2) m by (auto simp: represents_def)
      with new None c1 c2 ps Cons.prems(3) Cons.IH [of a "c2\<lparr>cmd_err := cmd_err c2 @ ''File '' @ p @ '' does not exist or read failed. Skipping.''\<rparr>" added]
      show ?thesis by (auto simp: Let_def)
    next
      case (Some b)
      have b: "set (read_chunks b) \<subseteq> C" "length b < 2 ^ 43" using Cons.prems(2) Some by (simp_all add: storable_def)
      have "\<exists>ns. with_session h (\<lambda>E. write_from_file (sha1 h) E (sched h) (Some b) ?n) c1 =
          Inr (True, c1\<lparr>rands := Suc (rands c1), sessions := ns\<rparr>) \<and> cluster_keeps M (with_file (sha1 h) ?n b m) ns"
        using assms(3) by (intro with_session_shared [OF c1(2)] mesh.write_shared [OF _ m n b]) (simp_all add: orders_threads_def)
      then obtain c2 where c2: "with_session h (\<lambda>E. write_from_file (sha1 h) E (sched h) (Some b) ?n) c1 = Inr (True, c2)"
          "cluster_keeps M (with_file (sha1 h) ?n b m) (sessions c2)" "disk c2 = disk c" "cmd_out c2 = cmd_out c" "cmd_err c2 = cmd_err c"
        using c1(3-5) by fastforce
      have "represents h C N (a\<lparr>content := (content a)(?n \<mapsto> b)\<rparr>) c2"
        using c2(2) catalogs_with_file [OF m n b(1)] by (auto simp: represents_def)
      with new Some c1 c2 ps Cons.prems(3) Cons.IH [of "a\<lparr>content := (content a)(?n \<mapsto> b)\<rparr>" c2 "added @ [?n]"]
      show ?thesis by (auto simp: Let_def)
    qed
  qed
qed simp

text \<open>store_cmd refines storing in the catalog: whichever sessions its steps pick, it succeeds,
  adds to the index exactly the files that can be read and are not listed yet, each once, in
  the order of the command, with the content they have on the disk, reports them, and
  reports every file it skips.\<close>

lemma store_cmd_catalog:
  assumes "represents h C N a c" and "storable C N (disk c) ps" and "orders_threads h"
    and "catalog_store (disk c) ps [] (cmd_err c) a = (added, errs, a')"
    and "length (index_text (listed a @ added)) < 2 ^ 31"
  shows "\<exists>c'. store_cmd h ps c = Inr (True, c') \<and> disk c' = disk c \<and>
    represents h C N (a'\<lparr>listed := listed a @ added\<rparr>) c' \<and> cmd_err c' = errs \<and>
    cmd_out c' = lines_of (''Successfully stored the following files'' # added) \<and>
    distinct added \<and> set added \<inter> set (listed a) = {}"
proof -
  obtain c1 where c1: "store_files h ps [] c = Inr (added, c1)" "represents h C N a' c1" "disk c1 = disk c" "cmd_err c1 = errs"
    using store_files_catalog [OF assms(1-4)] by auto
  have added: "distinct added" "set added \<inter> set (listed a) = {}" "set added \<subseteq> N"
    using catalog_store_added [OF assms(4)] assms(2) by (auto simp: storable_def)
  have listed: "listed a' = listed a" by (rule catalog_store_listed [OF assms(4)])
  obtain M m where k: "cluster_keeps M m (sessions c1)" and m: "catalogs (sha1 h) C N a' m"
    using c1(2) by (auto simp: represents_def)
  let ?a = "a'\<lparr>listed := listed a @ added\<rparr>"
  have "sessions c1 \<noteq> []" using k by (auto simp: cluster_keeps_def group_def)
  then obtain i where i: "i < length (sessions c1)" "pick h c1 = Inr (i, c1\<lparr>rands := Suc (rands c1)\<rparr>)"
    by (fastforce simp: pick_def)
  then have "i < length M" using k by (simp add: cluster_keeps_def)
  from mesh.add_files_shared [OF shared_enter [OF k this] m added(3), where V = "net h"] assms(5) listed obtain m' t where
    t: "add_files_to_index_file (sha1 h) (cluster_env (net h)) added (enter i (sessions c1)) = Inr (True, t)"
      "shared M i m' t" "catalogs (sha1 h) C N ?a m'"
    by auto
  have "represents h C N ?a (c1\<lparr>rands := Suc (rands c1), sessions := leave i t\<rparr>)"
    using shared_leave [OF t(2)] t(3) by (auto simp: represents_def)
  with i t(1) c1(1,3,4) added(1,2) show ?thesis
    by (auto simp: store_cmd_def with_session_def on_node_def fold_lines lines_of_def)
qed

text \<open>list_cmd succeeds through whichever session and answers the word INDEX and the listed names,
  one to a line; the catalog is not changed.\<close>

lemma list_cmd_catalog:
  assumes "represents h C N a c"
  shows "\<exists>c'. list_cmd h c = Inr (True, c') \<and> represents h C N a c' \<and> disk c' = disk c \<and>
    cmd_err c' = cmd_err c \<and> cmd_out c' = cmd_out c @ lines_of (''INDEX'' # listed a)"
proof -
  obtain M m where k: "cluster_keeps M m (sessions c)" and m: "catalogs (sha1 h) C N a m"
    using assms by (auto simp: represents_def)
  obtain ns where ns: "with_session h (get_index_files (sha1 h)) c =
      Inr (Some (listed a), c\<lparr>rands := Suc (rands c), sessions := ns\<rparr>)" "cluster_keeps M m ns"
    using with_session_shared [OF k, of "get_index_files (sha1 h)" h "Some (listed a)" m] mesh.index_shared(1) [OF _ m]
    by blast
  then have "represents h C N a (c\<lparr>rands := Suc (rands c), sessions := ns\<rparr>)"
    using m by (auto simp: represents_def)
  with ns(1) show ?thesis by (simp add: list_cmd_def fold_lines lines_of_def)
qed

text \<open>load_cmd through whichever session writes the contents of the files it is given, one after
  the other, to the output file; it changes no other file of the disk and not the catalog.\<close>

lemma load_cmd_catalog:
  assumes "represents h C N a c" and "orders_threads h" and "writable h out"
    and "\<forall>n\<in>set names. content a n = Some (f n)"
  shows "\<exists>c'. load_cmd h names out c = Inr (True, c') \<and> represents h C N a c' \<and>
    disk c' = (disk c)(out \<mapsto> concat (map f names)) \<and> cmd_err c' = cmd_err c \<and>
    cmd_out c' = ''Successfully loaded all files into output file '' @ out"
proof -
  obtain M m where k: "cluster_keeps M m (sessions c)" and m: "catalogs (sha1 h) C N a m"
    using assms(1) by (auto simp: represents_def)
  have held: "\<forall>n\<in>set names. holds_file (sha1 h) m n (f n)"
    using m assms(4) by (auto simp: catalogs_def)
  have order: "mset (sched h l) = mset [0..<l]" for l
    using assms(2) by (simp add: orders_threads_def)
  have "\<exists>ns. with_session h (\<lambda>E. read_in_files (sha1 h) E (sched h) names) c =
      Inr (Some (concat (map f names)), c\<lparr>rands := Suc (rands c), sessions := ns\<rparr>) \<and> cluster_keeps M m ns"
    by (rule with_session_shared [OF k]) (rule mesh.read_shared [OF _ held order])
  then obtain ns where ns: "with_session h (\<lambda>E. read_in_files (sha1 h) E (sched h) names) c =
      Inr (Some (concat (map f names)), c\<lparr>rands := Suc (rands c), sessions := ns\<rparr>)" "cluster_keeps M m ns" by blast
  then have "represents h C N a (c\<lparr>rands := Suc (rands c), sessions := ns\<rparr>)"
    using m by (auto simp: represents_def)
  with ns(1) assms(3) show ?thesis by (simp add: load_cmd_def)
qed

section \<open>Examples\<close>

text \<open>A client with two sessions that know each other and keep the given data.\<close>

definition sample_group :: "peer list" where
  "sample_group = [sample_self, sample_peer 1]"

definition member_session :: "(key \<times> string) list \<Rightarrow> peer \<Rightarrow> peer \<Rightarrow> unit session" where
  "member_session kds me other =
     \<lparr>dying = False, router_of = \<lparr>self_peer = me, table = Leaf 159 1 0 [other]\<rparr>,
      router_locked = False, chunks = map (\<lambda>(k, d). (k, new_chunk 0 k d True 0)) kds,
      chunks_locked = False, dead_peers = 0, world = ()\<rparr>"

definition sample_cluster :: "(key \<times> string) list \<Rightarrow> unit session list" where
  "sample_cluster kds = [member_session kds sample_self (sample_peer 1), member_session kds (sample_peer 1) sample_self]"

definition sample_host :: "unit host" where
  "sample_host =
     \<lparr>net = silent_env, sha1 = length_digest, rand = \<lambda>i. i, draw = \<lambda>i j. i = j, sched = \<lambda>n. [0..<n],
      writable = \<lambda>_. True, patience = 1\<rparr>"

definition sample_control :: "(key \<times> string) list \<Rightarrow> unit control" where
  "sample_control kds =
     \<lparr>exiting = False, endpoints = [''a:1'', ''b:1''], sessions = sample_cluster kds, threads = 0, cmd_err = [], cmd_out = [],
      thresh = 0, meta_from = 0, rands = 0, draws = 4, disk = [''dir/ab'' \<mapsto> ''hey'']\<rparr>"

lemma sample_cluster_keeps:
  "cluster_keeps sample_group (map_of kds) (sample_cluster kds)"
proof -
  have "knows sample_group sample_self (member_session kds sample_self (sample_peer 1))"
    "knows sample_group (sample_peer 1) (member_session kds (sample_peer 1) sample_self)"
    by (auto simp: knows_defs sample_group_def member_session_def session_ok_def wf_router_def tree_keys_def others_def
        sample_self_def sample_peer_def)
  moreover have "kept (member_session kds p q) = map_of kds" for p q
  proof
    have "map_of (map (\<lambda>(k, d). (k, new_chunk 0 k d True 0)) kds) k = map_option (\<lambda>d. new_chunk 0 k d True 0) (map_of kds k)" for k
      by (induction kds) auto
    then show "kept (member_session kds p q) k = map_of kds k" for k
      by (cases "map_of kds k") (simp_all add: kept_def member_session_def new_chunk_def)
  qed
  moreover have "group sample_group" by (simp add: group_def sample_group_def sample_self_def sample_peer_def)
  ultimately show ?thesis
    by (auto simp: cluster_keeps_def sample_group_def sample_cluster_def less_Suc_eq nth_Cons')
qed

lemma sample_digest_ok: "digest_ok length_digest {''hey''} {''ab'', ''index''}"
  using length_digest_key by (auto simp: digest_ok_def inj_on_def)

abbreviation sample_key :: "string \<Rightarrow> key" where
  "sample_key \<equiv> key_from_data length_digest"

text \<open>The data the sessions keep before and after the file \<open>ab\<close> is stored.\<close>

definition no_files :: "(key \<times> string) list" where
  "no_files = [(sample_key ''index'', [])]"

definition one_file :: "(key \<times> string) list" where
  "one_file =
     [(sample_key ''index'', ''ab'' @ [nul]), (sample_key ''hey'', ''hey''), (sample_key ''ab'', encode_keys [sample_key ''hey''])]"

lemma hey_chunks: "read_chunks ''hey'' = [''hey'']"
  by (simp add: short_read_chunks max_chunk_size_def)

lemma sample_represents:
  "represents sample_host {''hey''} {''ab'', ''index''} \<lparr>listed = [], content = \<lambda>_. None\<rparr> (sample_control no_files)"
  "represents sample_host {''hey''} {''ab'', ''index''} \<lparr>listed = [''ab''], content = [''ab'' \<mapsto> ''hey'']\<rparr> (sample_control one_file)"
proof -
  have catalogs: "represents sample_host {''hey''} {''ab'', ''index''} a (sample_control kds)"
    if "catalogs length_digest {''hey''} {''ab'', ''index''} a (map_of kds)" for a kds
    using that sample_cluster_keeps by (auto simp: represents_def sample_control_def sample_host_def)
  show "represents sample_host {''hey''} {''ab'', ''index''} \<lparr>listed = [], content = \<lambda>_. None\<rparr> (sample_control no_files)"
    by (rule catalogs)
       (simp add: catalogs_def sample_digest_ok no_files_def index_text_def index_key_def key_from_string_def length_digest_key)
  show "represents sample_host {''hey''} {''ab'', ''index''} \<lparr>listed = [''ab''], content = [''ab'' \<mapsto> ''hey'']\<rparr>
      (sample_control one_file)"
    by (rule catalogs)
       (simp add: catalogs_def sample_digest_ok one_file_def index_text_def index_key_def key_from_string_def
         length_digest_key holds_file_def hey_chunks)
qed

lemma sample_storable: "storable {''hey''} {''ab'', ''index''} (disk (sample_control kds)) [''dir/ab'']"
  by (simp add: storable_def sample_control_def file_name_def hey_chunks)

lemma sample_threads: "orders_threads sample_host"
  by (simp add: orders_threads_def sample_host_def)

lemma sample_catalog_store:
  "catalog_store (disk (sample_control kds)) [''dir/ab''] [] (cmd_err (sample_control kds)) \<lparr>listed = [], content = \<lambda>_. None\<rparr> =
     ([''ab''], [], \<lparr>listed = [], content = [''ab'' \<mapsto> ''hey'']\<rparr>)"
  by (simp add: sample_control_def file_name_def)


end
