(* ===== verification/Daemon.thy ===== *)
theory Daemon
  imports Commands Pipes_Properties
begin

text \<open>
  The daemon and its client: the loop of \<open>run_founder_session_daemon\<close> and the local files from
  \<open>src/client/daemon.cpp\<close>, and the handlers and the command line from \<open>src/client/founder.cpp\<close>.
\<close>

section \<open>Local files\<close>

text \<open>\<open>std::to_string\<close> of a nonnegative number. \<open>dir\<close> is the working directory.\<close>

definition dec_digit :: "nat \<Rightarrow> char" where
  "dec_digit n = ''0123456789'' ! n"

fun dec_of_nat :: "nat \<Rightarrow> string" where
  "dec_of_nat n = (if n < 10 then [dec_digit n] else dec_of_nat (n div 10) @ [dec_digit (n mod 10)])"

declare dec_of_nat.simps [simp del]

definition session_dir :: "string \<Rightarrow> nat \<Rightarrow> string" where
  "session_dir dir session_id = dir @ ''/daemons/'' @ dec_of_nat session_id"

definition logs_file :: "string \<Rightarrow> nat \<Rightarrow> string" where
  "logs_file dir session_id = session_dir dir session_id @ ''/logs''"

definition cmd_file :: "string \<Rightarrow> nat \<Rightarrow> string" where
  "cmd_file dir session_id = session_dir dir session_id @ ''/cmd''"

definition err_file :: "string \<Rightarrow> nat \<Rightarrow> string" where
  "err_file dir session_id = session_dir dir session_id @ ''/err''"

text \<open>
  The files of the client are the set of their paths; \<open>creatable\<close> says which new ones the
  system lets the program create. \<open>std::filesystem::create_directory\<close> returns false when the
  path exists and throws when the directory cannot be made.
\<close>

definition create_directory :: "(string \<Rightarrow> bool) \<Rightarrow> string \<Rightarrow> string set \<Rightarrow> cpp_error + (bool \<times> string set)" where
  "create_directory creatable path paths =
     (if path \<in> paths then Inr (False, paths)
      else if creatable path then Inr (True, insert path paths) else Inl Filesystem_Error)"

text \<open>\<open>mkfifo\<close>: the result is whether it is not negative.\<close>

definition mkfifo :: "(string \<Rightarrow> bool) \<Rightarrow> string \<Rightarrow> string set \<Rightarrow> bool \<times> string set" where
  "mkfifo creatable path paths =
     (if path \<notin> paths \<and> creatable path then (True, insert path paths) else (False, paths))"

text \<open>A \<open>std::ofstream\<close> that is constructed and destroyed.\<close>

definition touch :: "(string \<Rightarrow> bool) \<Rightarrow> string \<Rightarrow> string set \<Rightarrow> string set" where
  "touch creatable path paths = (if creatable path then insert path paths else paths)"

definition make_if_missing :: "(string \<Rightarrow> bool) \<Rightarrow> string \<Rightarrow> string set \<Rightarrow> cpp_error + (bool \<times> string set)" where
  "make_if_missing creatable path paths =
     (if path \<notin> paths then create_directory creatable path paths else Inr (True, paths))"

text \<open>\<open>setup_client\<close>: whether it returned true, the loggers it registered, and the files.\<close>

definition setup_client ::
  "(string \<Rightarrow> bool) \<Rightarrow> string \<Rightarrow> string set \<Rightarrow> cpp_error + (bool \<times> string set \<times> string set)" where
  "setup_client creatable home paths =
     (let client_dir = home @ ''/.distft''; client_logs = client_dir @ ''/client_logs'' in
      and_then (make_if_missing creatable client_dir paths) (\<lambda>(ok, paths).
      if \<not> ok then Inr (False, {}, paths)
      else and_then (make_if_missing creatable (client_dir @ ''/daemons'') paths) (\<lambda>(ok, paths).
           if \<not> ok then Inr (False, {}, paths)
           else Inr (True, {''client_logger''},
                     if client_logs \<notin> paths then touch creatable client_logs paths else paths))))"

definition add_daemon_files ::
  "(string \<Rightarrow> bool) \<Rightarrow> string \<Rightarrow> nat \<Rightarrow> string set \<Rightarrow> cpp_error + (bool \<times> string set)" where
  "add_daemon_files creatable dir session_id paths =
     and_then (create_directory creatable (session_dir dir session_id) paths) (\<lambda>(ok, paths).
     if \<not> ok then Inr (False, paths)
     else Inr
       (let (ok, paths) = mkfifo creatable (cmd_file dir session_id) (touch creatable (logs_file dir session_id) paths) in
        if \<not> ok then (False, paths) else mkfifo creatable (err_file dir session_id) paths))"

text \<open>\<open>std::filesystem::remove\<close> throws for a directory that is not empty.\<close>

definition remove_daemon_files :: "string \<Rightarrow> nat \<Rightarrow> string set \<Rightarrow> cpp_error + string set" where
  "remove_daemon_files dir session_id paths =
     (let d = session_dir dir session_id;
          paths = paths - {logs_file dir session_id} - {cmd_file dir session_id} - {err_file dir session_id} in
      if \<exists>p\<in>paths. take (length d + 1) p = d @ ''/'' then Inl Filesystem_Error else Inr (paths - {d}))"

section \<open>The daemon\<close>

datatype cmd_code = HELP | START | EXIT | LIST | STORE | LOAD

primrec code_char :: "cmd_code \<Rightarrow> char" where
  "code_char HELP = CHR 0x00"
| "code_char START = CHR 0x01"
| "code_char EXIT = CHR 0x02"
| "code_char LIST = CHR 0x03"
| "code_char STORE = CHR 0x04"
| "code_char LOAD = CHR 0x05"

definition bool_char :: "bool \<Rightarrow> char" where
  "bool_char b = (if b then CHR 0x01 else CHR 0x00)"

text \<open>The variables of the loop live on between its iterations.\<close>

record 'v daemon =
  ctrl :: "'v control"
  vars :: command

text \<open>What an iteration does to the outside: the process exits, it answers, or it skips the request.\<close>

datatype daemon_event = Exits | Answers bool out_pipe | Skips

text \<open>
  One iteration on what is in the command pipe. \<open>junk\<close> is the initial value of the buffer of
  \<open>read_cmd\<close>; \<open>sys\<close> and \<open>opened\<close> are the system's side of the pipe for the answer. The value is
  \<open>None\<close> when \<open>read_cmd\<close> does not return.
\<close>

definition daemon_step ::
  "'v host \<Rightarrow> char \<Rightarrow> write_results \<Rightarrow> bool \<Rightarrow> in_pipe \<Rightarrow> 'v daemon \<Rightarrow>
     (cpp_error + (daemon_event \<times> 'v daemon)) option" where
  "daemon_step h junk sys opened p d =
     (let c = clear_cmd (ctrl d);
          reply = (\<lambda>(success, c) v.
            let (ok, out) = write_err sys opened (bool_char (\<not> success)) (cmd_err c) (cmd_out c)
            in Inr (Answers ok out, \<lparr>ctrl = c, vars = v\<rparr>))
      in case read_cmd junk (vars d) p of
           None \<Rightarrow> None
         | Some (ok, v, _) \<Rightarrow> Some
             (if \<not> ok then Inr (Skips, \<lparr>ctrl = c, vars = v\<rparr>)
              else if cmd v = code_char EXIT
              then and_then (exit_cmd h c) (\<lambda>(_, c). Inr (Exits, \<lparr>ctrl = c, vars = v\<rparr>))
              else if cmd v = code_char LIST
              then and_then (list_cmd h c) (\<lambda>r. reply r v)
              else if cmd v = code_char STORE
              then and_then (store_cmd h (args v) c) (\<lambda>r. reply r v)
              else if cmd v = code_char LOAD
              then (if args v = [] then Inl Out_Of_Bounds
                    else and_then (load_cmd h (butlast (args v)) (last (args v)) c) (\<lambda>r.
                         reply r (v\<lparr>args := butlast (args v)\<rparr>)))
              else Inr (Skips, \<lparr>ctrl = c, vars = v\<rparr>)))"

text \<open>
  The start of the daemon: the client that forked it gets the first answer. The result says
  whether the daemon goes on to its loop.
\<close>

definition daemon_start ::
  "'v host \<Rightarrow> write_results \<Rightarrow> bool \<Rightarrow> 'v \<Rightarrow> string list \<Rightarrow> 'v control \<Rightarrow>
     cpp_error + (bool \<times> out_pipe \<times> 'v control)" where
  "daemon_start h sys opened w eps c =
     and_then (bootstrap_cmd h w eps c) (\<lambda>(ok, c).
     let (ok2, c) = (if ok then start_background_strain_reliever_cmd c else (False, c)) in
     if \<not> ok \<or> \<not> ok2
     then Inr (False, snd (write_err sys opened (bool_char True) (cmd_err c) (cmd_out c)), c)
     else Inr (True, snd (write_err sys opened (bool_char False) (cmd_err c) (cmd_out c)), c))"

text \<open>The loop on a sequence of requests, with the answers it gives, until a command to exit.\<close>

fun daemon_run ::
  "'v host \<Rightarrow> char \<Rightarrow> write_results \<Rightarrow> bool \<Rightarrow> in_pipe list \<Rightarrow> 'v daemon \<Rightarrow>
     (cpp_error + (daemon_event list \<times> 'v daemon)) option" where
  "daemon_run h junk sys opened [] d = Some (Inr ([], d))"
| "daemon_run h junk sys opened (p # ps) d =
     (case daemon_step h junk sys opened p d of
        None \<Rightarrow> None
      | Some (Inl e) \<Rightarrow> Some (Inl e)
      | Some (Inr (Exits, d)) \<Rightarrow> Some (Inr ([Exits], d))
      | Some (Inr (ev, d)) \<Rightarrow>
          (case daemon_run h junk sys opened ps d of
             None \<Rightarrow> None
           | Some (Inl e) \<Rightarrow> Some (Inl e)
           | Some (Inr (evs, d)) \<Rightarrow> Some (Inr (ev # evs, d))))"

section \<open>The client's handlers\<close>

text \<open>What \<open>print_result\<close> prints, one entry for each \<open>std::endl\<close>; a C string ends at its first NUL.\<close>

definition c_str :: "string \<Rightarrow> string" where
  "c_str s = takeWhile (\<lambda>c. c \<noteq> nul) s"

definition print_result :: "bool \<Rightarrow> string \<Rightarrow> string \<Rightarrow> string list" where
  "print_result e m1 m2 =
     (if e then [''Error occurred in daemon while processing command. :('' ] else []) @
     (if m1 \<noteq> [] then [c_str m1] else []) @ (if m2 \<noteq> [] then [c_str m2] else [])"

definition SUCCESS :: int where "SUCCESS = 0"
definition INTERNAL_ERROR :: int where "INTERNAL_ERROR = 1"
definition USER_ERROR :: int where "USER_ERROR = 2"

text \<open>
  What a client run depends on: the loggers that are registered, whether the command pipe
  could be opened and what its writes return, its process id, the values of uninitialised
  variables, and what it finds in the answer pipe, given what it wrote.
\<close>

record client_env =
  loggers :: "string set"
  cmd_opened :: bool
  cmd_writes :: write_results
  pid :: "32 word"
  junk_err :: char
  junk_buff :: char
  answer_pipe :: "string \<Rightarrow> in_pipe"

text \<open>A client run returns its exit status and the lines it printed, or does not return.\<close>

type_synonym client_result = "(cpp_error + (int \<times> string list)) option"

definition receive_result :: "client_env \<Rightarrow> string \<Rightarrow> client_result" where
  "receive_result e sent =
     (case read_err (loggers e) (junk_buff e) \<lparr>err = junk_err e, err_msg = [], succ_msg = []\<rparr> (answer_pipe e sent) of
        None \<Rightarrow> None
      | Some (Inl x) \<Rightarrow> Some (Inl x)
      | Some (Inr (ok, a)) \<Rightarrow> Some (Inr
          (if \<not> ok then (INTERNAL_ERROR, [''Failed to receive result from daemon. :('' ])
           else (SUCCESS, print_result (err a \<noteq> nul) (err_msg a) (succ_msg a)))))"

definition send_cmd :: "client_env \<Rightarrow> cmd_code \<Rightarrow> char \<Rightarrow> string list \<Rightarrow> cpp_error + (bool \<times> out_pipe)" where
  "send_cmd e code n as =
     write_cmd (loggers e) (cmd_writes e) (cmd_opened e)
       \<lparr>client_id = pid e, cmd = code_char code, argc = n, args = as\<rparr>"

definition handle_exit :: "client_env \<Rightarrow> string \<Rightarrow> nat \<Rightarrow> string set \<Rightarrow> cpp_error + (int \<times> string list \<times> string set)" where
  "handle_exit e dir session_id paths =
     and_then (send_cmd e EXIT nul []) (\<lambda>(ok, p).
     if \<not> ok then Inr (INTERNAL_ERROR, [''Failed to send exit cmd to daemon. :('' ], paths)
     else and_then (remove_daemon_files dir session_id paths) (\<lambda>paths. Inr (SUCCESS, [], paths)))"

definition handle_list :: "client_env \<Rightarrow> client_result" where
  "handle_list e =
     (case send_cmd e LIST nul [] of
        Inl x \<Rightarrow> Some (Inl x)
      | Inr (ok, p) \<Rightarrow>
          if \<not> ok then Some (Inr (INTERNAL_ERROR, [''Failed to send list cmd to daemon. :('' ]))
          else receive_result e (written p))"

definition founder_handle_store :: "client_env \<Rightarrow> char \<Rightarrow> string list \<Rightarrow> client_result" where
  "founder_handle_store e file_cnt files =
     (case send_cmd e STORE file_cnt files of
        Inl x \<Rightarrow> Some (Inl x)
      | Inr (ok, p) \<Rightarrow>
          if \<not> ok then Some (Inr (INTERNAL_ERROR, [''Failed to send store cmd to daemon. :('' ]))
          else receive_result e (written p))"

definition handle_load :: "client_env \<Rightarrow> char \<Rightarrow> string list \<Rightarrow> client_result" where
  "handle_load e file_cnt files =
     (case send_cmd e LOAD file_cnt files of
        Inl x \<Rightarrow> Some (Inl x)
      | Inr (ok, p) \<Rightarrow>
          if \<not> ok then Some (Inr (INTERNAL_ERROR, [''Failed to send load cmd to daemon. :('' ]))
          else receive_result e (written p))"

text \<open>
  The parent's side of \<open>handle_start\<close>; \<open>forked\<close> is the result of \<open>fork\<close>, not 0 in the parent.
  The result of \<open>add_daemon_files\<close> is not looked at.
\<close>

definition handle_start :: "client_env \<Rightarrow> (string \<Rightarrow> bool) \<Rightarrow> string \<Rightarrow> int \<Rightarrow> string set \<Rightarrow> client_result \<times> string set" where
  "handle_start e creatable dir forked paths =
     (if forked < 0 then (Some (Inr (INTERNAL_ERROR, [''Failed to create new daemon. Aborting. :('' ])), paths)
      else let session_id = nat forked in
           case add_daemon_files creatable dir session_id paths of
             Inl x \<Rightarrow> (Some (Inl x), paths)
           | Inr (_, paths) \<Rightarrow>
               (case receive_result e [] of
                  Some (Inr (status, output)) \<Rightarrow>
                    Some (Inr (status, if status = SUCCESS then (''SESSION ID: '' @ dec_of_nat session_id) # output else output))
                | r \<Rightarrow> r, paths))"

section \<open>The command line\<close>

definition is_digit :: "char \<Rightarrow> bool" where
  "is_digit c \<longleftrightarrow> 48 \<le> (of_char c :: nat) \<and> (of_char c :: nat) \<le> 57"

text \<open>
  The regular expression \<open>(.*):(\d+)\<close> on the whole string; the dot matches any character but a
  line terminator.
\<close>

definition valid_endpoint :: "string \<Rightarrow> bool" where
  "valid_endpoint ep =
     (let port = takeWhile is_digit (rev ep); rest = dropWhile is_digit (rev ep) in
      port \<noteq> [] \<and> rest \<noteq> [] \<and> hd rest = CHR '':'' \<and> list_all (\<lambda>c. c \<noteq> newline \<and> c \<noteq> CHR 0x0D) (tl rest))"

text \<open>\<open>std::stoi\<close> on a string of digits.\<close>

definition num_of_digits :: "string \<Rightarrow> nat" where
  "num_of_digits s = fold (\<lambda>c n. 10 * n + (of_char c - 48)) s 0"

definition stoi :: "string \<Rightarrow> cpp_error + nat" where
  "stoi s =
     (if s = [] then Inl Invalid_Argument
      else if 2 ^ 31 \<le> num_of_digits s then Inl Out_Of_Range else Inr (num_of_digits s))"

text \<open>The check of a session id argument: \<open>None\<close> is the branch that reports it as not found.\<close>

definition session_arg :: "string \<Rightarrow> string set \<Rightarrow> string \<Rightarrow> cpp_error + nat option" where
  "session_arg dir paths s =
     (if \<not> list_all is_digit s then Inr None
      else and_then (stoi s) (\<lambda>n. Inr (if cmd_file dir n \<in> paths then Some n else None)))"

definition daemon_commands :: string where
  "daemon_commands = newline # concat (map (\<lambda>line. line @ [newline])
     [''  -i/--interactive: run in interactive mode'', ''  -h/--help: print all commands'',
      ''  start <endpoint 1> ... <endpoint n>: create a new session cluster with at least 2 endpoints (prints out the session id)'',
      ''  list <session id>: print all files'',
      ''  store <session id> <file path 1> ... <file path n>: add file(s) at local file path(s) to session'',
      ''  load <session id> <file name 1> ... <file name n> <file path>: write the content of file name(s) to local file path'',
      ''  exit <session id>: exit the session''])"

text \<open>What \<open>main\<close> does after it has looked at its arguments.\<close>

datatype main_action =
    Done int "string list"
  | Interactive
  | Start "string list"
  | Exit_Session nat
  | List_Session nat
  | Store_Files nat char "string list"
  | Load_Files nat char "string list"

definition with_session_arg ::
  "string \<Rightarrow> string set \<Rightarrow> string \<Rightarrow> (nat \<Rightarrow> main_action) \<Rightarrow> cpp_error + main_action" where
  "with_session_arg dir paths s f =
     and_then (session_arg dir paths s) (\<lambda>r. Inr
       (case r of None \<Rightarrow> Done USER_ERROR [''Session ID not found. :O''] | Some n \<Rightarrow> f n))"

text \<open>\<open>argv\<close> are the arguments after the program's name, so \<open>argc\<close> is one more than its length.\<close>

definition founder_main ::
  "(string \<Rightarrow> bool) \<Rightarrow> string \<Rightarrow> string set \<Rightarrow> string list \<Rightarrow> cpp_error + main_action" where
  "founder_main creatable home paths argv =
     (if argv = [] then Inr (Done USER_ERROR [''Provide arg(s). Enter `--help` for all commands.''])
      else if ''-h'' \<in> set argv \<or> ''--help'' \<in> set argv then Inr (Done SUCCESS [daemon_commands])
      else if ''-i'' \<in> set argv \<or> ''--interactive'' \<in> set argv then Inr Interactive
      else
        and_then (setup_client creatable home paths) (\<lambda>(ok, _, paths). let dir = home @ ''/.distft'' in
        if \<not> ok then Inr (Done INTERNAL_ERROR [''Failed to setup client directory in ~.''])
        else if argv ! 0 = ''start''
        then (if length argv < 3
              then Inr (Done USER_ERROR [''Provide at least 2 accessible endpoints for the founder client.''])
              else if \<not> list_all valid_endpoint (tl argv)
              then Inr (Done USER_ERROR [''Endpoint invalid: must have the form <address>:<port>''])
              else Inr (Start (tl argv)))
        else if argv ! 0 = ''exit''
        then (if length argv < 2
              then Inr (Done USER_ERROR [''Provide session id for a running founder client.''])
              else with_session_arg dir paths (argv ! 1) Exit_Session)
        else if argv ! 0 = ''list''
        then (if length argv < 2
              then Inr (Done USER_ERROR [''Provide session id for a running founder client.''])
              else with_session_arg dir paths (argv ! 1) List_Session)
        else if argv ! 0 = ''store''
        then (if length argv < 3
              then Inr (Done USER_ERROR [''Provide session id for a running founder client and at least one file.''])
              else with_session_arg dir paths (argv ! 1)
                     (\<lambda>n. Store_Files n (char_of (length argv - 2)) (drop 2 argv)))
        else if argv ! 0 = ''load''
        then (if length argv < 4
              then Inr (Done USER_ERROR [''Provide session id for a running founder client, at least one file to download, and a file to write to.''])
              else with_session_arg dir paths (argv ! 1)
                     (\<lambda>n. Load_Files n (char_of (length argv - 2)) (drop 2 argv)))
        else Inr (Done SUCCESS [''Command not found. Enter `--help` for all commands.''])))"

end
