(* ===== verification/Console.thy ===== *)
theory Console
  imports Daemon
begin

text \<open>
  \<open>src/client/interactive.cpp\<close>: the interactive client, which reads commands from the
  terminal and executes them on the sessions of its own process.
\<close>

section \<open>Words of a line\<close>

definition is_space :: "char \<Rightarrow> bool" where
  "is_space c \<longleftrightarrow> c = CHR '' '' \<or> (9 \<le> (of_char c :: nat) \<and> (of_char c :: nat) \<le> 13)"

text \<open>The words \<open>iss >> token\<close> reads one after the other; \<open>cur\<close> is the word read so far.\<close>

fun tokens :: "string \<Rightarrow> string \<Rightarrow> string list" where
  "tokens cur [] = (if cur = [] then [] else [cur])"
| "tokens cur (c # cs) =
     (if is_space c
      then (if cur = [] then tokens [] cs else cur # tokens [] cs)
      else tokens (cur @ [c]) cs)"

section \<open>The loop\<close>

text \<open>
  The terminal gives a list of lines; after its end \<open>std::getline\<close> delivers empty lines.
  \<open>success\<close> is the variable of that name, whose initial value is any.
\<close>

record 'v console =
  ctl :: "'v control"
  in_lines :: "string list"
  out_lines :: "string list"
  success :: bool

definition get_line :: "'v console \<Rightarrow> string \<times> 'v console" where
  "get_line k = (case in_lines k of [] \<Rightarrow> ([], k) | line # rest \<Rightarrow> (line, k\<lparr>in_lines := rest\<rparr>))"

definition print_lines :: "string list \<Rightarrow> 'v console \<Rightarrow> 'v console" where
  "print_lines ls k = k\<lparr>out_lines := out_lines k @ ls\<rparr>"

definition interactive_commands :: string where
  "interactive_commands = newline # concat (map (\<lambda>line. line @ [newline])
     [''  help: print all commands'', ''  list: print all files'',
      ''  store <file path 1> ... <file path n>: add file(s) at local file path(s) to session'',
      ''  load <file name 1> ... <file name n> <file path>: write the content of file name(s) to local file path'',
      ''  exit: exit the session''])"

text \<open>What is printed after a command; the same lines as \<open>print_result\<close> of the daemon's client.\<close>

definition report :: "'v console \<Rightarrow> 'v console" where
  "report k = print_lines (print_result (\<not> success k) (cmd_err (ctl k)) (cmd_out (ctl k))) k"

text \<open>One iteration; the result is true when the process exits.\<close>

definition interactive_step :: "'v host \<Rightarrow> 'v console \<Rightarrow> cpp_error + (bool \<times> 'v console)" where
  "interactive_step h k =
     (let k = k\<lparr>ctl := clear_cmd (ctl k)\<rparr>;
          (line, k) = get_line k;
          ts = tokens [] line;
          run = (\<lambda>f. and_then (f (ctl k)) (\<lambda>(ok, c). Inr (False, report (k\<lparr>ctl := c, success := ok\<rparr>))))
      in if ts = [] then Inr (False, k)
         else if ts ! 0 = ''help'' then Inr (False, report (print_lines [interactive_commands] k))
         else if ts ! 0 = ''list'' then run (list_cmd h)
         else if ts ! 0 = ''store''
         then (if length ts < 2 then Inr (False, print_lines [''Please provide file(s) to add.''] k)
               else run (store_cmd h (tl ts)))
         else if ts ! 0 = ''load''
         then (if length ts < 3 then Inr (False, print_lines [''Please provide file to print/file to write to.''] k)
               else run (load_cmd h (butlast (tl ts)) (last ts)))
         else if ts ! 0 = ''exit''
         then and_then (exit_cmd h (ctl k)) (\<lambda>(_, c). Inr (True, k\<lparr>ctl := c\<rparr>))
         else Inr (False, print_lines [''Enter a valid command. Enter `help` for all commands.''] k))"

text \<open>The first argument is the number of iterations after which the model gives up.\<close>

primrec interactive_loop :: "nat \<Rightarrow> 'v host \<Rightarrow> 'v console \<Rightarrow> cpp_error + 'v console" where
  "interactive_loop 0 h k = Inl Diverges"
| "interactive_loop (Suc n) h k =
     and_then (interactive_step h k) (\<lambda>(exited, k). if exited then Inr k else interactive_loop n h k)"

definition run_founder_session_interactive ::
  "nat \<Rightarrow> 'v host \<Rightarrow> 'v \<Rightarrow> 'v console \<Rightarrow> cpp_error + 'v console" where
  "run_founder_session_interactive n h w k =
     (let (line, k) = get_line k; eps = tokens [] line in
      if length eps < 2 then Inr (print_lines [''Enter >= 2 endpoints''] k)
      else and_then (bootstrap_cmd h w eps (ctl k)) (\<lambda>(ok, c).
           let (ok2, c) = (if ok then start_background_strain_reliever_cmd c else (False, c)); k = k\<lparr>ctl := c\<rparr> in
           if \<not> ok \<or> \<not> ok2
           then Inr (print_lines [''Error occurred in daemon while processing command. :('', c_str (cmd_err c)] k)
           else interactive_loop n h k))"

end
