(* ===== verification/Remote.thy ===== *)
theory Remote
  imports Catalog Console
begin

text \<open>
  A client and its daemon together: the client's handlers, the pipes, the loop of the daemon
  and the commands on its sessions.
\<close>

section \<open>One request through the pipes\<close>

text \<open>
  A client whose answer pipe is fed by the daemon: it reads what one iteration of the
  daemon's loop answers to what the client sent.
\<close>

definition connected :: "'v host \<Rightarrow> char \<Rightarrow> write_results \<Rightarrow> 'v daemon \<Rightarrow> client_env \<Rightarrow> client_env" where
  "connected h junk sys d e = e\<lparr>answer_pipe := \<lambda>sent.
     case daemon_step h junk sys True \<lparr>pending = sent, failing = False\<rparr> d of
       Some (Inr (Answers ok out, _)) \<Rightarrow> \<lparr>pending = written out, failing = False\<rparr>
     | _ \<Rightarrow> \<lparr>pending = [], failing = False\<rparr>\<rparr>"

definition pipes_work :: "client_env \<Rightarrow> write_results \<Rightarrow> bool" where
  "pipes_work e sys \<longleftrightarrow> cmd_opened e \<and> takes_all (cmd_writes e) \<and> takes_all sys"

text \<open>Arguments that can be sent: nonempty, without NUL, fewer than 256.\<close>

definition sendable :: "string list \<Rightarrow> bool" where
  "sendable as \<longleftrightarrow> (\<forall>a\<in>set as. a \<noteq> [] \<and> nul \<notin> set a) \<and> length as < 256"

definition request :: "client_env \<Rightarrow> cmd_code \<Rightarrow> string list \<Rightarrow> command" where
  "request e code as = \<lparr>client_id = pid e, cmd = code_char code, argc = char_of (length as), args = as\<rparr>"

lemma request_simps [simp]: "cmd (request e code as) = code_char code" "args (request e code as) = as"
  by (simp_all add: request_def)

lemma request_received:
  assumes "pipes_work e sys" and "sendable as"
  shows "\<exists>p rest. send_cmd e code (char_of (length as)) as = Inr (True, p) \<and>
    read_cmd junk old \<lparr>pending = written p, failing = f\<rparr> = Some (True, request e code as, rest)"
  using assms read_args_complete [of as "length as" "[]" junk "[]" f]
  by (auto simp: pipes_work_def sendable_def send_cmd_def request_def write_cmd_takes_all read_cmd_header)

lemma bool_char_err [simp]: "bool_char b \<noteq> nul \<longleftrightarrow> b"
  by (simp add: bool_char_def)

lemma answer_received:
  assumes "takes_all sys" and "nul \<notin> set m1" and "nul \<notin> set m2"
  shows "\<exists>out. write_err sys True (bool_char b) m1 m2 = (True, out) \<and>
    (answer_pipe e sent = \<lparr>pending = written out, failing = False\<rparr> \<longrightarrow>
       receive_result e sent = Some (Inr (SUCCESS, print_result b m1 m2)))"
  using assms by (auto simp: write_err_def fresh_pipe_def receive_result_def read_err_def read_message_word)

lemma c_str_no_nul: "nul \<notin> set s \<Longrightarrow> c_str s = s"
  unfolding c_str_def by (rule takeWhile_eq_all_conv [THEN iffD2]) auto

text \<open>The commands the daemon answers.\<close>

definition perform :: "'v host \<Rightarrow> cmd_code \<Rightarrow> string list \<Rightarrow> 'v control \<Rightarrow> ('v, bool) command_result" where
  "perform h code as =
     (if code = LIST then list_cmd h else if code = STORE then store_cmd h as
      else load_cmd h (butlast as) (last as))"

lemma daemon_answers:
  assumes "pipes_work e sys" and "sendable as" and "code = LIST \<or> code = STORE \<or> code = LOAD \<and> as \<noteq> []"
    and "perform h code as (clear_cmd (ctrl d)) = Inr (ok, c)" and "nul \<notin> set (cmd_err c)" and "nul \<notin> set (cmd_out c)"
  shows "\<exists>p out d'. send_cmd e code (char_of (length as)) as = Inr (True, p) \<and>
    daemon_step h junk sys True \<lparr>pending = written p, failing = False\<rparr> d = Some (Inr (Answers True out, d')) \<and>
    ctrl d' = c \<and>
    receive_result (connected h junk sys d e) (written p) = Some (Inr (SUCCESS, print_result (\<not> ok) (cmd_err c) (cmd_out c)))"
proof -
  obtain p rest where p: "send_cmd e code (char_of (length as)) as = Inr (True, p)"
    "read_cmd junk (vars d) \<lparr>pending = written p, failing = False\<rparr> = Some (True, request e code as, rest)"
    using request_received [OF assms(1,2), where old = "vars d" and f = False] by blast
  have sys: "takes_all sys" using assms(1) by (simp add: pipes_work_def)
  obtain out where out: "write_err sys True (bool_char (\<not> ok)) (cmd_err c) (cmd_out c) = (True, out)"
    "\<And>e sent. answer_pipe e sent = \<lparr>pending = written out, failing = False\<rparr> \<Longrightarrow>
       receive_result e sent = Some (Inr (SUCCESS, print_result (\<not> ok) (cmd_err c) (cmd_out c)))"
    using answer_received [OF sys assms(5,6), of "\<not> ok"] by (metis prod.inject)
  obtain d' where d': "daemon_step h junk sys True \<lparr>pending = written p, failing = False\<rparr> d = Some (Inr (Answers True out, d'))"
    "ctrl d' = c"
    using assms(3,4) p(2) out(1) by (auto simp: daemon_step_def perform_def Let_def)
  then have "answer_pipe (connected h junk sys d e) (written p) = \<lparr>pending = written out, failing = False\<rparr>"
    by (simp add: connected_def)
  with p(1) d' out(2) show ?thesis by blast
qed

lemma connected_send [simp]: "send_cmd (connected h junk sys d e) code n as = send_cmd e code n as"
  by (simp add: send_cmd_def connected_def)

lemma represents_clear [simp]: "represents h C N a (clear_cmd c) = represents h C N a c"
  by (simp add: clear_cmd_def)

lemma lines_no_nul: "\<forall>l\<in>set ls. nul \<notin> set l \<Longrightarrow> nul \<notin> set (lines_of ls)"
  by (auto simp: lines_of_def)

lemma listed_no_nul:
  assumes "represents h C N a c" and "n \<in> set (listed a)"
  shows "nul \<notin> set n"
  using assms by (auto simp: represents_def catalogs_def digest_ok_def)

text \<open>Listing from a client: when the pipes take what is written to them, the daemon answers the
  request, the client prints the word INDEX and the listed names and succeeds, and the
  daemon's sessions keep the same catalog.
\<close>

lemma remote_list:
  assumes "represents h C N a (ctrl d)" and "pipes_work e sys"
  shows "\<exists>p out d'. send_cmd e LIST nul [] = Inr (True, p) \<and>
    daemon_step h junk sys True \<lparr>pending = written p, failing = False\<rparr> d = Some (Inr (Answers True out, d')) \<and>
    represents h C N a (ctrl d') \<and> disk (ctrl d') = disk (ctrl d) \<and>
    handle_list (connected h junk sys d e) = Some (Inr (SUCCESS, [lines_of (''INDEX'' # listed a)]))"
proof -
  obtain c where c: "list_cmd h (clear_cmd (ctrl d)) = Inr (True, c)" "represents h C N a c"
      "cmd_out c = lines_of (''INDEX'' # listed a)" "cmd_err c = []" "disk c = disk (ctrl d)"
    using list_cmd_catalog [of h C N a "clear_cmd (ctrl d)"] assms(1) by (auto simp: clear_cmd_def)
  have no_nul: "nul \<notin> set (cmd_out c)"
    unfolding c(3) using listed_no_nul [OF assms(1)] by (intro lines_no_nul) auto
  have char: "char_of (length ([] :: string list)) = nul" by (simp add: char_of_def)
  have "print_result (\<not> True) (cmd_err c) (cmd_out c) = [cmd_out c]"
    using c_str_no_nul [OF no_nul] c(3,4) by (simp add: print_result_def lines_of_def)
  with daemon_answers [OF assms(2), of "[]" LIST h d True c junk] c no_nul show ?thesis
    unfolding char by (fastforce simp: perform_def sendable_def handle_list_def)
qed

lemma catalog_store_errs:
  "catalog_store files ps added errs a = (added', errs', a') \<Longrightarrow> nul \<notin> set errs \<Longrightarrow> \<forall>p\<in>set ps. nul \<notin> set p \<Longrightarrow>
     nul \<notin> set errs'"
proof (induction files ps added errs a rule: catalog_store.induct)
  case (2 files p ps added errs a)
  show ?case
  proof (cases "file_name p \<in> set added \<union> set (listed a)")
    case True
    with 2 show ?thesis by auto
  next
    case False
    with 2 show ?thesis by (cases "files p") auto
  qed
qed simp

lemma clear_cmd_simps [simp]: "cmd_err (clear_cmd c) = []" "cmd_out (clear_cmd c) = []" "disk (clear_cmd c) = disk c"
  by (simp_all add: clear_cmd_def)

text \<open>Storing from a client: the daemon's sessions hold the files that can be read and are not
  listed yet, under their names, and list them after the ones before; the client succeeds and
  prints a report of every file that was skipped and the names that were added.
\<close>

lemma remote_store:
  assumes "represents h C N a (ctrl d)" and "pipes_work e sys" and "orders_threads h" and "sendable ps"
    and "storable C N (disk (ctrl d)) ps"
    and "catalog_store (disk (ctrl d)) ps [] [] a = (added, errs, a')"
    and "length (index_text (listed a @ added)) < 2 ^ 31"
  shows "\<exists>p out d'. send_cmd e STORE (char_of (length ps)) ps = Inr (True, p) \<and>
    daemon_step h junk sys True \<lparr>pending = written p, failing = False\<rparr> d = Some (Inr (Answers True out, d')) \<and>
    represents h C N (a'\<lparr>listed := listed a @ added\<rparr>) (ctrl d') \<and> disk (ctrl d') = disk (ctrl d) \<and>
    founder_handle_store (connected h junk sys d e) (char_of (length ps)) ps =
      Some (Inr (SUCCESS, (if errs = [] then [] else [errs]) @
        [lines_of (''Successfully stored the following files'' # added)]))"
proof -
  obtain c where c: "store_cmd h ps (clear_cmd (ctrl d)) = Inr (True, c)"
      "represents h C N (a'\<lparr>listed := listed a @ added\<rparr>) c" "cmd_err c = errs"
      "cmd_out c = lines_of (''Successfully stored the following files'' # added)" "disk c = disk (ctrl d)"
    using store_cmd_catalog [of h C N a "clear_cmd (ctrl d)" ps added errs a'] assms(1,3,5-7) by auto
  have "nul \<notin> set errs"
    using catalog_store_errs [OF assms(6)] assms(4) by (simp add: sendable_def)
  moreover have "nul \<notin> set (cmd_out c)"
    unfolding c(4) using listed_no_nul [OF c(2)] by (intro lines_no_nul) auto
  moreover have "print_result False errs (cmd_out c) = (if errs = [] then [] else [errs]) @ [cmd_out c]"
    using c_str_no_nul [OF \<open>nul \<notin> set errs\<close>] c_str_no_nul [OF \<open>nul \<notin> set (cmd_out c)\<close>] c(4)
    by (simp add: print_result_def lines_of_def)
  ultimately show ?thesis
    using daemon_answers [OF assms(2,4), of STORE h d True c junk] c by (fastforce simp: perform_def founder_handle_store_def)
qed

text \<open>Loading from a client: the daemon writes the contents of the files, one after the other, to
  the last argument on its own disk and to no other file; the client succeeds and prints so.
\<close>

lemma remote_load:
  assumes "represents h C N a (ctrl d)" and "pipes_work e sys" and "orders_threads h" and "sendable (names @ [out])"
    and "writable h out" and "\<forall>n\<in>set names. content a n = Some (f n)"
  shows "\<exists>p ans d'. send_cmd e LOAD (char_of (length (names @ [out]))) (names @ [out]) = Inr (True, p) \<and>
    daemon_step h junk sys True \<lparr>pending = written p, failing = False\<rparr> d = Some (Inr (Answers True ans, d')) \<and>
    represents h C N a (ctrl d') \<and> disk (ctrl d') = (disk (ctrl d))(out \<mapsto> concat (map f names)) \<and>
    handle_load (connected h junk sys d e) (char_of (length (names @ [out]))) (names @ [out]) =
      Some (Inr (SUCCESS, [''Successfully loaded all files into output file '' @ out]))"
proof -
  obtain c where c: "load_cmd h names out (clear_cmd (ctrl d)) = Inr (True, c)" "represents h C N a c"
      "disk c = (disk (ctrl d))(out \<mapsto> concat (map f names))" "cmd_err c = []"
      "cmd_out c = ''Successfully loaded all files into output file '' @ out"
    using load_cmd_catalog [of h C N a "clear_cmd (ctrl d)" out names f] assms(1,3,5,6) by auto
  have "nul \<notin> set (cmd_out c)" using assms(4) by (simp add: c(5) sendable_def)
  moreover have "print_result False [] (cmd_out c) = [cmd_out c]"
    using c_str_no_nul [OF calculation] c(5) by (simp add: print_result_def)
  ultimately show ?thesis
    using daemon_answers [OF assms(2,4), of LOAD h d True c junk] c by (fastforce simp: perform_def handle_load_def)
qed

section \<open>Examples\<close>

definition sample_client :: client_env where
  "sample_client =
     \<lparr>loggers = {''client_logger''}, cmd_opened = True, cmd_writes = \<lambda>i. Some, pid = 4711, junk_err = nul, junk_buff = nul,
      answer_pipe = \<lambda>_. \<lparr>pending = [], failing = False\<rparr>\<rparr>"

definition sample_daemon :: "(key \<times> string) list \<Rightarrow> unit daemon" where
  "sample_daemon kds = \<lparr>ctrl = sample_control kds, vars = sample_command []\<rparr>"

lemma sample_daemon_ctrl [simp]: "ctrl (sample_daemon kds) = sample_control kds"
  by (simp add: sample_daemon_def)

lemma sample_pipes [simp]: "pipes_work sample_client (\<lambda>i. Some)"
  by (simp add: pipes_work_def sample_client_def)

lemma sample_out [simp]: "cmd_out (sample_control kds) = []" "cmd_err (sample_control kds) = []"
  "disk (sample_control kds) = [''dir/ab'' \<mapsto> ''hey'']" "writable sample_host out"
  by (simp_all add: sample_control_def sample_host_def)

lemma remote_list_witness:
  "handle_list (connected sample_host nul (\<lambda>i. Some) (sample_daemon one_file) sample_client) =
     Some (Inr (SUCCESS, [lines_of [''INDEX'', ''ab'']]))"
proof -
  have "represents sample_host {''hey''} {''ab'', ''index''} \<lparr>listed = [''ab''], content = [''ab'' \<mapsto> ''hey'']\<rparr>
      (ctrl (sample_daemon one_file))"
    using sample_represents(2) by simp
  from remote_list [OF this sample_pipes, of nul] show ?thesis by auto
qed

lemma remote_store_witness:
  "founder_handle_store (connected sample_host nul (\<lambda>i. Some) (sample_daemon no_files) sample_client) (CHR 0x01) [''dir/ab''] =
     Some (Inr (SUCCESS, [lines_of [''Successfully stored the following files'', ''ab'']]))"
proof -
  have char: "char_of (length [''dir/ab'']) = CHR 0x01" by code_simp
  have rep: "represents sample_host {''hey''} {''ab'', ''index''} \<lparr>listed = [], content = \<lambda>_. None\<rparr> (ctrl (sample_daemon no_files))"
    using sample_represents(1) by simp
  have sto: "storable {''hey''} {''ab'', ''index''} (disk (ctrl (sample_daemon no_files))) [''dir/ab'']"
    using sample_storable [of no_files] by simp
  have cat: "catalog_store (disk (ctrl (sample_daemon no_files))) [''dir/ab''] [] [] \<lparr>listed = [], content = \<lambda>_. None\<rparr> =
      ([''ab''], [], \<lparr>listed = [], content = [''ab'' \<mapsto> ''hey'']\<rparr>)"
    using sample_catalog_store [of no_files] by simp
  have "sendable [''dir/ab'']" by (simp add: sendable_def)
  from remote_store [OF rep sample_pipes sample_threads this sto cat, of nul] show ?thesis
    unfolding char by (auto simp: index_text_def)
qed

lemma remote_load_witness:
  "\<exists>p ans d'. send_cmd sample_client LOAD (CHR 0x03) [''ab'', ''ab'', ''out''] = Inr (True, p) \<and>
     daemon_step sample_host nul (\<lambda>i. Some) True \<lparr>pending = written p, failing = False\<rparr> (sample_daemon one_file) =
       Some (Inr (Answers True ans, d')) \<and> disk (ctrl d') ''out'' = Some ''heyhey''"
proof -
  have char: "char_of (length ([''ab'', ''ab''] @ [''out''])) = CHR 0x03" by code_simp
  have rep: "represents sample_host {''hey''} {''ab'', ''index''} \<lparr>listed = [''ab''], content = [''ab'' \<mapsto> ''hey'']\<rparr>
      (ctrl (sample_daemon one_file))"
    using sample_represents(2) by simp
  have "sendable ([''ab'', ''ab''] @ [''out''])" by (simp add: sendable_def)
  from remote_load [OF rep sample_pipes sample_threads this, of "\<lambda>_. ''hey''" nul] show ?thesis
    unfolding char by fastforce
qed

end
