(* ===== verification/Relief.thy ===== *)
theory Relief
  imports Remote
begin

text \<open>
  The strain reliever beside the commands: its dummy chunks do not disturb the files, as long as
  no random key is the digest of a chunk or of a name in use.
\<close>

definition stray_keys :: "'v host \<Rightarrow> string set \<Rightarrow> string set \<Rightarrow> bool" where
  "stray_keys h C N \<longleftrightarrow> (\<forall>j. random_key (draw h j) \<notin> key_from_data (sha1 h) ` (C \<union> N))"

text \<open>What the reliever leaves alone.\<close>

definition same_files :: "'v control \<Rightarrow> 'v control \<Rightarrow> bool" where
  "same_files c c' \<longleftrightarrow> disk c' = disk c \<and> cmd_err c' = cmd_err c \<and> cmd_out c' = cmd_out c \<and> exiting c' = exiting c"

lemma same_files_trans: "same_files c c' \<Longrightarrow> same_files c' c'' \<Longrightarrow> same_files c c''"
  by (simp add: same_files_def)

lemma represents_draws [simp]: "represents h C N a (c\<lparr>draws := i\<rparr>) = represents h C N a c"
  by (simp add: represents_def)

lemma dummy_set_catalog:
  assumes "represents h C N a c" and "k \<notin> key_from_data (sha1 h) ` (C \<union> N)"
  shows "\<exists>c'. with_session h (\<lambda>E. session_set E k [] False) c = Inr ((), c') \<and>
    represents h C N a c' \<and> same_files c c'"
proof -
  obtain M m where k: "cluster_keeps M m (sessions c)" and m: "catalogs (sha1 h) C N a m"
    using assms(1) by (auto simp: represents_def)
  have "m k = None \<or> m k = Some []" using m assms(2) by (simp add: catalogs_def)
  then have "\<exists>t. session_set (cluster_env (net h)) k [] False s = Inr ((), t) \<and> shared M i (m(k \<mapsto> [])) t"
    if "shared M i m s" for i s
    by (intro mesh.set_shared [OF that]) simp_all
  then have "\<exists>ns. with_session h (\<lambda>E. session_set E k [] False) c = Inr ((), c\<lparr>rands := Suc (rands c), sessions := ns\<rparr>) \<and>
      cluster_keeps M (m(k \<mapsto> [])) ns"
    by (rule with_session_shared [OF k])
  then obtain ns where ns: "with_session h (\<lambda>E. session_set E k [] False) c =
      Inr ((), c\<lparr>rands := Suc (rands c), sessions := ns\<rparr>)" "cluster_keeps M (m(k \<mapsto> [])) ns" by blast
  have "represents h C N a (c\<lparr>rands := Suc (rands c), sessions := ns\<rparr>)"
    using ns(2) catalogs_dummy [OF m assms(2)] by (auto simp: represents_def)
  with ns(1) show ?thesis by (simp add: same_files_def)
qed

lemma dummy_sets_catalog:
  "represents h C N a c \<Longrightarrow> stray_keys h C N \<Longrightarrow>
   \<exists>n c'. dummy_sets h i c = Inr (n, c') \<and> represents h C N a c' \<and> same_files c c'"
proof (induction h i c rule: dummy_sets.induct)
  case (1 h i c)
  let ?r = "rand h (rands c) mod 10" and ?c = "c\<lparr>rands := Suc (rands c)\<rparr>"
  let ?d = "?c\<lparr>draws := Suc (draws ?c)\<rparr>"
  show ?case
  proof (cases "i < ?r")
    case True
    have "represents h C N a ?d" using "1.prems"(1) by simp
    from dummy_set_catalog [OF this, of "random_key (draw h (draws ?c))"] "1.prems"(2)
    obtain c' where c': "with_session h (\<lambda>E. session_set E (random_key (draw h (draws ?c))) [] False) ?d = Inr ((), c')"
      "represents h C N a c'" "same_files ?d c'"
      by (auto simp: stray_keys_def)
    obtain n c'' where "dummy_sets h (Suc i) c' = Inr (n, c'')" "represents h C N a c''" "same_files c' c''"
      using "1.IH" [OF refl refl True c'(1) refl c'(2) "1.prems"(2)] by blast
    moreover have "same_files c c'" using c'(3) by (simp add: same_files_def)
    ultimately show ?thesis
      using True c'(1) same_files_trans by (subst dummy_sets.simps) (fastforce simp: Let_def)
  next
    case False
    with "1.prems" show ?thesis by (subst dummy_sets.simps) (simp add: Let_def same_files_def)
  qed
qed

lemma knows_dead_peers [simp]: "knows M me (n\<lparr>dead_peers := d\<rparr>) = knows M me n"
  by (simp add: knows_defs session_ok_def)

lemma cluster_keeps_reset:
  assumes "cluster_keeps M m ns"
  shows "cluster_keeps M m (take i ns @ map (\<lambda>n. n\<lparr>dead_peers := 0\<rparr>) (drop i ns))"
proof -
  let ?ns = "take i ns @ map (\<lambda>n. n\<lparr>dead_peers := 0\<rparr>) (drop i ns)"
  have "?ns ! j = (if j < i then ns ! j else (ns ! j)\<lparr>dead_peers := 0\<rparr>)" if "j < length ns" for j
    using that by (auto simp: nth_append min_def)
  moreover have "kept (n\<lparr>dead_peers := 0\<rparr>) = kept n" for n :: "'a session" by (rule kept_chunks) simp
  moreover have "length ?ns = length ns" by simp
  ultimately show ?thesis using assms by (simp add: cluster_keeps_def)
qed

text \<open>An iteration of the strain reliever.\<close>

lemma strain_step_catalog:
  assumes "represents h C N a c" and "stray_keys h C N"
  shows "\<exists>ev c'. strain_step h c = Inr (ev, c') \<and> represents h C N a c' \<and> same_files c c'"
proof -
  let ?c = "c\<lparr>sessions := take (meta_from c) (sessions c) @
                map (\<lambda>n. n\<lparr>dead_peers := 0\<rparr>) (drop (meta_from c) (sessions c))\<rparr>"
  have c: "represents h C N a ?c" "same_files c ?c"
    using assms(1) cluster_keeps_reset by (simp_all add: represents_def same_files_def, blast)
  obtain n c' where "dummy_sets h 0 ?c = Inr (n, c')" "represents h C N a c'" "same_files ?c c'"
    using dummy_sets_catalog [OF c(1) assms(2)] by blast
  with c assms(1) same_files_trans [OF c(2)] show ?thesis
    by (auto simp: strain_step_def Let_def same_files_def)
qed

end
