(* ===== verification/Bootstrap.thy ===== *)
theory Bootstrap
  imports Catalog
begin

text \<open>
  The start of a client with two endpoints: \<open>bootstrap_cmd\<close> starts two sessions that only know
  each other's endpoint under a key they made up, and when it returns they know each other.
\<close>

section \<open>Nodes that know one address\<close>

lemma leaf_self:
  assumes "leaf_node me A n"
  shows "self_key n = pkey me" and "self_endpoint n = endpoint me" and "get_self_peer (router_of n) = me"
    and "rpc_caller_prelims n = local_to_rpc_peer me" and "session_ok n"
  using assms by (simp_all add: leaf_node_def self_key_def self_endpoint_def get_self_peer_def rpc_caller_prelims_def)

lemma leaf_node_fields [simp]:
  "leaf_node me A (n\<lparr>world := w\<rparr>) = leaf_node me A n"
  by (simp add: leaf_node_def session_ok_def)

text \<open>The node can add the peer, or has it already.\<close>

definition admits :: "peer \<Rightarrow> peer set \<Rightarrow> peer \<Rightarrow> bool" where
  "admits me A p \<longleftrightarrow> p \<in> A \<or> pkey p \<notin> pkey ` A \<and> pkey p \<noteq> pkey me \<and> endpoint p \<noteq> endpoint me \<and> card A < 20"

lemma leaf_insert:
  assumes "leaf_node me A n" and "admits me A p"
  shows "\<exists>lru r. attempt_insert_peer now (pkey p) (endpoint p) (router_of n) = ((True, lru), r) \<and>
    leaf_node me (insert p A) (n\<lparr>router_of := r\<rparr>)"
  using leaf_insert_known [OF assms(1), of p] leaf_insert_new [OF assms(1), of p] assms(2)
  by (auto simp: admits_def insert_absorb)

lemma leaf_update:
  assumes "leaf_node me A n" and "admits me A p"
  shows "\<exists>r. update_peer E (pkey p) (endpoint p) n = Inr ((), n\<lparr>router_of := r\<rparr>) \<and>
    leaf_node me (insert p A) (n\<lparr>router_of := r\<rparr>)"
proof -
  obtain lru r where "attempt_insert_peer (now_at E (world n)) (pkey p) (endpoint p) (router_of n) = ((True, lru), r)"
    and "leaf_node me (insert p A) (n\<lparr>router_of := r\<rparr>)"
    using leaf_insert [OF assms] by blast
  with update_peer_inserted [of n E] leaf_self(5) [OF assms(1)] show ?thesis
    by (auto simp: update_peer_def numeral_2_eq_2)
qed

lemma leaf_prelims:
  assumes "leaf_node me A n" and "admits me A p"
  shows "\<exists>r. rpc_handler_prelims V (local_to_rpc_peer p) n = Inr (local_to_rpc_peer me, n\<lparr>router_of := r\<rparr>) \<and>
    leaf_node me (insert p A) (n\<lparr>router_of := r\<rparr>)"
  using leaf_update [OF assms, of V] leaf_self(3) by (fastforce simp: rpc_handler_prelims_def)

lemma leaf_find_node:
  fixes k :: key
  assumes "leaf_node me A n" and "p \<in> A"
  shows "\<exists>ps r. handle_find_node V \<lparr>fn_sender = local_to_rpc_peer p, fn_search_key = bitset_to_string k\<rparr> n =
      Inr (\<lparr>fn_receiver = local_to_rpc_peer me, fn_closest_peers = map local_to_rpc_peer ps\<rparr>, n\<lparr>router_of := r\<rparr>) \<and>
    set ps = A \<and> leaf_node me A (n\<lparr>router_of := r\<rparr>)"
proof -
  obtain r where r: "rpc_handler_prelims V (local_to_rpc_peer p) n = Inr (local_to_rpc_peer me, n\<lparr>router_of := r\<rparr>)"
      "leaf_node me A (n\<lparr>router_of := r\<rparr>)"
    using leaf_prelims [OF assms(1), of p V] assms(2) by (auto simp: admits_def insert_absorb)
  obtain ps r' where "answer_closest V k (n\<lparr>router_of := r\<rparr>) = (ps, n\<lparr>router_of := r'\<rparr>)" "set ps = A"
      "leaf_node me A (n\<lparr>router_of := r'\<rparr>)"
    using leaf_closest [OF r(2)] by (auto simp: answer_closest_def)
  with r(1) leaf_self(5) [OF assms(1)] show ?thesis
    by (intro exI [of _ ps] exI [of _ r']) (simp add: handle_find_node_eq bitset_roundtrip)
qed

lemma add_closest_own:
  "\<forall>x\<in>set ps. endpoint x = self_endpoint s \<Longrightarrow> add_closest_peers E (map local_to_rpc_peer ps) buffer s = Inr (buffer, s)"
  by (induction ps) simp_all

section \<open>Two sessions\<close>

text \<open>
  Session \<open>i\<close> of two is running; it is \<open>p\<close> and knows \<open>A\<close>, the other is \<open>q\<close> and knows \<open>B\<close>; neither
  keeps any data.
\<close>

definition pair :: "peer \<Rightarrow> peer \<Rightarrow> peer set \<Rightarrow> nat \<Rightarrow> peer set \<Rightarrow> ('v session list) session \<Rightarrow> bool" where
  "pair p q B i A s \<longleftrightarrow> i < 2 \<and> length (world s) = 2 \<and> endpoint p \<noteq> endpoint q \<and> pkey p \<noteq> pkey q \<and>
     leaf_node p A s \<and> leaf_node q B (world s ! (1 - i)) \<and> self_endpoint (world s ! i) = endpoint p \<and>
     chunks s = [] \<and> chunks (world s ! (1 - i)) = []"

lemma pair_router: "pair p q B i A s \<Longrightarrow> leaf_node p A' (s\<lparr>router_of := r\<rparr>) \<Longrightarrow> pair p q B i A' (s\<lparr>router_of := r\<rparr>)"
  by (simp add: pair_def)

lemma pair_reply:
  assumes "pair p q B i A s" and "leaf_node q B' n" and "chunks n = []"
  shows "pair p q B' i A (s\<lparr>world := (world s)[1 - i := n]\<rparr>)"
proof -
  have "i \<noteq> 1 - i" using assms(1) by (auto simp: pair_def less_2_cases_iff)
  with assms show ?thesis by (auto simp: pair_def)
qed

lemma call_pair:
  assumes "pair p q B i A s"
  shows "call_node handler out (endpoint q) rq (world s) =
    (let (a, n) = answer (handler rq (world s ! (1 - i))) (world s ! (1 - i)) in (a, (world s)[1 - i := n]))"
proof -
  have q: "self_endpoint (world s ! (1 - i)) = endpoint q" using assms leaf_self(2) by (fastforce simp: pair_def)
  obtain n0 n1 where w: "world s = [n0, n1]" using assms by (auto simp: pair_def length_Suc_conv numeral_2_eq_2)
  have "node_index (endpoint q) (world s) = Some (1 - i)"
    using assms q w by (auto simp: pair_def less_2_cases_iff)
  then show ?thesis by (simp add: call_node_def)
qed

lemma pair_find_node:
  assumes "pair p q B i {q} s" and "p \<in> B" and "\<forall>x\<in>B. endpoint x = endpoint p"
  shows "\<exists>t. find_node (cluster_env V) q k buffer s = Inr ((True, buffer), t) \<and> pair p q B i {q} t"
proof -
  let ?n = "world s ! (1 - i)"
  have me: "leaf_node p {q} s" and n: "leaf_node q B ?n" and c: "chunks ?n = []"
    using assms(1) by (simp_all add: pair_def)
  obtain ps r where reply: "handle_find_node V \<lparr>fn_sender = local_to_rpc_peer p, fn_search_key = bitset_to_string k\<rparr> ?n =
      Inr (\<lparr>fn_receiver = local_to_rpc_peer q, fn_closest_peers = map local_to_rpc_peer ps\<rparr>, ?n\<lparr>router_of := r\<rparr>)"
    and ps: "set ps = B" and n': "leaf_node q B (?n\<lparr>router_of := r\<rparr>)"
    using leaf_find_node [OF n assms(2), of V k] by blast
  let ?s = "s\<lparr>world := (world s)[1 - i := ?n\<lparr>router_of := r\<rparr>]\<rparr>"
  have s: "pair p q B i {q} ?s" using pair_reply [OF assms(1) n'] c by simp
  then have "leaf_node p {q} ?s" by (simp add: pair_def)
  moreover have "admits p {q} q" by (simp add: admits_def)
  ultimately obtain r1 where r1: "update_peer (cluster_env V) (pkey q) (endpoint q) ?s = Inr ((), ?s\<lparr>router_of := r1\<rparr>)"
      "leaf_node p {q} (?s\<lparr>router_of := r1\<rparr>)"
    using leaf_update [of p "{q}" ?s q "cluster_env V"] by auto
  have "\<forall>x\<in>set ps. endpoint x = self_endpoint (?s\<lparr>router_of := r1\<rparr>)"
    using ps assms(3) leaf_self(2) [OF r1(2)] by simp
  from add_closest_own [OF this, of "cluster_env V" buffer] r1(1)
  have "find_node (cluster_env V) q k buffer s = Inr ((True, buffer), ?s\<lparr>router_of := r1\<rparr>)"
    unfolding find_node_def leaf_self(4) [OF me] cluster_env_simps call_pair [OF assms(1)] reply
    by (simp add: answer_def rpc_caller_epilogue_def)
  with pair_router [OF s r1(2)] show ?thesis by blast
qed

definition pair_ready :: "peer \<Rightarrow> peer \<Rightarrow> peer set \<Rightarrow> nat \<Rightarrow> ('v session list) session \<Rightarrow> bool" where
  "pair_ready p q B i s \<longleftrightarrow> pair p q B i {q} s \<and> p \<in> B \<and> (\<forall>x\<in>B. endpoint x = endpoint p)"

lemma pair_ready_find_node:
  "pair_ready p q B i s \<Longrightarrow> x \<in> {q} \<Longrightarrow>
    \<exists>t. find_node (cluster_env V) x k buffer s = Inr ((True, buffer), t) \<and> pair_ready p q B i t"
  using pair_find_node [of p q B i s V k buffer] unfolding pair_ready_def by blast

lemma pair_ready_closest:
  assumes "pair_ready p q B i s"
  shows "pair_ready p q B i (after_closest E k s) \<and> set (known_closest s k) = {q}"
proof -
  have s: "pair p q B i {q} s" and me: "leaf_node p {q} s" using assms unfolding pair_ready_def pair_def by blast+
  have "pair p q B i {q} (after_closest E k s)"
    unfolding after_closest_def by (rule pair_router [OF s leaf_closest(2) [OF me]])
  with leaf_closest(1) [OF me] assms show ?thesis unfolding pair_ready_def by blast
qed

interpretation pair_nodes: steady_nodes "cluster_env V" k "pair_ready p q B i" "{q}"
  for V :: "'v env" and k p q B i
proof unfold_locales
  fix s :: "('v session list) session" and x and st :: query_state
  assume s: "pair_ready p q B i s" and x: "x \<in> {q}"
  obtain t where t: "find_node (cluster_env V) x k (closest_buffer st) s = Inr ((True, closest_buffer st), t)"
      "pair_ready p q B i t"
    using pair_ready_find_node [OF s x] by blast
  then show "\<exists>new q' t. query_fn (cluster_env V) Node_Query k x st s = Inr ((False, q'), t) \<and>
      closest_buffer q' = closest_buffer st @ new \<and> set new \<subseteq> {q} \<and> pair_ready p q B i t"
    by (simp add: query_fn_def)
  fix buffer
  obtain u where "find_node (cluster_env V) x k buffer s = Inr ((True, buffer), u)" "pair_ready p q B i u"
    using pair_ready_find_node [OF s x] by blast
  then show "\<exists>done new t. find_node (cluster_env V) x k buffer s = Inr ((done, buffer @ new), t) \<and>
      set new \<subseteq> {q} \<and> pair_ready p q B i t" by (intro exI [of _ True] exI [of _ "[]"] exI [of _ u]) simp
next
  fix s :: "('v session list) session"
  assume s: "pair_ready p q B i s"
  show "session_ok s" using s leaf_self(5) unfolding pair_ready_def pair_def by blast
  show "pair_ready p q B i (after_closest (cluster_env V) k s) \<and> set (known_closest s k) = {q}"
    by (rule pair_ready_closest [OF s])
qed auto

section \<open>Joining\<close>

text \<open>The node looks itself up and then a peer it samples, which is the other one.\<close>

lemma pair_lookup_each:
  "pair_ready p q B i s \<Longrightarrow> \<exists>t. lookup_each (cluster_env V) ps s = Inr ((), t) \<and> pair_ready p q B i t"
proof (induction ps arbitrary: s)
  case (Cons x ps)
  obtain peers t where "node_lookup (cluster_env V) (pkey x) [] s = Inr (peers, t)" "pair_ready p q B i t"
    using pair_nodes.node_lookup_steady [OF Cons.prems, of V "pkey x"] by blast
  with Cons.IH show ?case by simp
qed simp

lemma pair_self_lookup:
  assumes s: "pair_ready p q B i s" and clock: "\<And>w j. clock_at V w j \<le> clock_at V w (Suc j)"
  shows "\<exists>t. self_lookup (cluster_env V) k s = Inr ((), t) \<and> pair_ready p q B i t"
proof -
  let ?E = "cluster_env V"
  obtain b t where t: "lookup_helper ?E Node_Query k [] s = Inr ((b, None), t)" and r: "pair_ready p q B i t"
    using pair_nodes.lookup_steady [OF s, of V k] by blast
  have me: "leaf_node p {q} t" and pr: "pair p q B i {q} t" using r unfolding pair_ready_def pair_def by blast+
  obtain c d a kb where tab: "table (router_of t) = Leaf c d a kb" "set kb = {q}"
    by (rule leaf_node_bucket [OF me])
  let ?clock = "clock_at ?E (world t)" and ?rand = "rand_at ?E (world t)"
  have wf: "wf_router (router_of t)" and self: "self_peer (router_of t) = p" and ok: "session_ok t"
    using me by (simp_all add: leaf_node_def session_ok_def)
  have "0 \<le> to_seconds (?clock (Suc 0) - ?clock 0)"
    by (rule to_seconds_nonneg) (simp add: cluster_env_def clock)
  moreover have "kb \<noteq> []" using tab(2) by auto
  ultimately obtain ps where ps: "random_per_bucket_peers ?clock ?rand 0 (router_of t) =
      Inr (ps, (router_of t)\<lparr>table := Leaf c d (?clock 0) kb\<rparr>)"
    using tab by (auto simp: random_per_bucket_peers_def Let_def)
  have "pair p q B i {q} (t\<lparr>router_of := (router_of t)\<lparr>table := Leaf c d (?clock 0) kb\<rparr>\<rparr>)"
    using wf self tab random_per_bucket_outcome [OF wf, of ?clock ?rand 0] ps
    by (intro pair_router [OF pr] leaf_node_router [OF me]) simp_all
  then have "pair_ready p q B i (t\<lparr>router_of := (router_of t)\<lparr>table := Leaf c d (?clock 0) kb\<rparr>\<rparr>)"
    using r unfolding pair_ready_def by blast
  from pair_lookup_each [OF this, of V ps] t ps ok show ?thesis
    by (simp add: self_lookup_def lock_router_free unlock_after_update)
qed

text \<open>
  \<open>startup_join\<close> of session \<open>i\<close>, which has the other one under the key it made up, and possibly
  under the true key already.
\<close>

lemma join_pair:
  assumes s: "pair p q B i A s" and A: "A = {x} \<or> A = {x, q}" "endpoint x = endpoint q" "pkey x \<noteq> pkey q"
    and B: "admits q B p" "\<forall>y\<in>B. endpoint y = endpoint p" and clock: "\<And>w j. clock_at V w j \<le> clock_at V w (Suc j)"
    and n: "0 < n"
  shows "\<exists>t. startup_join n (cluster_env V) k (pkey x) (endpoint q) s = Inr ((), t) \<and> pair p q (insert p B) i {q} t"
proof -
  let ?E = "cluster_env V" and ?m = "world s ! (1 - i)"
  have me: "leaf_node p A s" and other: "leaf_node q B ?m" and c: "chunks ?m = []"
    and ne: "pkey p \<noteq> pkey q" "endpoint p \<noteq> endpoint q"
    using s by (simp_all add: pair_def)
  obtain r where r: "rpc_handler_prelims V (local_to_rpc_peer p) ?m = Inr (local_to_rpc_peer q, ?m\<lparr>router_of := r\<rparr>)"
      "leaf_node q (insert p B) (?m\<lparr>router_of := r\<rparr>)"
    using leaf_prelims [OF other B(1)] by blast
  let ?s = "s\<lparr>world := (world s)[1 - i := ?m\<lparr>router_of := r\<rparr>]\<rparr>"
  have s': "pair p q (insert p B) i A ?s" using pair_reply [OF s r(2)] c by simp
  then have me': "leaf_node p A ?s" by (simp add: pair_def)
  have "handle_ping V \<lparr>pg_sender = local_to_rpc_peer p\<rparr> ?m = Inr (\<lparr>pg_receiver = local_to_rpc_peer q\<rparr>, ?m\<lparr>router_of := r\<rparr>)"
    using r(1) by (simp add: handle_ping_def)
  then have ping: "ping ?E \<lparr>pkey = pkey x, endpoint = endpoint q\<rparr> s = Inr (Some q, ?s)"
    using call_pair [OF s, of "handle_ping V" "rpc_ping V"] leaf_self(4) [OF me]
    by (simp add: ping_def answer_def bitset_roundtrip local_to_rpc_peer_def)
  have until: "ping_until n ?E \<lparr>pkey = pkey x, endpoint = endpoint q\<rparr> s = Inr (q, ?s)"
    using n ping by (cases n) simp_all
  have "admits p A q" using A ne by (auto simp: admits_def)
  then obtain lru r1 where r1: "attempt_insert_peer (now_at ?E (world ?s)) (pkey q) (endpoint q) (router_of ?s) = ((True, lru), r1)"
      "leaf_node p (insert q A) (?s\<lparr>router_of := r1\<rparr>)"
    using leaf_insert [OF me'] by blast
  have "insert q A - {x} = {q}" using A by auto
  with leaf_evict [OF r1(2), of x] A have "leaf_node p {q} (?s\<lparr>router_of := r1, router_of := evict_peer (pkey x) r1\<rparr>)"
    by auto
  then have ready: "pair_ready p q (insert p B) i (?s\<lparr>router_of := evict_peer (pkey x) r1\<rparr>)"
    using pair_router [OF s', of "{q}" "evict_peer (pkey x) r1"] B(2) unfolding pair_ready_def by simp
  have ok: "session_ok ?s" by (rule leaf_self(5) [OF me'])
  have "startup_join n ?E k (pkey x) (endpoint q) s = self_lookup ?E k (?s\<lparr>router_of := evict_peer (pkey x) r1\<rparr>)"
    unfolding startup_join_def until and_then.simps prod.case lock_router_free [OF ok] Let_def
    using r1(1) ok by (simp add: unlock_after_update)
  with pair_self_lookup [OF ready clock] show ?thesis unfolding pair_ready_def by metis
qed

section \<open>The list of the two sessions\<close>

definition pair_list :: "peer \<Rightarrow> peer set \<Rightarrow> peer \<Rightarrow> peer set \<Rightarrow> 'v session list \<Rightarrow> bool" where
  "pair_list p A q B ns \<longleftrightarrow> endpoint p \<noteq> endpoint q \<and> pkey p \<noteq> pkey q \<and> length ns = 2 \<and>
     leaf_node p A (ns ! 0) \<and> leaf_node q B (ns ! 1) \<and> chunks (ns ! 0) = [] \<and> chunks (ns ! 1) = []"

lemma leaf_node_enter [simp]: "leaf_node me A (enter i ns) = leaf_node me A (ns ! i)"
  by (simp add: enter_def Let_def leaf_node_def session_ok_def)

lemma chunks_enter [simp]: "chunks (enter i ns) = chunks (ns ! i)"
  by (simp add: enter_def Let_def)

lemma pair_enter:
  "pair_list p A q B ns \<Longrightarrow> pair p q B 0 A (enter 0 ns)"
  "pair_list p A q B ns \<Longrightarrow> pair q p A 1 B (enter 1 ns)"
  using leaf_self(2) by (fastforce simp: pair_def pair_list_def)+

lemma leaf_node_leave:
  assumes "i < length (world s)"
  shows "leaf_node me A (leave i s ! i) = leaf_node me A s" and "chunks (leave i s ! i) = chunks s"
    and "j \<noteq> i \<Longrightarrow> leave i s ! j = world s ! j" and "length (leave i s) = length (world s)"
  using assms by (simp_all add: leave_def leaf_node_def session_ok_def)

lemma pair_leave:
  "pair p q B 0 A s \<Longrightarrow> pair_list p A q B (leave 0 s)"
  "pair q p A 1 B s \<Longrightarrow> pair_list p A q B (leave 1 s)"
  by (auto simp: pair_def pair_list_def leaf_node_leave)

text \<open>The first phase of a startup gives a session its key and a made-up contact.\<close>

lemma begin_node:
  assumes "i < length ns" and "ns ! i = new_session w" and "random_key dt \<noteq> random_key ds" and "init \<noteq> ep"
  shows "\<exists>n. on_node i (startup_begin (cluster_env V) ds dt ep init) ns = Inr ((), ns[i := n]) \<and>
    leaf_node \<lparr>pkey = random_key ds, endpoint = ep\<rparr> {\<lparr>pkey = random_key dt, endpoint = init\<rparr>} n \<and> chunks n = []"
proof -
  let ?now = "now_at (cluster_env V) ns"
  let ?r = "new_router ?now (random_key ds) ep (random_key dt) init"
  let ?t = "Leaf 159 1 ?now [\<lparr>pkey = random_key dt, endpoint = init\<rparr>]"
  let ?n = "(new_session w)\<lparr>router_of := ?r\<rparr>"
  have "insert_loop (Suc 159) ?now (random_key ds) (random_key dt) init (new_tree ?now 159) = (Inserted, ?t)"
    unfolding insert_loop.simps by (simp add: new_tree_def key_index_None [THEN iffD2])
  then have r: "?r = \<lparr>self_peer = \<lparr>pkey = random_key ds, endpoint = ep\<rparr>, table = ?t\<rparr>"
    using assms(3,4) by (simp add: new_router_def attempt_insert_peer_def)
  have "leaf_node \<lparr>pkey = random_key ds, endpoint = ep\<rparr> {\<lparr>pkey = random_key dt, endpoint = init\<rparr>} ?n \<and> chunks ?n = []"
    using new_router_wf [of ?now "random_key ds" ep "random_key dt" init]
    by (simp add: leaf_node_def session_ok_def new_session_def r)
  moreover have "on_node i (startup_begin (cluster_env V) ds dt ep init) ns = Inr ((), ns[i := ?n])"
    using assms(1,2)
    by (simp add: on_node_def startup_begin_def enter_def new_session_def Let_def lock_router_def unlock_router_def leave_def)
  ultimately show ?thesis by blast
qed

lemma join_list:
  assumes "\<And>w j. clock_at V w j \<le> clock_at V w (Suc j)" and "0 < n"
  shows "pair_list p A q B ns \<Longrightarrow> A = {x} \<or> A = {x, q} \<Longrightarrow> endpoint x = endpoint q \<Longrightarrow> pkey x \<noteq> pkey q \<Longrightarrow>
      admits q B p \<Longrightarrow> \<forall>y\<in>B. endpoint y = endpoint p \<Longrightarrow>
      \<exists>ns'. on_node 0 (startup_join n (cluster_env V) k (pkey x) (endpoint q)) ns = Inr ((), ns') \<and>
        pair_list p {q} q (insert p B) ns'"
    and "pair_list p A q B ns \<Longrightarrow> B = {x} \<or> B = {x, p} \<Longrightarrow> endpoint x = endpoint p \<Longrightarrow> pkey x \<noteq> pkey p \<Longrightarrow>
      admits p A q \<Longrightarrow> \<forall>y\<in>A. endpoint y = endpoint q \<Longrightarrow>
      \<exists>ns'. on_node 1 (startup_join n (cluster_env V) k (pkey x) (endpoint p)) ns = Inr ((), ns') \<and>
        pair_list p (insert q A) q {p} ns'"
  using join_pair [OF pair_enter(1) _ _ _ _ _ assms, of p A q B ns x k] pair_leave(1) [of p q "insert p B" "{q}"]
    join_pair [OF pair_enter(2) _ _ _ _ _ assms, of p A q B ns x k] pair_leave(2) [of q p "insert q A" "{p}"]
  by (fastforce simp: on_node_def)+

section \<open>The command\<close>

text \<open>The peers of the two sessions: their own and the one under which they first know the other.\<close>

definition booted :: "'v host \<Rightarrow> string list \<Rightarrow> nat \<Rightarrow> peer" where
  "booted h eps i = \<lparr>pkey = random_key (draw h (2 * i)), endpoint = eps ! i\<rparr>"

definition guessed :: "'v host \<Rightarrow> string list \<Rightarrow> nat \<Rightarrow> peer" where
  "guessed h eps i = \<lparr>pkey = random_key (draw h (2 * i + 1)), endpoint = eps ! (Suc i mod length eps)\<rparr>"

definition fresh_draws :: "'v host \<Rightarrow> bool" where
  "fresh_draws h \<longleftrightarrow> distinct (map (\<lambda>i. random_key (draw h i)) [0, 1, 2, 3])"

lemma begin_pair:
  assumes "e0 \<noteq> e1" and "fresh_draws h"
  shows "\<exists>ns. begin_all h [e0, e1] [0, 1] [new_session w, new_session w] = Inr ns \<and>
    pair_list (booted h [e0, e1] 0) {guessed h [e0, e1] 0} (booted h [e0, e1] 1) {guessed h [e0, e1] 1} ns"
proof -
  let ?eps = "[e0, e1]" and ?ns = "[new_session w, new_session w]" and ?E = "cluster_env (net h)"
  obtain n0 where n0: "on_node 0 (startup_begin ?E (draw h 0) (draw h 1) e0 e1) ?ns = Inr ((), [n0, new_session w])"
      "leaf_node (booted h ?eps 0) {guessed h ?eps 0} n0" "chunks n0 = []"
    using begin_node [of 0 ?ns w "draw h 1" "draw h 0" e1 e0 "net h"] assms
    by (auto simp: fresh_draws_def booted_def guessed_def)
  obtain n1 where n1: "on_node 1 (startup_begin ?E (draw h 2) (draw h 3) e1 e0) [n0, new_session w] = Inr ((), [n0, n1])"
      "leaf_node (booted h ?eps 1) {guessed h ?eps 1} n1" "chunks n1 = []"
    using begin_node [of 1 "[n0, new_session w]" w "draw h 3" "draw h 2" e0 e1 "net h"] assms
    by (auto simp: fresh_draws_def booted_def guessed_def numeral_3_eq_3)
  have "pair_list (booted h ?eps 0) {guessed h ?eps 0} (booted h ?eps 1) {guessed h ?eps 1} [n0, n1]"
    using n0(2,3) n1(2,3) assms by (simp add: pair_list_def booted_def fresh_draws_def)
  moreover have "begin_all h ?eps [0, 1] ?ns = Inr [n0, n1]"
    using n0(1) n1(1) by (simp add: numeral_3_eq_3)
  ultimately show ?thesis by blast
qed

lemma join_both:
  assumes "e0 \<noteq> e1" and "fresh_draws h" and "\<And>w j. clock_at (net h) w j \<le> clock_at (net h) w (Suc j)" and "0 < patience h"
    and "pair_list (booted h [e0, e1] 0) {guessed h [e0, e1] 0} (booted h [e0, e1] 1) {guessed h [e0, e1] 1} ns"
    and "order = [0, 1] \<or> order = [1, 0]"
  shows "\<exists>ns'. join_all h [e0, e1] order ns = Inr ns' \<and>
    pair_list (booted h [e0, e1] 0) {booted h [e0, e1] 1} (booted h [e0, e1] 1) {booted h [e0, e1] 0} ns'"
proof -
  let ?p = "booted h [e0, e1] 0" and ?q = "booted h [e0, e1] 1"
  let ?x = "guessed h [e0, e1] 0" and ?y = "guessed h [e0, e1] 1"
  let ?E = "cluster_env (net h)" and ?n = "patience h"
  have x: "endpoint ?x = endpoint ?q" "pkey ?x \<noteq> pkey ?q" and y: "endpoint ?y = endpoint ?p" "pkey ?y \<noteq> pkey ?p"
    using assms(2) by (auto simp: booted_def guessed_def fresh_draws_def)
  have adm: "admits ?q {?y} ?p" "admits ?p {?x} ?q" "admits ?p {?q} ?q" "admits ?q {?p} ?p"
    using assms(1,2) by (auto simp: admits_def booted_def guessed_def fresh_draws_def)
  note join = join_list [OF assms(3,4)]
  have len: "length ns = 2" using assms(5) by (simp add: pair_list_def)
  have two: "length ns = 2" if "pair_list p A q B ns" for p A q B and ns :: "'a session list"
    using that by (simp add: pair_list_def)
  have keys: "pkey ?x = random_key (draw h 1)" "pkey ?y = random_key (draw h 3)" "endpoint ?q = e1" "endpoint ?p = e0"
    by (simp_all add: booted_def guessed_def numeral_3_eq_3)
  from assms(6) show ?thesis
  proof
    assume order: "order = [0, 1]"
    obtain ns1 where ns1: "on_node 0 (startup_join ?n ?E (random_key (draw h 0)) (pkey ?x) (endpoint ?q)) ns = Inr ((), ns1)"
        "pair_list ?p {?q} ?q {?p, ?y} ns1"
      using join(1) [OF assms(5) _ x adm(1)] y(1) by auto
    obtain ns2 where ns2: "on_node 1 (startup_join ?n ?E (random_key (draw h 2)) (pkey ?y) (endpoint ?p)) ns1 = Inr ((), ns2)"
        "pair_list ?p {?q} ?q {?p} ns2"
      using join(2) [OF ns1(2) _ y adm(3)] by (auto simp: insert_commute)
    show ?thesis
      using ns1(1) [unfolded keys] ns2(1) [unfolded keys] ns2(2) len two [OF ns1(2)]
      by (simp add: order numeral_3_eq_3)
  next
    assume order: "order = [1, 0]"
    obtain ns1 where ns1: "on_node 1 (startup_join ?n ?E (random_key (draw h 2)) (pkey ?y) (endpoint ?p)) ns = Inr ((), ns1)"
        "pair_list ?p {?q, ?x} ?q {?p} ns1"
      using join(2) [OF assms(5) _ y adm(2)] x(1) by auto
    obtain ns2 where ns2: "on_node 0 (startup_join ?n ?E (random_key (draw h 0)) (pkey ?x) (endpoint ?q)) ns1 = Inr ((), ns2)"
        "pair_list ?p {?q} ?q {?p} ns2"
      using join(1) [OF ns1(2) _ x adm(4)] by (auto simp: insert_commute)
    show ?thesis
      using ns1(1) [unfolded keys] ns2(1) [unfolded keys] ns2(2) len two [OF ns1(2)]
      by (simp add: order numeral_3_eq_3)
  qed
qed

lemma pair_keeps:
  assumes "pair_list p {q} q {p} ns"
  shows "cluster_keeps [p, q] (\<lambda>_. None) ns"
proof -
  have ne: "endpoint p \<noteq> endpoint q" "pkey p \<noteq> pkey q" using assms by (simp_all add: pair_list_def)
  then have "p \<noteq> q" by auto
  then have "others [p, q] p = {q}" "others [p, q] q = {p}" by (auto simp: others_def)
  moreover have "kept n = (\<lambda>_. None)" if "chunks n = []" for n :: "'a session"
    using that by (simp add: kept_def fun_eq_iff)
  ultimately show ?thesis
    using assms ne by (auto simp: cluster_keeps_def group_def knows_def pair_list_def less_Suc_eq)
qed

lemma permutation_of_two: "mset xs = mset [0..<2] \<Longrightarrow> xs = [0, 1] \<or> xs = [1, 0 :: nat]"
proof -
  assume m: "mset xs = mset [0..<2]"
  then have "length xs = 2" by (metis length_upt minus_nat.diff_0 size_mset)
  then obtain a b where xs: "xs = [a, b]" by (auto simp: length_Suc_conv numeral_2_eq_2)
  with m have "{#a, b#} = {#0, 1#}" by (simp add: upt_rec)
  then show ?thesis using xs by (auto simp: add_eq_conv_ex)
qed

text \<open>Starting a client with two endpoints succeeds, in whatever order the two startups join: the
  sessions find each other under their true keys, forget the keys they made up, and
  represent the empty catalog, so that every command works from then on.
\<close>

lemma bootstrap_pair:
  assumes "sessions c = []" and "e0 \<noteq> e1" and "fresh_draws h" and "0 < patience h" and "orders_threads h"
    and "\<And>w j. clock_at (net h) w j \<le> clock_at (net h) w (Suc j)" and "digest_ok (sha1 h) C N"
  shows "\<exists>c'. bootstrap_cmd h w [e0, e1] c = Inr (True, c') \<and>
    represents h C N \<lparr>listed = [], content = \<lambda>_. None\<rparr> c' \<and> disk c' = disk c \<and> cmd_err c' = cmd_err c \<and>
    cmd_out c' = ''Initialized sessions and index file for new cluster.''"
proof -
  let ?p = "booted h [e0, e1] 0" and ?q = "booted h [e0, e1] 1"
  obtain ns where ns: "begin_all h [e0, e1] [0, 1] [new_session w, new_session w] = Inr ns"
      "pair_list ?p {guessed h [e0, e1] 0} ?q {guessed h [e0, e1] 1} ns"
    using begin_pair [OF assms(2,3)] by blast
  have "sched h 2 = [0, 1] \<or> sched h 2 = [1, 0]"
    using assms(5) by (intro permutation_of_two) (simp add: orders_threads_def)
  then obtain ns' where ns': "join_all h [e0, e1] (sched h 2) ns = Inr ns'" "pair_list ?p {?q} ?q {?p} ns'"
    using join_both [OF assms(2,3,6,4) ns(2)] by blast
  let ?c = "c\<lparr>exiting := False, endpoints := [e0, e1], meta_from := 0, draws := 4, sessions := ns'\<rparr>"
  have "\<exists>ns. with_session h (init_index_file (sha1 h)) ?c = Inr (True, ?c\<lparr>rands := Suc (rands ?c), sessions := ns\<rparr>) \<and>
      cluster_keeps [?p, ?q] [index_key (sha1 h) \<mapsto> []] ns"
    using pair_keeps [OF ns'(2)] by (intro with_session_shared mesh.init_index_shared) simp_all
  then obtain ns2 where ns2: "with_session h (init_index_file (sha1 h)) ?c = Inr (True, ?c\<lparr>rands := Suc (rands ?c), sessions := ns2\<rparr>)"
      "cluster_keeps [?p, ?q] [index_key (sha1 h) \<mapsto> []] ns2" by blast
  then have "represents h C N \<lparr>listed = [], content = \<lambda>_. None\<rparr> (?c\<lparr>rands := Suc (rands ?c), sessions := ns2\<rparr>)"
    using catalogs_empty [OF assms(7)] by (auto simp: represents_def)
  moreover have "bootstrap_cmd h w [e0, e1] c = Inr (True, ?c\<lparr>rands := Suc (rands ?c), sessions := ns2,
      cmd_out := ''Initialized sessions and index file for new cluster.''\<rparr>)"
    using ns(1) ns'(1) ns2(1) assms(1)
    by (simp add: bootstrap_cmd_def Let_def numeral_2_eq_2 [symmetric] upt_rec del: begin_all.simps join_all.simps)
  ultimately show ?thesis by simp
qed

section \<open>Example\<close>

lemma sample_draws: "fresh_draws sample_host"
proof -
  have "random_key (draw sample_host i) \<noteq> random_key (draw sample_host j)" if "i < 160" "i \<noteq> j" for i j
    using random_key_bit [OF that(1), of "draw sample_host i"] random_key_bit [OF that(1), of "draw sample_host j"] that(2)
    by (auto simp: sample_host_def)
  then show ?thesis by (simp add: fresh_draws_def)
qed

lemma bootstrap_pair_witness:
  "\<exists>c. bootstrap_cmd sample_host () [''a:1'', ''b:1''] ((sample_control [])\<lparr>sessions := []\<rparr>) = Inr (True, c) \<and>
     represents sample_host {''hey''} {''ab'', ''index''} \<lparr>listed = [], content = \<lambda>_. None\<rparr> c"
proof -
  have clock: "clock_at (net sample_host) w j \<le> clock_at (net sample_host) w (Suc j)" for w j
    by (simp add: sample_host_def silent_env_def)
  have "sessions ((sample_control [])\<lparr>sessions := []\<rparr>) = []" "''a:1'' \<noteq> ''b:1''" "0 < patience sample_host"
    "digest_ok (sha1 sample_host) {''hey''} {''ab'', ''index''}"
    using sample_digest_ok by (simp_all add: sample_host_def)
  from bootstrap_pair [OF this(1,2) sample_draws this(3) sample_threads clock this(4)] show ?thesis by blast
qed

end
