(* ===== verification/Conversation.thy ===== *)
theory Conversation
  imports Relief Bootstrap
begin

text \<open>
  The whole program: a daemon that is started on two endpoints and then, in any order, answers
  clients and relieves its sessions of strain. It behaves as a catalog of files does.
\<close>

section \<open>What a client can ask for\<close>

datatype ask = Ask_List | Ask_Store "string list" | Ask_Load "string list" string

fun ask_code :: "ask \<Rightarrow> cmd_code" where
  "ask_code Ask_List = LIST"
| "ask_code (Ask_Store files) = STORE"
| "ask_code (Ask_Load names out) = LOAD"

fun ask_args :: "ask \<Rightarrow> string list" where
  "ask_args Ask_List = []"
| "ask_args (Ask_Store files) = files"
| "ask_args (Ask_Load names out) = names @ [out]"

text \<open>The client's side: the handler that \<open>main\<close> calls.\<close>

fun ask_client :: "client_env \<Rightarrow> ask \<Rightarrow> client_result" where
  "ask_client e Ask_List = handle_list e"
| "ask_client e (Ask_Store files) = founder_handle_store e (char_of (length files)) files"
| "ask_client e (Ask_Load names out) = handle_load e (char_of (length (names @ [out]))) (names @ [out])"

text \<open>The daemon's side: an iteration of its loop on the bytes the client wrote.\<close>

definition ask_daemon :: "'v host \<Rightarrow> char \<Rightarrow> write_results \<Rightarrow> client_env \<Rightarrow> ask \<Rightarrow> 'v daemon \<Rightarrow> 'v daemon option" where
  "ask_daemon h junk sys e q d =
     (case send_cmd e (ask_code q) (char_of (length (ask_args q))) (ask_args q) of
        Inr (True, p) \<Rightarrow>
          (case daemon_step h junk sys True \<lparr>pending = written p, failing = False\<rparr> d of
             Some (Inr (Answers _ _, d')) \<Rightarrow> Some d'
           | _ \<Rightarrow> None)
      | _ \<Rightarrow> None)"

section \<open>A run of the daemon\<close>

text \<open>A turn is a client that asks, or an iteration of the strain reliever.\<close>

datatype turn = Asks client_env ask | Relieves

text \<open>
  The exit status and the printed lines of every client, and the daemon afterwards; \<open>None\<close>
  when something raises an exception, does not return or is not answered.
\<close>

fun conversation ::
  "'v host \<Rightarrow> char \<Rightarrow> write_results \<Rightarrow> turn list \<Rightarrow> 'v daemon \<Rightarrow> ((int \<times> string list) list \<times> 'v daemon) option" where
  "conversation h junk sys [] d = Some ([], d)"
| "conversation h junk sys (Asks e q # ts) d =
     (case ask_client (connected h junk sys d e) q of
        Some (Inr r) \<Rightarrow>
          (case ask_daemon h junk sys e q d of
             Some d \<Rightarrow> map_option (\<lambda>(rs, d). (r # rs, d)) (conversation h junk sys ts d)
           | None \<Rightarrow> None)
      | _ \<Rightarrow> None)"
| "conversation h junk sys (Relieves # ts) d =
     (case strain_step h (ctrl d) of
        Inr (_, c) \<Rightarrow> conversation h junk sys ts (d\<lparr>ctrl := c\<rparr>)
      | Inl _ \<Rightarrow> None)"

section \<open>The same for a catalog\<close>

type_synonym disk = "string \<Rightarrow> string option"

fun catalog_answer :: "ask \<Rightarrow> catalog \<Rightarrow> disk \<Rightarrow> string list \<times> catalog \<times> disk" where
  "catalog_answer Ask_List a D = ([lines_of (''INDEX'' # listed a)], a, D)"
| "catalog_answer (Ask_Store files) a D =
     (let (added, errs, a') = catalog_store D files [] [] a in
      ((if errs = [] then [] else [errs]) @ [lines_of (''Successfully stored the following files'' # added)],
       a'\<lparr>listed := listed a @ added\<rparr>, D))"
| "catalog_answer (Ask_Load names out) a D =
     ([''Successfully loaded all files into output file '' @ out],
      a, D(out \<mapsto> concat (map (\<lambda>n. the (content a n)) names)))"

fun catalog_conversation :: "turn list \<Rightarrow> catalog \<Rightarrow> disk \<Rightarrow> (int \<times> string list) list \<times> catalog \<times> disk" where
  "catalog_conversation [] a D = ([], a, D)"
| "catalog_conversation (Asks e q # ts) a D =
     (let (ls, a, D) = catalog_answer q a D; (rs, s) = catalog_conversation ts a D in ((SUCCESS, ls) # rs, s))"
| "catalog_conversation (Relieves # ts) a D = catalog_conversation ts a D"

text \<open>
  Requests within the limits: what is stored has names and chunks the digest tells apart, and
  the list of names fits a message; what is loaded is there, and the output can be opened.
\<close>

fun ask_ok :: "'v host \<Rightarrow> string set \<Rightarrow> string set \<Rightarrow> ask \<Rightarrow> catalog \<Rightarrow> disk \<Rightarrow> bool" where
  "ask_ok h C N Ask_List a D = True"
| "ask_ok h C N (Ask_Store files) a D =
     (storable C N D files \<and> length (index_text (listed a @ fst (catalog_store D files [] [] a))) < 2 ^ 31)"
| "ask_ok h C N (Ask_Load names out) a D = (writable h out \<and> (\<forall>n\<in>set names. content a n \<noteq> None))"

fun turns_ok ::
  "'v host \<Rightarrow> string set \<Rightarrow> string set \<Rightarrow> write_results \<Rightarrow> turn list \<Rightarrow> catalog \<Rightarrow> disk \<Rightarrow> bool" where
  "turns_ok h C N sys [] a D = True"
| "turns_ok h C N sys (Asks e q # ts) a D =
     (pipes_work e sys \<and> sendable (ask_args q) \<and> ask_ok h C N q a D \<and>
      (let (ls, a, D) = catalog_answer q a D in turns_ok h C N sys ts a D))"
| "turns_ok h C N sys (Relieves # ts) a D = turns_ok h C N sys ts a D"

section \<open>The daemon refines the catalog\<close>

lemma answered:
  assumes "represents h C N a (ctrl d)" and "pipes_work e sys" and "orders_threads h" and "sendable (ask_args q)"
    and "ask_ok h C N q a (disk (ctrl d))" and "catalog_answer q a (disk (ctrl d)) = (ls, a', D')"
  shows "\<exists>d'. ask_client (connected h junk sys d e) q = Some (Inr (SUCCESS, ls)) \<and>
    ask_daemon h junk sys e q d = Some d' \<and> represents h C N a' (ctrl d') \<and> disk (ctrl d') = D'"
proof (cases q)
  case Ask_List
  have char: "char_of (length ([] :: string list)) = nul" by (simp add: char_of_def)
  from remote_list [OF assms(1,2), of junk] Ask_List assms(6) show ?thesis
    unfolding ask_daemon_def Ask_List ask_args.simps ask_code.simps char by fastforce
next
  case (Ask_Store files)
  obtain added errs b where cat: "catalog_store (disk (ctrl d)) files [] [] a = (added, errs, b)"
    by (metis prod_cases3)
  have "storable C N (disk (ctrl d)) files" "length (index_text (listed a @ added)) < 2 ^ 31" "sendable files"
    using assms(4,5) Ask_Store cat by simp_all
  from remote_store [OF assms(1-3) this(3,1) cat this(2), of junk] Ask_Store assms(6) cat show ?thesis
    by (fastforce simp: ask_daemon_def)
next
  case (Ask_Load names out)
  have "writable h out" "\<forall>n\<in>set names. content a n = Some (the (content a n))" "sendable (names @ [out])"
    using assms(4,5) Ask_Load by auto
  from remote_load [OF assms(1-3) this(3,1,2), of junk] Ask_Load assms(6) show ?thesis
    by (fastforce simp: ask_daemon_def)
qed

lemma conversation_run:
  assumes "represents h C N a (ctrl d)" and "orders_threads h" and "stray_keys h C N"
    and "turns_ok h C N sys ts a (disk (ctrl d))"
    and "catalog_conversation ts a (disk (ctrl d)) = (rs, a', D')"
  shows "\<exists>d'. conversation h junk sys ts d = Some (rs, d') \<and> represents h C N a' (ctrl d') \<and> disk (ctrl d') = D'"
  using assms(1,4,5)
proof (induction ts arbitrary: a d rs)
  case Nil
  then show ?case by simp
next
  case (Cons t ts)
  show ?case
  proof (cases t)
    case (Asks e q)
    obtain ls b D where ans: "catalog_answer q a (disk (ctrl d)) = (ls, b, D)" by (metis prod_cases3)
    obtain rs' where rs: "catalog_conversation ts b D = (rs', a', D')" "rs = (SUCCESS, ls) # rs'"
      using Cons.prems(3) by (auto simp: Asks ans split: prod.splits)
    have ok: "pipes_work e sys" "sendable (ask_args q)" "ask_ok h C N q a (disk (ctrl d))" "turns_ok h C N sys ts b D"
      using Cons.prems(2) ans by (simp_all add: Asks)
    obtain d1 where d1: "ask_client (connected h junk sys d e) q = Some (Inr (SUCCESS, ls))"
        "ask_daemon h junk sys e q d = Some d1" "represents h C N b (ctrl d1)" "disk (ctrl d1) = D"
      using answered [OF Cons.prems(1) ok(1) assms(2) ok(2,3) ans] by blast
    with Cons.IH [OF d1(3), of rs'] ok(4) rs show ?thesis by (auto simp: Asks)
  next
    case Relieves
    obtain ev c where c: "strain_step h (ctrl d) = Inr (ev, c)" "represents h C N a c" "same_files (ctrl d) c"
      using strain_step_catalog [OF Cons.prems(1) assms(3)] by blast
    with Cons.IH [of a "d\<lparr>ctrl := c\<rparr>" rs] Cons.prems(2,3) show ?thesis by (simp add: Relieves same_files_def)
  qed
qed


section \<open>Examples\<close>

text \<open>The digests of the example have the same bits in each byte, its random keys have one bit.\<close>

lemma sample_stray: "stray_keys sample_host {''hey''} {''ab'', ''index''}"
proof -
  have "random_key (\<lambda>j. i = j) \<noteq> sample_key x" if "bit (of_nat (length x) :: 8 word) b" "b < 8" for i x b
  proof
    assume eq: "random_key (\<lambda>j. i = j) = sample_key x"
    have "bit (sample_key x) (8 * 0 + b)" "bit (sample_key x) (8 * 1 + b)"
      using that by (subst key_from_data_bit; simp add: length_digest_def)+
    with random_key_bit [of b "\<lambda>j. i = j"] random_key_bit [of "8 + b" "\<lambda>j. i = j"] that(2) show False
      by (simp add: eq [symmetric])
  qed
  from this [of "''hey''" 0] this [of "''ab''" 1] this [of "''index''" 0] show ?thesis
    by (simp add: stray_keys_def sample_host_def)
qed


end
