(* ===== verification/Client_Properties.thy ===== *)
theory Client_Properties
  imports Remote
begin

text \<open>
  The properties of the client processes on their own: the strain reliever, the errors of the
  client, the local files and session ids, the command line and the terminal.
\<close>

section \<open>The strain reliever\<close>

lemma dummy_sets_bound: "dummy_sets h i c = Inr (n, c') \<Longrightarrow> i \<le> 9 \<Longrightarrow> n \<le> 9"
proof (induction h i c arbitrary: n c' rule: dummy_sets.induct)
  case (1 h i c)
  let ?r = "rand h (rands c) mod 10"
  show ?case
  proof (cases "i < ?r")
    case True
    then have "Suc i \<le> 9" using mod_less_divisor [of 10 "rand h (rands c)"] by linarith
    with 1 True show ?thesis
      by (subst (asm) dummy_sets.simps) (auto simp: Let_def split_beta)
  next
    case False
    with 1 show ?thesis by (subst (asm) dummy_sets.simps) (auto simp: Let_def)
  qed
qed

text \<open>C33: The strain reliever does the opposite of what it is for: as long as the client is not
  exiting, the thread waits, and changes nothing, exactly while the number of dead peers has
  reached the threshold; below the threshold it never waits but sets dummy chunks, at most
  nine in an iteration.
\<close>

theorem strain_reliever_inverted:
  assumes "\<not> exiting c"
  shows "case strain_step h c of
      Inl _ \<Rightarrow> dead_peers_total c < thresh c
    | Inr (Waits, c') \<Rightarrow> thresh c \<le> dead_peers_total c \<and> c' = c
    | Inr (Relieved n, c') \<Rightarrow> dead_peers_total c < thresh c \<and> n \<le> 9
    | Inr (Returns, c') \<Rightarrow> False"
proof (cases "thresh c \<le> dead_peers_total c")
  case False
  let ?c = "c\<lparr>sessions := take (meta_from c) (sessions c) @
                map (\<lambda>n. n\<lparr>dead_peers := 0\<rparr>) (drop (meta_from c) (sessions c))\<rparr>"
  from False assms have "strain_step h c = and_then (dummy_sets h 0 ?c) (\<lambda>(n, c). Inr (Relieved n, c))"
    by (simp add: strain_step_def Let_def)
  with False dummy_sets_bound [of h 0 ?c] show ?thesis
    by (cases "dummy_sets h 0 ?c") auto
qed (use assms in \<open>simp add: strain_step_def\<close>)

section \<open>The errors of the client\<close>

lemma setup_loggers: "setup_client creatable home paths = Inr (True, ls, paths') \<Longrightarrow> ls = {''client_logger''}"
  by (auto simp: setup_client_def Let_def split: if_splits)

lemma client_failure_crashes [simp]: "client_failure {''client_logger''} x = Inl Null_Pointer"
  by (simp add: client_failure_def)

lemma write_args_true: "write_args {''client_logger''} sys as p = Inr (ok, q) \<Longrightarrow> ok"
  by (induction as arbitrary: p) (auto simp: Let_def split: prod.splits if_splits)

lemma write_cmd_true: "write_cmd {''client_logger''} sys opened c = Inr (ok, q) \<Longrightarrow> ok"
  by (auto simp: write_cmd_def Let_def dest: write_args_true split: prod.splits if_splits)

lemma read_err_true: "read_err {''client_logger''} junk a p = Some (Inr (ok, b)) \<Longrightarrow> ok"
  by (auto simp: read_err_def Let_def split: prod.splits if_splits option.splits)

lemma receive_success:
  assumes "loggers e = {''client_logger''}" and "receive_result e sent = Some (Inr (status, ls))"
  shows "status = SUCCESS"
  using assms by (auto simp: receive_result_def dest: read_err_true split: option.splits sum.splits prod.splits if_splits)

text \<open>C34: No failure of the client ends in its own error message: a client whose directory was set
  up never returns INTERNAL_ERROR from listing, storing or loading, and when the command
  pipe cannot be opened it calls a member of a null pointer, because it asks for a logger
  by another name than the one it registered.
\<close>

theorem client_failures_crash:
  assumes "setup_client creatable home paths = Inr (True, loggers e, paths')"
    and "r \<in> {handle_list e, founder_handle_store e n as, handle_load e n as}"
  shows "(\<forall>status ls. r = Some (Inr (status, ls)) \<longrightarrow> status = SUCCESS) \<and>
    (\<not> cmd_opened e \<longrightarrow> r = Some (Inl Null_Pointer))"
proof -
  have l: "loggers e = {''client_logger''}" by (rule setup_loggers [OF assms(1)])
  have send: "ok" if "send_cmd e code m bs = Inr (ok, p)" for code m bs ok p
    using that by (auto simp: send_cmd_def l dest: write_cmd_true)
  have closed: "\<not> cmd_opened e \<Longrightarrow> send_cmd e code m bs = Inl Null_Pointer" for code m bs
    by (simp add: send_cmd_def l write_cmd_def)
  have "status = SUCCESS"
    if "(case send_cmd e code m bs of Inl x \<Rightarrow> Some (Inl x)
         | Inr (ok, p) \<Rightarrow> if \<not> ok then Some (Inr (INTERNAL_ERROR, msg)) else receive_result e (written p)) = Some (Inr (status, ls))"
    for code m bs msg status ls
    using that send [of code m bs] receive_success [OF l] by (auto split: sum.splits prod.splits if_splits)
  then show ?thesis
    using assms(2) closed by (auto simp: handle_list_def founder_handle_store_def handle_load_def)
qed

section \<open>Session ids and local files\<close>

lemma is_digit_dec [simp]: "n < 10 \<Longrightarrow> is_digit (dec_digit n) \<and> of_char (dec_digit n) = 48 + n"
  by (auto simp: dec_digit_def is_digit_def less_Suc_eq numeral_eq_Suc)

lemma dec_of_nat_digits: "dec_of_nat n \<noteq> [] \<and> list_all is_digit (dec_of_nat n)"
proof (induction n rule: dec_of_nat.induct)
  case (1 n)
  then show ?case by (cases "n < 10") (subst dec_of_nat.simps, simp)+
qed

lemma num_of_digits_snoc [simp]: "num_of_digits (s @ [c]) = 10 * num_of_digits s + (of_char c - 48)"
  by (simp add: num_of_digits_def)

lemma num_of_dec: "num_of_digits (dec_of_nat n) = n"
proof (induction n rule: dec_of_nat.induct)
  case (1 n)
  show ?case
  proof (cases "n < 10")
    case True
    then show ?thesis by (subst dec_of_nat.simps) (simp add: num_of_digits_def)
  next
    case False
    with 1 show ?thesis by (subst dec_of_nat.simps) simp
  qed
qed

text \<open>The session id the client prints is an argument it accepts: it is found exactly when the
  command pipe of the session exists. An empty argument, and a number that does not fit an
  int, end the client with an exception instead of an error message.\<close>

theorem session_ids_accepted:
  assumes "n < 2 ^ 31"
  shows "session_arg dir paths (dec_of_nat n) = Inr (if cmd_file dir n \<in> paths then Some n else None) \<and>
    session_arg dir paths [] = Inl Invalid_Argument \<and>
    session_arg dir paths (dec_of_nat (n + 2 ^ 31)) = Inl Out_Of_Range"
  using assms dec_of_nat_digits [of n] dec_of_nat_digits [of "n + 2 ^ 31"]
  by (simp add: session_arg_def stoi_def num_of_dec)

text \<open>No path is inside the directory of the session.\<close>

definition fresh_session :: "string \<Rightarrow> nat \<Rightarrow> string set \<Rightarrow> bool" where
  "fresh_session dir n paths \<longleftrightarrow>
     (\<forall>p\<in>paths. take (length (session_dir dir n) + 1) p \<noteq> session_dir dir n @ ''/'')"

text \<open>The local files of a session: when add_daemon_files succeeds, the session id is found; then
  remove_daemon_files succeeds, takes away exactly what was added, and the id is not found
  any more.\<close>

theorem daemon_files_roundtrip:
  assumes "fresh_session dir n paths" and "add_daemon_files creatable dir n paths = Inr (True, paths')" and "n < 2 ^ 31"
  shows "session_arg dir paths' (dec_of_nat n) = Inr (Some n) \<and> remove_daemon_files dir n paths' = Inr paths \<and>
    session_arg dir paths (dec_of_nat n) = Inr None"
proof -
  let ?d = "session_dir dir n"
  have new: "?d \<notin> paths" "logs_file dir n \<notin> paths" "cmd_file dir n \<notin> paths" "err_file dir n \<notin> paths"
    using assms(1,2) by (auto simp: fresh_session_def logs_file_def cmd_file_def err_file_def add_daemon_files_def
        create_directory_def split: if_splits)
  obtain p where p: "p = paths \<or> p = insert (logs_file dir n) paths" "paths' = insert (err_file dir n) (insert (cmd_file dir n) (insert ?d p))"
    using assms(2) by (auto simp: add_daemon_files_def create_directory_def touch_def mkfifo_def Let_def insert_commute
        split: if_splits)
  have "paths' - {logs_file dir n} - {cmd_file dir n} - {err_file dir n} = insert ?d paths"
    using p new by (auto simp: logs_file_def cmd_file_def err_file_def)
  then have "remove_daemon_files dir n paths' = Inr paths"
    using assms(1) new(1) by (auto simp: remove_daemon_files_def fresh_session_def Let_def)
  moreover have "session_arg dir q (dec_of_nat n) = Inr (if cmd_file dir n \<in> q then Some n else None)" for q
    using assms(3) dec_of_nat_digits [of n] by (simp add: session_arg_def stoi_def num_of_dec)
  ultimately show ?thesis using p(2) new(3) by simp
qed

section \<open>The command line\<close>

text \<open>C38: valid_endpoint accepts exactly the strings that have a colon followed by one digit or more up
  to the end, and no line break before it; the part before the colon may be empty.
\<close>

theorem valid_endpoint_correct:
  "valid_endpoint ep \<longleftrightarrow> (\<exists>host port. ep = host @ CHR '':'' # port \<and> port \<noteq> [] \<and> list_all is_digit port \<and>
     newline \<notin> set host \<and> CHR 0x0D \<notin> set host)"
proof
  assume v: "valid_endpoint ep"
  let ?port = "takeWhile is_digit (rev ep)" and ?rest = "dropWhile is_digit (rev ep)"
  have r: "?port \<noteq> []" "?rest \<noteq> []" "hd ?rest = CHR '':''" "list_all (\<lambda>c. c \<noteq> newline \<and> c \<noteq> CHR 0x0D) (tl ?rest)"
    using v by (simp_all add: valid_endpoint_def Let_def)
  have "?rest = CHR '':'' # tl ?rest" using list.collapse [OF r(2)] unfolding r(3) by (rule sym)
  then have "rev ep = ?port @ CHR '':'' # tl ?rest"
    using takeWhile_dropWhile_id [of is_digit "rev ep"] by argo
  moreover have "list_all is_digit ?port" by (simp add: list_all_iff) (metis set_takeWhileD)
  ultimately obtain rp rh where split: "rev ep = rp @ CHR '':'' # rh" and rp: "rp \<noteq> []" "list_all is_digit rp"
    and rh: "list_all (\<lambda>c. c \<noteq> newline \<and> c \<noteq> CHR 0x0D) rh"
    using r(1,4) by blast
  have "ep = rev rh @ CHR '':'' # rev rp" using arg_cong [OF split, of rev] by simp
  moreover have "rev rp \<noteq> []" "list_all is_digit (rev rp)" using rp by (simp_all add: list_all_iff)
  moreover have "newline \<notin> set (rev rh)" "CHR 0x0D \<notin> set (rev rh)" using rh by (auto simp: list_all_iff)
  ultimately show "\<exists>host port. ep = host @ CHR '':'' # port \<and> port \<noteq> [] \<and> list_all is_digit port \<and>
     newline \<notin> set host \<and> CHR 0x0D \<notin> set host" by blast
next
  assume "\<exists>host port. ep = host @ CHR '':'' # port \<and> port \<noteq> [] \<and> list_all is_digit port \<and>
     newline \<notin> set host \<and> CHR 0x0D \<notin> set host"
  then obtain host port where ep: "ep = host @ CHR '':'' # port" "port \<noteq> []" "list_all is_digit port"
    "newline \<notin> set host" "CHR 0x0D \<notin> set host" by blast
  have colon: "\<not> is_digit (CHR '':'')" by (simp add: is_digit_def)
  have "takeWhile is_digit (rev ep) = rev port" "dropWhile is_digit (rev ep) = CHR '':'' # rev host"
    using ep(1,3) colon by (simp_all add: list_all_iff takeWhile_append dropWhile_append)
  with ep show "valid_endpoint ep" by (auto simp: valid_endpoint_def Let_def list_all_iff)
qed

text \<open>C37: A load with 256 arguments, or a multiple of it, is sent without an error but crashes the
  daemon: the count of the arguments wraps around to 0, and the daemon takes the last
  element of an empty vector.
\<close>

theorem load_count_wraps:
  assumes "pipes_work e sys" and "length as mod 256 = 0"
  shows "\<exists>p. send_cmd e LOAD (char_of (length as)) as = Inr (True, p) \<and>
    daemon_step h junk sys opened \<lparr>pending = written p, failing = f\<rparr> d = Some (Inl Out_Of_Bounds)"
proof -
  obtain p where p: "send_cmd e LOAD (char_of (length as)) as = Inr (True, p)"
    "written p = bytes_of_int (pid e) @ code_char LOAD # char_of (length as) # wire as"
    using assms(1) by (auto simp: pipes_work_def send_cmd_def write_cmd_takes_all)
  have "of_char (char_of (length as) :: char) = (0 :: nat)" using assms(2) by simp
  then have "read_cmd junk (vars d) \<lparr>pending = written p, failing = f\<rparr> =
      Some (True, \<lparr>client_id = pid e, cmd = code_char LOAD, argc = char_of (length as), args = []\<rparr>,
        \<lparr>pending = wire as, failing = f\<rparr>)"
    unfolding p(2) read_cmd_header by (simp add: read_args_done)
  with p(1) show ?thesis by (simp add: daemon_step_def Let_def)
qed

section \<open>The terminal\<close>

text \<open>A line of words, each followed by a space.\<close>

definition typed :: "string list \<Rightarrow> string" where
  "typed ws = concat (map (\<lambda>w. w @ '' '') ws)"

definition word :: "string \<Rightarrow> bool" where
  "word w \<longleftrightarrow> w \<noteq> [] \<and> list_all (\<lambda>c. \<not> is_space c) w"

lemma tokens_word: "list_all (\<lambda>c. \<not> is_space c) w \<Longrightarrow> tokens cur (w @ rest) = tokens (cur @ w) rest"
  by (induction w arbitrary: cur) auto

lemma tokens_typed: "list_all word ws \<Longrightarrow> tokens [] (typed ws) = ws"
proof (induction ws)
  case (Cons w ws)
  have space: "is_space (CHR '' '')" by (simp add: is_space_def)
  from Cons have "tokens [] (typed (w # ws)) = tokens w (CHR '' '' # typed ws)"
    using tokens_word [of w "[]" "'' '' @ typed ws"] by (simp add: typed_def word_def)
  with Cons space show ?case by (simp add: word_def)
qed (simp add: typed_def)

lemma blank_tokens: "list_all is_space line \<Longrightarrow> tokens [] line = []"
  by (induction line) auto

text \<open>The terminal loads as the daemon does: a line with the word load, the names of stored files
  and an output file writes their contents to that file, keeps the catalog, and prints so.\<close>

theorem interactive_load:
  assumes "represents h C N a (ctl k)" and "orders_threads h" and "writable h out"
    and "\<forall>n\<in>set names. content a n = Some (f n)" and "names \<noteq> []" and "list_all word (names @ [out])" and "nul \<notin> set out"
    and "in_lines k = typed (''load'' # names @ [out]) # rest"
  shows "\<exists>k'. interactive_step h k = Inr (False, k') \<and> in_lines k' = rest \<and> represents h C N a (ctl k') \<and>
    disk (ctl k') = (disk (ctl k))(out \<mapsto> concat (map f names)) \<and>
    out_lines k' = out_lines k @ [''Successfully loaded all files into output file '' @ out]"
proof -
  obtain c where c: "load_cmd h names out (clear_cmd (ctl k)) = Inr (True, c)" "represents h C N a c"
      "disk c = (disk (ctl k))(out \<mapsto> concat (map f names))" "cmd_err c = []"
      "cmd_out c = ''Successfully loaded all files into output file '' @ out"
    using load_cmd_catalog [of h C N a "clear_cmd (ctl k)" out names f] assms(1-4) by auto
  have "word ''load''" by (simp add: word_def is_space_def)
  then have "tokens [] (typed (''load'' # names @ [out])) = ''load'' # names @ [out]"
    using assms(6) by (intro tokens_typed) simp
  moreover have "print_result False [] (cmd_out c) = [cmd_out c]"
    using c(5) c_str_no_nul [of "cmd_out c"] assms(7) by (simp add: print_result_def)
  ultimately show ?thesis
    using assms(5,8) c by (simp add: interactive_step_def get_line_def Let_def report_def print_lines_def)
qed

text \<open>The terminal's loop does not notice the end of its input: once there are only blank lines
  left, or none, it goes on forever, whatever the number of iterations.\<close>

theorem interactive_never_ends:
  assumes "list_all (list_all is_space) (in_lines k)"
  shows "interactive_loop n h k = Inl Diverges"
  using assms
proof (induction n arbitrary: k)
  case (Suc n)
  let ?k = "k\<lparr>ctl := clear_cmd (ctl k)\<rparr>"
  obtain line k' where get: "get_line ?k = (line, k')" by fastforce
  then have "list_all is_space line" "list_all (list_all is_space) (in_lines k')"
    using Suc.prems by (auto simp: get_line_def split: list.splits)
  then show ?case using get Suc.IH by (simp add: interactive_step_def blank_tokens)
qed simp

section \<open>Examples\<close>

text \<open>Nobody is dead, so the thread starts a relief at once; with dead peers it does nothing.\<close>

definition strained :: "nat \<Rightarrow> unit control" where
  "strained n = (sample_control no_files)\<lparr>thresh := 15, sessions := map (\<lambda>s. s\<lparr>dead_peers := of_nat n\<rparr>) (sample_cluster no_files)\<rparr>"

theorem strain_reliever_inverted_witness:
  "strain_step sample_host (strained 10) = Inr (Waits, strained 10) \<and>
     (case strain_step sample_host (strained 0) of Inr (Waits, _) \<Rightarrow> False | _ \<Rightarrow> True)"
proof -
  have total: "dead_peers_total (strained n) = of_nat n + of_nat n" "\<not> exiting (strained n)" "thresh (strained n) = 15" for n
    by (simp_all add: dead_peers_total_def strained_def sample_control_def sample_cluster_def)
  from strain_reliever_inverted [OF total(2) [of 0], of sample_host] strain_reliever_inverted [OF total(2) [of 10], of sample_host]
  show ?thesis
    by (auto simp: total strain_step_def split: sum.splits strain_event.splits)
qed

theorem client_failures_crash_witness:
  "handle_list (sample_client\<lparr>cmd_opened := False\<rparr>) = Some (Inl Null_Pointer)"
proof -
  have "setup_client (\<lambda>_. True) ''/root'' {} = Inr (True, loggers (sample_client\<lparr>cmd_opened := False\<rparr>),
      {''/root/.distft'', ''/root/.distft/daemons'', ''/root/.distft/client_logs''})"
    by (auto simp: setup_client_def make_if_missing_def create_directory_def touch_def sample_client_def)
  from client_failures_crash [OF this insertI1] show ?thesis by simp
qed

theorem session_ids_accepted_witness:
  "session_arg ''d'' {cmd_file ''d'' 4711} (dec_of_nat 4711) = Inr (Some 4711)"
  using session_ids_accepted [of 4711 "''d''" "{cmd_file ''d'' 4711}"] by simp

lemma sample_daemon_files:
  obtains paths where "fresh_session ''d'' 4711 {''d/daemons''}"
    and "add_daemon_files (\<lambda>_. True) ''d'' 4711 {''d/daemons''} = Inr (True, paths)"
proof -
  have ne: "session_dir ''d'' 4711 \<noteq> ''d/daemons''" by (simp add: session_dir_def)
  then have "fresh_session ''d'' 4711 {''d/daemons''}" by (simp add: fresh_session_def session_dir_def)
  with ne that show ?thesis
    by (auto simp: add_daemon_files_def create_directory_def touch_def mkfifo_def Let_def logs_file_def cmd_file_def
        err_file_def session_dir_def)
qed

lemma daemon_files_roundtrip_witness:
  "\<exists>paths. add_daemon_files (\<lambda>_. True) ''d'' 4711 {''d/daemons''} = Inr (True, paths) \<and>
     remove_daemon_files ''d'' 4711 paths = Inr {''d/daemons''}"
proof -
  obtain paths where fresh: "fresh_session ''d'' 4711 {''d/daemons''}"
      and add: "add_daemon_files (\<lambda>_. True) ''d'' 4711 {''d/daemons''} = Inr (True, paths)"
    by (rule sample_daemon_files)
  with daemon_files_roundtrip [OF fresh add] show ?thesis by simp
qed

theorem load_count_wraps_witness:
  "\<exists>p. send_cmd sample_client LOAD (char_of (256 :: nat)) (replicate 256 ''ab'') = Inr (True, p) \<and>
     daemon_step sample_host nul (\<lambda>i. Some) True \<lparr>pending = written p, failing = False\<rparr> (sample_daemon one_file) =
       Some (Inl Out_Of_Bounds)"
proof -
  have "length (replicate 256 ''ab'') mod 256 = 0" by (simp only: length_replicate mod_self)
  from load_count_wraps [OF sample_pipes this, of sample_host nul True False "sample_daemon one_file"] show ?thesis
    unfolding length_replicate .
qed

definition sample_console :: "unit console" where
  "sample_console =
     \<lparr>ctl = sample_control one_file, in_lines = [typed [''load'', ''ab'', ''ab'', ''out''], ''  ''], out_lines = [], success = False\<rparr>"

theorem interactive_load_witness:
  "\<exists>k. interactive_step sample_host sample_console = Inr (False, k) \<and> disk (ctl k) ''out'' = Some ''heyhey''"
proof -
  have rep: "represents sample_host {''hey''} {''ab'', ''index''} \<lparr>listed = [''ab''], content = [''ab'' \<mapsto> ''hey'']\<rparr>
      (ctl sample_console)"
    using sample_represents(2) by (simp add: sample_console_def)
  from interactive_load [OF rep sample_threads, of "''out''" "[''ab'', ''ab'']" "\<lambda>_. ''hey''" "[''  '']"] show ?thesis
    by (auto simp: sample_console_def word_def is_space_def)
qed

theorem interactive_never_ends_witness:
  "interactive_loop 1000 sample_host (sample_console\<lparr>in_lines := ['' '', []]\<rparr>) = Inl Diverges"
  by (rule interactive_never_ends) (simp add: is_space_def)

end
