(* ===== verification/Lifecycle.thy ===== *)
theory Lifecycle
  imports Conversation Client_Properties
begin

text \<open>
  A session from \<open>start\<close> to \<open>exit\<close>: the client that starts the daemon, the conversation with
  it, and the client that ends it.
\<close>

section \<open>The end of the sessions\<close>

definition ended_session :: "'v session \<Rightarrow> bool" where
  "ended_session n \<longleftrightarrow> dying n \<and> chunks n = [] \<and> \<not> chunks_locked n"

lemma teardown_node:
  assumes "i < length ns" and "\<not> chunks_locked (ns ! i)"
  shows "\<exists>x n. on_node i (teardown E False) ns = Inr (x, ns[i := n]) \<and> ended_session n"
proof -
  let ?n = "(ns ! i)\<lparr>dying := True, chunks := [], chunks_locked := False\<rparr>"
  have "on_node i (teardown E False) ns = Inr (map fst (chunks (ns ! i)), ns[i := ?n])"
    using assms by (cases "ns ! i") (simp add: on_node_def enter_def leave_def teardown_def lock_chunks_def unlock_chunks_def Let_def)
  then show ?thesis by (auto simp: ended_session_def intro!: exI [of _ ?n])
qed

lemma teardown_all_ends:
  "set is \<subseteq> {..<length ns} \<Longrightarrow> \<forall>n\<in>set ns. \<not> chunks_locked n \<Longrightarrow>
   \<exists>ns'. teardown_all h is ns = Inr ns' \<and> length ns' = length ns \<and>
     (\<forall>j<length ns. if j \<in> set is then ended_session (ns' ! j) else ns' ! j = ns ! j)"
proof (induction "is" arbitrary: ns)
  case (Cons i js)
  obtain x n where n: "on_node i (teardown (cluster_env (net h)) False) ns = Inr (x, ns[i := n])" "ended_session n"
    using teardown_node [of i ns] Cons.prems by fastforce
  have "\<forall>n\<in>set (ns[i := n]). \<not> chunks_locked n"
    using Cons.prems(2) n(2) set_update_subset_insert [of ns i n] by (auto simp: ended_session_def)
  from Cons.IH [OF _ this] Cons.prems(1) obtain ns' where "teardown_all h js (ns[i := n]) = Inr ns'" "length ns' = length ns"
      "\<forall>j<length ns. if j \<in> set js then ended_session (ns' ! j) else ns' ! j = ns[i := n] ! j"
    by auto
  with n Cons.prems(1) show ?case by (cases "i \<in> set js") (auto simp: nth_list_update)
qed simp

lemma exit_cmd_ends:
  assumes "represents h C N a c" and "orders_threads h"
  shows "\<exists>c'. exit_cmd h c = Inr ((), c') \<and> (\<forall>n\<in>set (sessions c'). ended_session n)"
proof -
  obtain M m where k: "cluster_keeps M m (sessions c)" using assms(1) by (auto simp: represents_def)
  have free: "\<forall>n\<in>set (sessions c). \<not> chunks_locked n"
    using k by (auto simp: cluster_keeps_def in_set_conv_nth knows_defs)
  have "set (sched h (length (sessions c))) = {..<length (sessions c)}"
    using assms(2) mset_eq_setD [of "sched h (length (sessions c))" "[0..<length (sessions c)]"]
    by (auto simp: orders_threads_def)
  with teardown_all_ends [OF _ free, of "sched h (length (sessions c))" h]
  obtain ns where "teardown_all h (sched h (length (sessions c))) (sessions c) = Inr ns"
      "length ns = length (sessions c)" "\<forall>j<length (sessions c). ended_session (ns ! j)" by auto
  then show ?thesis by (auto simp: exit_cmd_def Let_def in_set_conv_nth)
qed

lemma daemon_exits:
  assumes "represents h C N a (ctrl d)" and "orders_threads h" and "pipes_work e sys"
  shows "\<exists>p d'. send_cmd e EXIT nul [] = Inr (True, p) \<and>
    daemon_step h junk sys True \<lparr>pending = written p, failing = False\<rparr> d = Some (Inr (Exits, d')) \<and>
    (\<forall>n\<in>set (sessions (ctrl d')). ended_session n)"
proof -
  obtain c where c: "exit_cmd h (clear_cmd (ctrl d)) = Inr ((), c)" "\<forall>n\<in>set (sessions c). ended_session n"
    using exit_cmd_ends [of h C N a "clear_cmd (ctrl d)"] assms(1,2) by auto
  have "char_of (length ([] :: string list)) = nul" by (simp add: char_of_def)
  with request_received [OF assms(3), of "[]" EXIT junk "vars d" False] c show ?thesis
    by (auto simp: sendable_def daemon_step_def Let_def)
qed

section \<open>From start to exit\<close>

abbreviation empty_catalog :: catalog where
  "empty_catalog \<equiv> \<lparr>listed = [], content = \<lambda>_. None\<rparr>"

lemma daemon_starts:
  assumes "sessions c = []" and "cmd_err c = []" and "e0 \<noteq> e1" and "fresh_draws h" and "0 < patience h"
    and "orders_threads h" and "\<And>w j. clock_at (net h) w j \<le> clock_at (net h) w (Suc j)"
    and "digest_ok (sha1 h) C N" and "takes_all sys"
  shows "\<exists>out c'. daemon_start h sys True w [e0, e1] c = Inr (True, out, c') \<and>
    represents h C N empty_catalog c' \<and> disk c' = disk c \<and>
    receive_result (e\<lparr>answer_pipe := \<lambda>_. \<lparr>pending = written out, failing = False\<rparr>\<rparr>) [] =
      Some (Inr (SUCCESS, [''Initialized sessions and index file for new cluster.'']))"
proof -
  obtain b where b: "bootstrap_cmd h w [e0, e1] c = Inr (True, b)" "represents h C N empty_catalog b" "disk b = disk c"
      "cmd_err b = []" "cmd_out b = ''Initialized sessions and index file for new cluster.''"
    using bootstrap_pair [OF assms(1,3-8)] assms(2) by auto
  have "nul \<notin> set (cmd_out b)" unfolding b(5) by simp
  obtain out where out: "write_err sys True (bool_char False) (cmd_err b) (cmd_out b) = (True, out)"
      "\<And>e sent. answer_pipe e sent = \<lparr>pending = written out, failing = False\<rparr> \<Longrightarrow>
         receive_result e sent = Some (Inr (SUCCESS, print_result False (cmd_err b) (cmd_out b)))"
    using answer_received [OF assms(9) _ \<open>nul \<notin> set (cmd_out b)\<close>, of "[]" False] unfolding b(4)
    by (metis empty_iff list.set(1) prod.inject)
  have "print_result False (cmd_err b) (cmd_out b) = [cmd_out b]"
    using c_str_no_nul [OF \<open>nul \<notin> set (cmd_out b)\<close>] by (simp add: print_result_def b(4,5))
  then have "receive_result (e\<lparr>answer_pipe := \<lambda>_. \<lparr>pending = written out, failing = False\<rparr>\<rparr>) [] =
      Some (Inr (SUCCESS, [cmd_out b]))"
    using out(2) by simp
  moreover have "represents h C N empty_catalog (b\<lparr>thresh := 15, threads := Suc (threads b)\<rparr>)"
    using b(2) by (simp add: represents_def)
  ultimately show ?thesis
    using b out(1) by (simp add: daemon_start_def start_background_strain_reliever_cmd_def)
qed


section \<open>Example\<close>

text \<open>A file is stored, listed after strain relief, and loaded.\<close>

definition sample_turns :: "turn list" where
  "sample_turns = [Asks sample_client (Ask_Store [''dir/ab'']), Relieves, Asks sample_client Ask_List,
     Asks sample_client (Ask_Load [''ab''] ''out'')]"

lemma sample_turns_ok:
  assumes "D = [''dir/ab'' \<mapsto> ''hey'']"
  shows "turns_ok sample_host {''hey''} {''ab'', ''index''} (\<lambda>i. Some) sample_turns empty_catalog D"
    and "catalog_conversation sample_turns empty_catalog D =
      ([(SUCCESS, [lines_of [''Successfully stored the following files'', ''ab'']]),
        (SUCCESS, [lines_of [''INDEX'', ''ab'']]),
        (SUCCESS, [''Successfully loaded all files into output file out''])],
       \<lparr>listed = [''ab''], content = [''ab'' \<mapsto> ''hey'']\<rparr>, [''dir/ab'' \<mapsto> ''hey'', ''out'' \<mapsto> ''hey''])"
  by (simp_all add: assms sample_turns_def file_name_def storable_def hey_chunks sendable_def index_text_def)


end
