(* ===== verification/Session_Life.thy ===== *)
theory Session_Life
  imports Session_Properties
begin

text \<open>
  A session as a state machine: its steps are the calls of its client, the requests of other
  nodes and the iterations of its threads, in any order, while the rest of the network does
  what it likes. The invariant is what every sequence of steps keeps.
\<close>

section \<open>Steps\<close>

inductive session_step :: "'w env \<Rightarrow> 'w session \<Rightarrow> 'w session \<Rightarrow> bool" for E where
  set_call: "session_set E k d force s = Inr (x, t) \<Longrightarrow> session_step E s t"
| get_call: "session_get E k s = Inr (found, t) \<Longrightarrow> session_step E s t"
| find_node_request: "handle_find_node E r1 s = Inr (a1, t) \<Longrightarrow> session_step E s t"
| find_value_request: "handle_find_value E r2 s = Inr (a2, t) \<Longrightarrow> session_step E s t"
| store_init_request: "handle_store_init E r3 s = Inr (a3, t) \<Longrightarrow> session_step E s t"
| store_request: "handle_store E r4 s = Inr (a4, t) \<Longrightarrow> session_step E s t"
| ping_request: "handle_ping E r5 s = Inr (a5, t) \<Longrightarrow> session_step E s t"
| republish_iteration: "republish_step E s = Inr (b, t) \<Longrightarrow> session_step E s t"
| cleanup_iteration: "cleanup_step E s = Inr (b, t) \<Longrightarrow> session_step E s t"
| refresh_iteration: "refresh_step E s = Inr (b, t) \<Longrightarrow> session_step E s t"
| elsewhere: "session_step E s (s\<lparr>world := w\<rparr>)"

section \<open>The invariant\<close>

text \<open>Every chunk is filed once, under its own key.\<close>

definition filed :: "(key \<times> chunk) list \<Rightarrow> bool" where
  "filed cs \<longleftrightarrow> distinct (map fst cs) \<and> (\<forall>(k, c)\<in>set cs. chunk_key c = k)"

lemma filed_update: "filed cs \<Longrightarrow> chunk_key c = k \<Longrightarrow> filed (AList.update k c cs)"
proof -
  assume f: "filed cs" and k: "chunk_key c = k"
  have "(j, e) = (k, c) \<or> (j, e) \<in> set cs" if "(j, e) \<in> set (AList.update k c cs)" for j e
    using that by (induction cs) (auto split: if_splits)
  with f k show ?thesis by (fastforce simp: filed_def intro: distinct_update)
qed

lemma filed_delete: "filed cs \<Longrightarrow> filed (AList.delete k cs)"
  by (auto simp: filed_def AList.delete_eq distinct_map_filter)

lemma filed_deletes: "filed cs \<Longrightarrow> filed (fold AList.delete ks cs)"
  by (induction ks arbitrary: cs) (simp_all add: filed_delete)

definition session_inv :: "peer \<Rightarrow> 'w session \<Rightarrow> bool" where
  "session_inv me s \<longleftrightarrow> session_ok s \<and> chunks_free s \<and> self_peer (router_of s) = me \<and> filed (chunks s)"

lemma session_inv_keeps: "session_inv me s \<Longrightarrow> keeps s t \<Longrightarrow> session_inv me t"
  by (simp add: session_inv_def keeps_def)

lemma publish_step:
  assumes "session_inv me s" and "publish E c force s = Inr (x, t)"
  shows "session_inv me t"
proof -
  have ok: "session_ok s" and f: "filed (chunks s)" using assms(1) by (simp_all add: session_inv_def)
  obtain u where u: "publish_rpcs E c force s = Inr ((), u)"
    and t: "and_then (lock_chunks u) (\<lambda>(_, s).
      Inr ((), unlock_chunks (s\<lparr>chunks := AList.update (chunk_key c) c (chunks s)\<rparr>))) = Inr (x, t)"
    using assms(2) unfolding publish_eq [OF ok] by auto
  have k: "keeps s u" by (rule safe_fromD [OF publish_rpcs_safe [OF ok] u])
  with t have "chunks t = AList.update (chunk_key c) c (chunks s)"
    by (auto simp: lock_chunks_def unlock_chunks_def keeps_def split: if_splits)
  with filed_update [OF f] publish_local [OF ok assms(2)] assms(1) show ?thesis by (simp add: session_inv_def)
qed

lemma publish_locked:
  assumes "session_ok s" and "chunks_locked s"
  shows "publish E c force s \<noteq> Inr y"
proof
  assume "publish E c force s = Inr y"
  then obtain u where u: "publish_rpcs E c force s = Inr ((), u)" and l: "lock_chunks u \<noteq> Inl Deadlock"
    unfolding publish_eq [OF assms(1)] by auto
  have "keeps s u" by (rule safe_fromD [OF publish_rpcs_safe [OF assms(1)] u])
  with l assms(2) show False by (simp add: lock_chunks_def keeps_def)
qed

lemma republish_idle:
  assumes "session_ok s" and "chunks_free s" and "republish_step E s = Inr (b, t)"
  shows "t = s"
proof (cases "due_keys (clock_at E (world s)) (chunks s)")
  case Nil
  with assms(2,3) show ?thesis
    by (cases s) (auto simp: republish_step_def lock_chunks_def unlock_chunks_def split: if_splits)
next
  case (Cons k ks)
  have "publish E c False (s\<lparr>chunks_locked := True, chunks := cs\<rparr>) \<noteq> Inr y" for c cs y
    using assms(1) by (intro publish_locked) (simp_all add: session_ok_def)
  with Cons assms(2,3) show ?thesis
    by (auto simp: republish_step_def lock_chunks_free split: if_splits option.splits)
qed

lemma refresh_keeps:
  assumes "session_ok s" and "refresh_step E s = Inr (b, t)"
  shows "keeps s t"
proof (cases "dying s")
  case True
  with assms show ?thesis by (simp add: refresh_step_def keeps_refl)
next
  case False
  with assms obtain ps r where r: "random_per_bucket_peers (clock_at E (world s)) (rand_at E (world s)) 3600 (router_of s) = Inr (ps, r)"
    and t: "lookup_each E ps (s\<lparr>router_of := r\<rparr>) = Inr ((), t)"
    by (auto simp: refresh_step_def lock_router_free unlock_after_update)
  have "wf_router (router_of s)" using assms(1) by (simp add: session_ok_def)
  from random_per_bucket_outcome [OF this, of "clock_at E (world s)" "rand_at E (world s)" 3600] r
  have k: "keeps s (s\<lparr>router_of := r\<rparr>)" using assms(1) by (intro keeps_router keeps_refl) simp_all
  from keeps_trans [OF k safe_fromD [OF lookup_each_errors [OF keeps_ok [OF k]] t]] show ?thesis .
qed

lemma get_keeps:
  assumes "session_ok s" and "session_get E k s = Inr (d, t)"
  shows "keeps s t"
proof -
  have free: "chunks_free s" using assms(2) by (auto simp: session_get_def lock_chunks_def split: if_splits)
  show ?thesis
  proof (cases "map_of (chunks s) k")
    case (Some c)
    with assms free show ?thesis by (auto simp: session_get_def lock_chunks_free unlock_chunks_after keeps_refl)
  next
    case None
    with assms(2) free obtain y where "lookup_helper E Value_Query k [] s = Inr (y, t)"
      by (auto simp: session_get_def lock_chunks_free unlock_chunks_after value_lookup_def)
    then show ?thesis by (rule safe_fromD [OF lookup_helper_errors [OF assms(1)]])
  qed
qed

lemma handlers_keep:
  assumes "session_ok s" and "chunks_free s"
  shows "handle_find_node E r1 s = Inr (a1, t) \<Longrightarrow> keeps s t"
    and "handle_find_value E r2 s = Inr (a2, t) \<Longrightarrow> keeps s t"
    and "handle_store_init E r3 s = Inr (a3, t) \<Longrightarrow> keeps s t"
    and "handle_ping E r5 s = Inr (a5, t) \<Longrightarrow> keeps s t"
proof -
  assume "handle_find_node E r1 s = Inr (a1, t)"
  then show "keeps s t"
    by (rule handle_find_node_runs [OF assms(1)]) (blast intro: keeps_trans answer_closest_keeps(1) keeps_ok)
next
  assume "handle_find_value E r2 s = Inr (a2, t)"
  then show "keeps s t"
    by (rule handle_find_value_runs [OF assms]) (blast intro: keeps_trans)+
next
  assume "handle_store_init E r3 s = Inr (a3, t)"
  then show "keeps s t"
    unfolding handle_store_init_eq [OF assms] by (auto dest: handler_prelims_result(1) [OF assms(1)])
next
  assume "handle_ping E r5 s = Inr (a5, t)"
  then show "keeps s t"
    unfolding handle_ping_def by (auto dest: handler_prelims_result(1) [OF assms(1)])
qed

lemma store_request_step:
  assumes "session_inv me s" and "handle_store E rq s = Inr (a, t)"
  shows "session_inv me t"
proof -
  have ok: "session_ok s" "chunks_free s" using assms(1) by (simp_all add: session_inv_def)
  obtain k u data where u: "keeps s u" "t = u\<lparr>chunks := AList.update k (stored_chunk E rq k data u) (chunks u)\<rparr>"
      "session_ok t" "chunks_free t"
    by (rule handle_store_runs [OF ok assms(2)])
  have "filed (chunks u)" "self_peer (router_of u) = me" using assms(1) u(1) by (simp_all add: session_inv_def keeps_def)
  with u(2-4) filed_update [of "chunks u" "stored_chunk E rq k data u" k] show ?thesis
    by (simp add: session_inv_def stored_chunk_def new_chunk_def)
qed

lemma session_step_inv:
  assumes "session_step E s t" and inv: "session_inv me s"
  shows "session_inv me t"
proof -
  have ok: "session_ok s" and free: "chunks_free s" using inv by (simp_all add: session_inv_def)
  note keeps = session_inv_keeps [OF inv]
  from assms(1) show ?thesis
  proof cases
    case (set_call k d force x)
    then show ?thesis using publish_step [OF inv] unfolding session_set_def by blast
  next
    case (get_call k found)
    then show ?thesis by (rule keeps [OF get_keeps [OF ok]])
  next
    case (find_node_request r1 a1)
    then show ?thesis by (rule keeps [OF handlers_keep(1) [OF ok free]])
  next
    case (find_value_request r2 a2)
    then show ?thesis by (rule keeps [OF handlers_keep(2) [OF ok free]])
  next
    case (store_init_request r3 a3)
    then show ?thesis by (rule keeps [OF handlers_keep(3) [OF ok free]])
  next
    case (store_request r4 a4)
    then show ?thesis by (rule store_request_step [OF inv])
  next
    case (ping_request r5 a5)
    then show ?thesis by (rule keeps [OF handlers_keep(4) [OF ok free]])
  next
    case (republish_iteration b)
    then have "t = s" by (rule republish_idle [OF ok free])
    with inv show ?thesis by simp
  next
    case (cleanup_iteration b)
    then show ?thesis
      using inv filed_deletes by (auto simp: cleanup_step_def session_inv_def lock_chunks_def unlock_chunks_def session_ok_def
          split: if_splits)
  next
    case (refresh_iteration b)
    then show ?thesis by (rule keeps [OF refresh_keeps [OF ok]])
  next
    case (elsewhere w)
    then show ?thesis using inv by (simp add: session_inv_def session_ok_def)
  qed
qed

text \<open>Whatever its client, the other nodes and its threads do, in any order and whatever the
  network answers, a session stays well-formed: its routing table keeps the invariant and
  never holds the node itself, no mutex stays locked, its key and endpoint do not change, and
  every chunk is filed once and under its own key.\<close>

theorem session_well_formed:
  assumes "session_inv me s" and "(session_step E)\<^sup>*\<^sup>* s t"
  shows "session_inv me t"
  using assms(2,1) by (induction rule: rtranclp_induct) (auto intro: session_step_inv)

lemma stocked_session_inv: "session_inv sample_self (stocked_session 0)"
proof -
  have "self_peer full_router = sample_self" by (simp only: full_router_def router.simps)
  then have "self_peer (router_of (stocked_session 0)) = sample_self"
    by (simp add: stocked_session_def sample_session_def)
  then show ?thesis by (simp add: session_inv_def filed_def new_chunk_def)
qed

text \<open>An iteration of the cleanup thread.\<close>

theorem session_well_formed_witness:
  "\<exists>t. session_step silent_env (stocked_session 0) t \<and> session_inv sample_self t"
proof -
  obtain t where "cleanup_step silent_env (stocked_session 0) = Inr (True, t)"
    by (simp add: cleanup_step_def lock_chunks_free)
  then have step: "session_step silent_env (stocked_session 0) t" by (rule cleanup_iteration)
  from session_well_formed [OF stocked_session_inv r_into_rtranclp [of "session_step silent_env", OF step]] step show ?thesis by blast
qed

end
