(* ===== verification/Threads.thy ===== *)
theory Threads
  imports Session_Life
begin

text \<open>
  The code of one thread as a tree of atomic actions, so that threads can be interleaved.
  \<open>run\<close> executes a tree without interruption; \<open>wp\<close> is the weakest-precondition calculus of
  trees whose actions are interleaved with those of other threads.
\<close>

section \<open>Programs\<close>

text \<open>
  The two mutexes of a session. The third one of the code, \<open>meta_lock\<close>, guards a single
  increment and is part of that action.
\<close>

datatype mutex = Router_Lock | Chunks_Lock

text \<open>What an action reads or writes: the routing table, the map of chunks, or neither.\<close>

datatype data = Router_Data | Chunk_Data | Other_Data

text \<open>
  \<open>Act d u k\<close> changes the session by \<open>u\<close> and goes on as \<open>k\<close> says for the session it found.
  \<open>Lock\<close> waits until the mutex is free. \<open>Throw\<close> ends the thread with an exception.
\<close>

datatype ('w, 'a) prog =
    Return 'a
  | Throw cpp_error
  | Act data "'w session \<Rightarrow> 'w session" "'w session \<Rightarrow> ('w, 'a) prog"
  | Lock mutex "('w, 'a) prog"
  | Unlock mutex "('w, 'a) prog"

primrec bind :: "('w, 'a) prog \<Rightarrow> ('a \<Rightarrow> ('w, 'b) prog) \<Rightarrow> ('w, 'b) prog" where
  "bind (Return x) f = f x"
| "bind (Throw e) f = Throw e"
| "bind (Act d u k) f = Act d u (\<lambda>s. bind (k s) f)"
| "bind (Lock m p) f = Lock m (bind p f)"
| "bind (Unlock m p) f = Unlock m (bind p f)"

lemma prog_bind_assoc: "bind (bind p f) g = bind p (\<lambda>x. bind (f x) g)"
  by (induction p) simp_all

definition access :: "data \<Rightarrow> ('w session \<Rightarrow> 'a \<times> 'w session) \<Rightarrow> ('w, 'a) prog" where
  "access d g = Act d (\<lambda>s. snd (g s)) (\<lambda>s. Return (fst (g s)))"

primrec lift :: "cpp_error + 'a \<Rightarrow> ('w, 'a) prog" where
  "lift (Inl e) = Throw e"
| "lift (Inr x) = Return x"

text \<open>An action between locking and unlocking a mutex.\<close>

definition guarded :: "mutex \<Rightarrow> ('w, 'a) prog \<Rightarrow> ('w, 'a) prog" where
  "guarded m p = Lock m (bind p (\<lambda>x. Unlock m (Return x)))"

section \<open>Execution without interruption\<close>

primrec locked :: "mutex \<Rightarrow> 'w session \<Rightarrow> bool" where
  "locked Router_Lock s = router_locked s"
| "locked Chunks_Lock s = chunks_locked s"

primrec set_lock :: "mutex \<Rightarrow> bool \<Rightarrow> 'w session \<Rightarrow> 'w session" where
  "set_lock Router_Lock b s = s\<lparr>router_locked := b\<rparr>"
| "set_lock Chunks_Lock b s = s\<lparr>chunks_locked := b\<rparr>"

primrec run :: "('w, 'a) prog \<Rightarrow> 'w session \<Rightarrow> ('w, 'a) outcome" where
  "run (Return x) s = Inr (x, s)"
| "run (Throw e) s = Inl e"
| "run (Act d u k) s = run (k s) (u s)"
| "run (Lock m p) s = (if locked m s then Inl Deadlock else run p (set_lock m True s))"
| "run (Unlock m p) s = run p (set_lock m False s)"

lemma run_bind [simp]: "run (bind p f) s = and_then (run p s) (\<lambda>(x, t). run (f x) t)"
  by (induction p arbitrary: s) auto

lemma run_access [simp]: "run (access d g) s = Inr (g s)"
  by (simp add: access_def)

lemma run_lift [simp]: "run (lift r) s = and_then r (\<lambda>x. Inr (x, s))"
  by (cases r) simp_all

section \<open>Programs among other threads\<close>

text \<open>What holds whenever no thread is inside an action: the router and the chunks are well formed.\<close>

definition data_ok :: "peer \<Rightarrow> 'w session \<Rightarrow> bool" where
  "data_ok me s \<longleftrightarrow> wf_router (router_of s) \<and> self_peer (router_of s) = me \<and> filed (chunks s)"

text \<open>An action only writes the data it declares.\<close>

definition writes_only :: "data \<Rightarrow> 'w session \<Rightarrow> 'w session \<Rightarrow> bool" where
  "writes_only d s t \<longleftrightarrow>
     (\<forall>m. locked m t = locked m s) \<and> dying t = dying s \<and>
     (d \<noteq> Router_Data \<longrightarrow> router_of t = router_of s) \<and>
     (d \<noteq> Chunk_Data \<longrightarrow> chunks t = chunks s)"

text \<open>
  What only some threads may do: throw while they hold a mutex, lock a mutex they hold, unlock
  the mutex of the chunks.
\<close>

datatype permit = Throws_Locked | Locks_Twice | Releases_Chunks

definition thread_errors :: "cpp_error set" where
  "thread_errors = {Invalid_Argument, Out_Of_Bounds, Out_Of_Range, Diverges}"

text \<open>
  \<open>wp me F P p H\<close>: a thread that holds the mutexes \<open>H\<close> and runs \<open>p\<close>, while other threads do
  anything that keeps \<open>data_ok\<close>, keeps \<open>data_ok\<close> itself, uses the chunks only under their
  mutex, locks a second mutex only if it is the router's, unlocks what it holds, and
  returns only values and held mutexes that satisfy \<open>P\<close>.
\<close>

primrec wp :: "peer \<Rightarrow> permit set \<Rightarrow> ('a \<Rightarrow> mutex set \<Rightarrow> bool) \<Rightarrow> ('w, 'a) prog \<Rightarrow> mutex set \<Rightarrow> bool" where
  "wp me F P (Return x) = (\<lambda>H. P x H)"
| "wp me F P (Throw e) = (\<lambda>H. Throws_Locked \<in> F \<or> e \<in> thread_errors \<and> H = {})"
| "wp me F P (Act d u k) = (\<lambda>H. (d = Chunk_Data \<longrightarrow> Chunks_Lock \<in> H) \<and>
     (\<forall>s. data_ok me s \<longrightarrow> data_ok me (u s) \<and> writes_only d s (u s) \<and> wp me F P (k s) H))"
| "wp me F P (Lock m p) = (\<lambda>H. if m \<in> H then Locks_Twice \<in> F
     else (m = Chunks_Lock \<longrightarrow> H = {}) \<and> wp me F P p (insert m H))"
| "wp me F P (Unlock m p) = (\<lambda>H. m \<in> H \<and> (m = Chunks_Lock \<longrightarrow> Releases_Chunks \<in> F) \<and>
     wp me F P p (H - {m}))"

lemma wp_bind: "wp me F P (bind p f) H = wp me F (\<lambda>x. wp me F P (f x)) p H"
  by (induction p arbitrary: H) auto

lemma wp_mono: "wp me F P p H \<Longrightarrow> (\<And>x H. P x H \<Longrightarrow> Q x H) \<Longrightarrow> F \<subseteq> G \<Longrightarrow> wp me G Q p H"
  by (induction p arbitrary: H) (auto split: if_splits)

text \<open>The usual specification: the thread ends with the mutexes it began with.\<close>

abbreviation ends :: "mutex set \<Rightarrow> 'a \<Rightarrow> mutex set \<Rightarrow> bool" where
  "ends H \<equiv> \<lambda>_ H'. H' = H"

named_theorems wp_intros

lemma wp_seq:
  assumes "wp me F Q p H" and "\<And>x H'. Q x H' \<Longrightarrow> wp me F P (f x) H'"
  shows "wp me F P (bind p f) H"
  unfolding wp_bind by (rule wp_mono [OF assms(1)]) (auto intro: assms(2))

lemma wp_then [wp_intros]:
  assumes "wp me F (ends H) p H" and "\<And>x. wp me F P (f x) H"
  shows "wp me F P (bind p f) H"
  by (rule wp_seq [OF assms(1)]) (use assms(2) in simp)

lemma wp_lift:
  assumes "\<And>e. r = Inl e \<Longrightarrow> e \<in> thread_errors" and "H = {} \<or> Throws_Locked \<in> F"
    and "\<And>x. r = Inr x \<Longrightarrow> P x H"
  shows "wp me F P (lift r) H"
  using assms by (cases r) auto

end
