(* ===== verification/Programs.thy ===== *)
theory Programs
  imports Threads
begin

text \<open>
  The operations of a session as programs of a thread: the same code as in \<open>Rpc\<close>, \<open>Lookup\<close>
  and \<open>Session\<close>, cut where another thread can come in between. A remote call is one action;
  a caller that gets no answer evicts the peer without locking the router, as in the code.
  The first argument \<open>n\<close> of a program is the number of rounds of \<open>update_peer\<close> before the
  model gives up: alone two are enough, but another thread may fill the kbucket again.
\<close>

section \<open>Callers\<close>

definition rpc_call :: "('w session \<Rightarrow> 'w \<Rightarrow> 'a \<times> 'w) \<Rightarrow> ('w, 'a) prog" where
  "rpc_call f = access Other_Data (\<lambda>s. let (reply, w) = f s (world s) in (reply, s\<lparr>world := w\<rparr>))"

definition evict_now :: "key \<Rightarrow> ('w, unit) prog" where
  "evict_now k = access Router_Data (\<lambda>s. ((), s\<lparr>router_of := evict_peer k (router_of s)\<rparr>))"

definition insert_now :: "'w env \<Rightarrow> key \<Rightarrow> string \<Rightarrow> ('w, bool \<times> peer option) prog" where
  "insert_now E k ep = access Router_Data (\<lambda>s.
     let (res, r) = attempt_insert_peer (now_at E (world s)) k ep (router_of s)
     in (res, s\<lparr>router_of := r\<rparr>))"

definition closest_now :: "'w env \<Rightarrow> key \<Rightarrow> uint \<Rightarrow> ('w, peer list) prog" where
  "closest_now E k n = access Router_Data (\<lambda>s.
     let (ps, r) = closest_peers (now_at E (world s)) k n (router_of s)
     in (ps, s\<lparr>router_of := r\<rparr>))"

definition ping_prog :: "'w env \<Rightarrow> peer \<Rightarrow> ('w, peer option) prog" where
  "ping_prog E p =
     bind (rpc_call (\<lambda>s. rpc_ping E (endpoint p) \<lparr>pg_sender = rpc_caller_prelims s\<rparr>)) (\<lambda>reply.
     case reply of
       None \<Rightarrow> bind (evict_now (pkey p)) (\<lambda>_. Return None)
     | Some r \<Rightarrow>
         bind (lift (bitset_of_string (rpc_key (pg_receiver r)))) (\<lambda>k.
         Return (Some \<lparr>pkey = k, endpoint = rpc_endpoint (pg_receiver r)\<rparr>)))"

primrec update_peer_prog :: "nat \<Rightarrow> 'w env \<Rightarrow> key \<Rightarrow> string \<Rightarrow> ('w, unit) prog" where
  "update_peer_prog 0 E k ep = Throw Diverges"
| "update_peer_prog (Suc n) E k ep =
     bind (guarded Router_Lock (insert_now E k ep)) (\<lambda>(inserted, lru_peer).
     if inserted then Return ()
     else case lru_peer of
            None \<Rightarrow> Throw Wild_Pointer
          | Some lru \<Rightarrow>
              bind (ping_prog E lru) (\<lambda>reply.
              if (case reply of None \<Rightarrow> False | Some other \<Rightarrow> pkey lru = pkey other) then Return ()
              else bind (guarded Router_Lock (evict_now (pkey lru))) (\<lambda>_.
                   bind (access Other_Data (\<lambda>s. ((), s\<lparr>dead_peers := dead_peers s + 1\<rparr>))) (\<lambda>_.
                   update_peer_prog n E k ep))))"

definition caller_epilogue_prog :: "nat \<Rightarrow> 'w env \<Rightarrow> rpc_peer \<Rightarrow> ('w, unit) prog" where
  "caller_epilogue_prog n E receiver =
     bind (lift (rpc_peer_to_local receiver)) (\<lambda>p. update_peer_prog n E (pkey p) (endpoint p))"

definition handler_prelims_prog :: "nat \<Rightarrow> 'w env \<Rightarrow> rpc_peer \<Rightarrow> ('w, rpc_peer) prog" where
  "handler_prelims_prog n E sender =
     bind (lift (rpc_peer_to_local sender)) (\<lambda>p.
     bind (update_peer_prog n E (pkey p) (endpoint p)) (\<lambda>_.
     access Other_Data (\<lambda>s. (local_to_rpc_peer (get_self_peer (router_of s)), s))))"

primrec add_closest_prog :: "nat \<Rightarrow> 'w env \<Rightarrow> rpc_peer list \<Rightarrow> peer list \<Rightarrow> ('w, peer list) prog" where
  "add_closest_prog n E [] buffer = Return buffer"
| "add_closest_prog n E (rp # rps) buffer =
     bind (lift (rpc_peer_to_local rp)) (\<lambda>p.
     bind (access Other_Data (\<lambda>s. (pkey p = self_key s \<or> endpoint p = self_endpoint s, s))) (\<lambda>own.
     if own then add_closest_prog n E rps buffer
     else bind (update_peer_prog n E (pkey p) (endpoint p)) (\<lambda>_.
          add_closest_prog n E rps (buffer @ [p]))))"

definition find_node_prog ::
  "nat \<Rightarrow> 'w env \<Rightarrow> peer \<Rightarrow> key \<Rightarrow> peer list \<Rightarrow> ('w, bool \<times> peer list) prog" where
  "find_node_prog n E p search_key buffer =
     bind (rpc_call (\<lambda>s. rpc_find_node E (endpoint p)
       \<lparr>fn_sender = rpc_caller_prelims s, fn_search_key = bitset_to_string search_key\<rparr>)) (\<lambda>reply.
     case reply of
       None \<Rightarrow> bind (evict_now (pkey p)) (\<lambda>_. Return (False, buffer))
     | Some r \<Rightarrow>
         bind (caller_epilogue_prog n E (fn_receiver r)) (\<lambda>_.
         bind (add_closest_prog n E (fn_closest_peers r) buffer) (\<lambda>buffer. Return (True, buffer))))"

definition find_value_prog ::
  "nat \<Rightarrow> 'w env \<Rightarrow> peer \<Rightarrow> key \<Rightarrow> peer list \<Rightarrow> ('w, bool \<times> peer list \<times> string option) prog" where
  "find_value_prog n E p search_key buffer =
     bind (rpc_call (\<lambda>s. rpc_find_value E (endpoint p)
       \<lparr>fv_sender = rpc_caller_prelims s, fv_search_key = bitset_to_string search_key\<rparr>)) (\<lambda>reply.
     case reply of
       None \<Rightarrow> bind (evict_now (pkey p)) (\<lambda>_. Return (False, buffer, None))
     | Some r \<Rightarrow>
         bind (caller_epilogue_prog n E (fv_receiver r)) (\<lambda>_.
         if fv_found_value r
         then bind (lift (copy_bytes (fv_data r) (fv_size r))) (\<lambda>data. Return (True, buffer, Some data))
         else bind (add_closest_prog n E (fv_closest_peers r) buffer) (\<lambda>buffer.
              Return (True, buffer, None))))"

definition store_prog :: "nat \<Rightarrow> 'w env \<Rightarrow> peer \<Rightarrow> chunk \<Rightarrow> bool \<Rightarrow> ('w, bool) prog" where
  "store_prog n E p c force =
     bind (rpc_call (\<lambda>s. rpc_store_init E (endpoint p)
       \<lparr>si_sender = rpc_caller_prelims s, si_chunk_key = bitset_to_string (chunk_key c)\<rparr>)) (\<lambda>reply.
     case reply of
       None \<Rightarrow> bind (evict_now (pkey p)) (\<lambda>_. Return False)
     | Some r \<Rightarrow>
         if \<not> si_continue_store r \<and> \<not> force then Return True
         else bind (caller_epilogue_prog n E (si_receiver r)) (\<lambda>_.
              bind (rpc_call (\<lambda>s. rpc_store E (endpoint p)
                \<lparr>st_sender = rpc_caller_prelims s, st_chunk_key = bitset_to_string (chunk_key c),
                 st_data = chunk_data c, st_size = of_nat (length (chunk_data c)),
                 st_original_publish = to_seconds (original_publish c)\<rparr>)) (\<lambda>reply2.
              case reply2 of
                None \<Rightarrow> Return False
              | Some _ \<Rightarrow> bind (caller_epilogue_prog n E (si_receiver r)) (\<lambda>_. Return True))))"

section \<open>Handlers\<close>

definition find_node_handler :: "nat \<Rightarrow> 'w env \<Rightarrow> find_node_request \<Rightarrow> ('w, find_node_response) prog" where
  "find_node_handler n E request =
     bind (handler_prelims_prog n E (fn_sender request)) (\<lambda>receiver.
     bind (lift (bitset_of_string (fn_search_key request))) (\<lambda>search_key.
     bind (guarded Router_Lock (closest_now E search_key 20)) (\<lambda>closest.
     Return \<lparr>fn_receiver = receiver, fn_closest_peers = map local_to_rpc_peer closest\<rparr>)))"

definition find_value_handler :: "nat \<Rightarrow> 'w env \<Rightarrow> find_value_request \<Rightarrow> ('w, find_value_response) prog" where
  "find_value_handler n E request =
     bind (handler_prelims_prog n E (fv_sender request)) (\<lambda>receiver.
     bind (lift (bitset_of_string (fv_search_key request))) (\<lambda>search_key.
     bind (guarded Chunks_Lock (access Chunk_Data (\<lambda>s. (map_of (chunks s) search_key, s)))) (\<lambda>found.
     case found of
       Some c \<Rightarrow>
         Return \<lparr>fv_receiver = receiver, fv_found_value = True, fv_data = chunk_data c,
                 fv_size = of_nat (length (chunk_data c)), fv_closest_peers = []\<rparr>
     | None \<Rightarrow>
         bind (guarded Router_Lock (closest_now E search_key 20)) (\<lambda>closest.
         Return \<lparr>fv_receiver = receiver, fv_found_value = False, fv_data = [], fv_size = 0,
                 fv_closest_peers = map local_to_rpc_peer closest\<rparr>))))"

definition store_init_handler :: "nat \<Rightarrow> 'w env \<Rightarrow> store_init_request \<Rightarrow> ('w, store_init_response) prog" where
  "store_init_handler n E request =
     bind (handler_prelims_prog n E (si_sender request)) (\<lambda>receiver.
     bind (lift (bitset_of_string (si_chunk_key request))) (\<lambda>k.
     bind (guarded Chunks_Lock (access Chunk_Data (\<lambda>s. (map_of (chunks s) k = None, s)))) (\<lambda>absent.
     Return \<lparr>si_receiver = receiver, si_continue_store = absent\<rparr>)))"

definition add_chunk :: "chunk \<Rightarrow> ('w, unit) prog" where
  "add_chunk c = access Chunk_Data (\<lambda>s. ((), s\<lparr>chunks := AList.update (chunk_key c) c (chunks s)\<rparr>))"

definition store_handler :: "nat \<Rightarrow> 'w env \<Rightarrow> store_request \<Rightarrow> ('w, store_response) prog" where
  "store_handler n E request =
     bind (handler_prelims_prog n E (st_sender request)) (\<lambda>receiver.
     bind (lift (bitset_of_string (st_chunk_key request))) (\<lambda>k.
     bind (lift (copy_bytes (st_data request) (st_size request))) (\<lambda>data.
     bind (access Other_Data (\<lambda>s. (new_chunk (now_at E (world s)) k data False
       (st_original_publish request * ticks_per_second), s))) (\<lambda>c.
     bind (guarded Chunks_Lock (add_chunk c)) (\<lambda>_.
     Return \<lparr>st_receiver = receiver\<rparr>)))))"

definition ping_handler :: "nat \<Rightarrow> 'w env \<Rightarrow> ping_request \<Rightarrow> ('w, ping_response) prog" where
  "ping_handler n E request =
     bind (handler_prelims_prog n E (pg_sender request)) (\<lambda>receiver. Return \<lparr>pg_receiver = receiver\<rparr>)"

section \<open>Lookups\<close>

text \<open>The query closures: whether to halt, whether to count the query, the buffer and the data.\<close>

definition query_prog ::
  "nat \<Rightarrow> 'w env \<Rightarrow> query_kind \<Rightarrow> key \<Rightarrow> peer \<Rightarrow> peer list \<Rightarrow>
     ('w, bool \<times> bool \<times> peer list \<times> string option) prog" where
  "query_prog n E kind search_key p buffer =
     (case kind of
        Node_Query \<Rightarrow> bind (find_node_prog n E p search_key buffer) (\<lambda>(ok, buffer).
          Return (False, ok, buffer, None))
      | Value_Query \<Rightarrow> bind (find_value_prog n E p search_key buffer) (\<lambda>(ok, buffer, data).
          Return (data \<noteq> None, ok, buffer, data)))"

text \<open>A query that fails leaves the buffer as it is, so only one that counts can make it grow.\<close>

function query_round_prog ::
  "nat \<Rightarrow> 'w env \<Rightarrow> query_kind \<Rightarrow> key \<Rightarrow> nat \<Rightarrow> nat \<Rightarrow> key set \<Rightarrow> peer list \<Rightarrow> nat \<Rightarrow>
     ('w, bool \<times> key set \<times> peer list \<times> string option) prog" where
  "query_round_prog n E kind search_key lookup_count j queried buffer ctr =
     (if j < length buffer \<and> \<not> lookup_count \<le> ctr
      then let p = buffer ! j in
           if pkey p \<in> queried
           then query_round_prog n E kind search_key lookup_count (Suc j) queried buffer ctr
           else bind (query_prog n E kind search_key p buffer) (\<lambda>(halt, ok, grown, data).
                if halt then Return (True, queried, grown, data)
                else if ok
                then query_round_prog n E kind search_key lookup_count (Suc j) (insert (pkey p) queried) grown (Suc ctr)
                else query_round_prog n E kind search_key lookup_count (Suc j) (insert (pkey p) queried) buffer ctr)
      else Return (False, queried, buffer, None))"
  by pat_completeness auto
termination
  by (relation "measures [\<lambda>(_, _, _, _, lookup_count, _, _, _, ctr). lookup_count - ctr,
                          \<lambda>(_, _, _, _, _, j, _, buffer, _). length buffer - j]") auto

declare query_round_prog.simps [simp del]

primrec lookup_rounds_prog ::
  "nat \<Rightarrow> nat \<Rightarrow> 'w env \<Rightarrow> query_kind \<Rightarrow> key \<Rightarrow> key set \<Rightarrow> peer list \<Rightarrow> nat \<Rightarrow> dist \<Rightarrow>
     ('w, peer list \<times> string option) prog" where
  "lookup_rounds_prog 0 n E kind search_key queried buffer sz min_dist = Return (buffer, None)"
| "lookup_rounds_prog (Suc i) n E kind search_key queried buffer sz min_dist =
     bind (query_round_prog n E kind search_key (min 3 (length buffer)) 0 queried buffer 0)
       (\<lambda>(halt, queried, grown, data).
        if halt then Return (grown, data)
        else let buffer = select_closest search_key grown;
                 new_size = length buffer
             in if buffer = [] then Throw Out_Of_Range
                else let new_min_dist = dist_between search_key (pkey (buffer ! 0))
                     in if new_size \<le> sz \<and> min_dist \<le> new_min_dist
                        then Return (buffer, None)
                        else lookup_rounds_prog i n E kind search_key queried buffer new_size new_min_dist)"

definition lookup_helper_prog ::
  "nat \<Rightarrow> 'w env \<Rightarrow> query_kind \<Rightarrow> key \<Rightarrow> peer list \<Rightarrow> ('w, peer list \<times> string option) prog" where
  "lookup_helper_prog n E kind search_key buffer =
     bind (guarded Router_Lock (closest_now E search_key 20)) (\<lambda>local_peers.
     let min_dist = fold (\<lambda>p d. min d (dist_between search_key (pkey p))) local_peers dist_max
     in lookup_rounds_prog 160 n E kind search_key {} (sort_peers search_key (buffer @ local_peers))
          (length buffer) min_dist)"

primrec final_queries_prog ::
  "nat \<Rightarrow> 'w env \<Rightarrow> key \<Rightarrow> peer list \<Rightarrow> peer list \<Rightarrow> ('w, peer list) prog" where
  "final_queries_prog n E node_key [] buffer = Return buffer"
| "final_queries_prog n E node_key (p # ps) buffer =
     bind (find_node_prog n E p node_key buffer) (\<lambda>(_, buffer). final_queries_prog n E node_key ps buffer)"

definition node_lookup_prog :: "nat \<Rightarrow> 'w env \<Rightarrow> key \<Rightarrow> peer list \<Rightarrow> ('w, peer list) prog" where
  "node_lookup_prog n E node_key buffer =
     bind (lookup_helper_prog n E Node_Query node_key []) (\<lambda>(closest, _).
     bind (final_queries_prog n E node_key closest closest) (\<lambda>closest.
     Return (take 20 (sort_peers node_key (buffer @ unique_peers {} closest)))))"

definition value_lookup_prog :: "nat \<Rightarrow> 'w env \<Rightarrow> key \<Rightarrow> ('w, string option) prog" where
  "value_lookup_prog n E search_key =
     bind (lookup_helper_prog n E Value_Query search_key []) (\<lambda>(_, data). Return data)"

primrec lookup_each_prog :: "nat \<Rightarrow> 'w env \<Rightarrow> peer list \<Rightarrow> ('w, unit) prog" where
  "lookup_each_prog n E [] = Return ()"
| "lookup_each_prog n E (p # ps) =
     bind (node_lookup_prog n E (pkey p) []) (\<lambda>_. lookup_each_prog n E ps)"

text \<open>Sampling the kbuckets; an empty one makes it divide by zero while the router is locked.\<close>

definition sample_now :: "'w env \<Rightarrow> int \<Rightarrow> ('w, peer list) prog" where
  "sample_now E age =
     bind (access Router_Data (\<lambda>s.
       case random_per_bucket_peers (clock_at E (world s)) (rand_at E (world s)) age (router_of s) of
         Inl e \<Rightarrow> (Inl e, s)
       | Inr (ps, r) \<Rightarrow> (Inr ps, s\<lparr>router_of := r\<rparr>))) lift"

definition self_lookup_prog :: "nat \<Rightarrow> 'w env \<Rightarrow> key \<Rightarrow> ('w, unit) prog" where
  "self_lookup_prog n E key =
     bind (lookup_helper_prog n E Node_Query key []) (\<lambda>_.
     bind (guarded Router_Lock (sample_now E 0)) (\<lambda>peers. lookup_each_prog n E peers))"

section \<open>The calls of the client\<close>

primrec store_closest_prog ::
  "nat \<Rightarrow> 'w env \<Rightarrow> chunk \<Rightarrow> bool \<Rightarrow> peer list \<Rightarrow> dist \<Rightarrow> ('w, dist) prog" where
  "store_closest_prog n E c force [] max_dist = Return max_dist"
| "store_closest_prog n E c force (p # ps) max_dist =
     bind (store_prog n E p c force) (\<lambda>_.
     store_closest_prog n E c force ps (max max_dist (dist_between (chunk_key c) (pkey p))))"

definition publish_prog :: "nat \<Rightarrow> 'w env \<Rightarrow> chunk \<Rightarrow> bool \<Rightarrow> ('w, unit) prog" where
  "publish_prog n E c force =
     bind (node_lookup_prog n E (chunk_key c) []) (\<lambda>buffer.
     bind (store_closest_prog n E c force (take 20 buffer) (Dist 0)) (\<lambda>max_dist.
     bind (access Other_Data (\<lambda>s. (length buffer \<le> 20 \<or> dist_between (chunk_key c) (self_key s) \<le> max_dist, s)))
       (\<lambda>keep. if keep then guarded Chunks_Lock (add_chunk c) else Return ())))"

definition set_prog :: "nat \<Rightarrow> 'w env \<Rightarrow> key \<Rightarrow> string \<Rightarrow> bool \<Rightarrow> ('w, unit) prog" where
  "set_prog n E k data force =
     bind (access Other_Data (\<lambda>s.
       (new_chunk (clock_at E (world s) 1) k data True (clock_at E (world s) 0), s))) (\<lambda>c.
     publish_prog n E c force)"

definition get_prog :: "nat \<Rightarrow> 'w env \<Rightarrow> key \<Rightarrow> ('w, string option) prog" where
  "get_prog n E k =
     bind (guarded Chunks_Lock (access Chunk_Data (\<lambda>s. (map_of (chunks s) k, s)))) (\<lambda>found.
     case found of Some c \<Rightarrow> Return (Some (chunk_data c)) | None \<Rightarrow> value_lookup_prog n E k)"

section \<open>Startup and teardown\<close>

primrec ping_until_prog :: "nat \<Rightarrow> 'w env \<Rightarrow> peer \<Rightarrow> ('w, peer) prog" where
  "ping_until_prog 0 E p = Throw Diverges"
| "ping_until_prog (Suc i) E p =
     bind (ping_prog E p) (\<lambda>reply. case reply of Some q \<Rightarrow> Return q | None \<Rightarrow> ping_until_prog i E p)"

definition join_prog :: "nat \<Rightarrow> nat \<Rightarrow> 'w env \<Rightarrow> key \<Rightarrow> key \<Rightarrow> string \<Rightarrow> ('w, unit) prog" where
  "join_prog patience n E sk temp_key init_ep =
     bind (ping_until_prog patience E \<lparr>pkey = temp_key, endpoint = init_ep\<rparr>) (\<lambda>other.
     bind (guarded Router_Lock (bind (insert_now E (pkey other) (endpoint other)) (\<lambda>_. evict_now temp_key))) (\<lambda>_.
     self_lookup_prog n E sk))"

fun store_until_prog :: "nat \<Rightarrow> 'w env \<Rightarrow> chunk \<Rightarrow> (peer \<times> bool) list \<Rightarrow> bool \<Rightarrow> ('w, bool) prog" where
  "store_until_prog n E c [] stored = Return stored"
| "store_until_prog n E c ((p, live) # ps) stored =
     (if stored then store_until_prog n E c ps True
      else bind (store_prog n E p c False) (\<lambda>ok.
           bind (access Router_Data (\<lambda>s. (router_of s, s))) (\<lambda>r.
           store_until_prog n E c (map (follow_pointer r) ps) ok)))"

fun hand_over_prog :: "nat \<Rightarrow> 'w env \<Rightarrow> (key \<times> chunk) list \<Rightarrow> ('w, key list) prog" where
  "hand_over_prog n E [] = Return []"
| "hand_over_prog n E ((k, c) # cs) =
     bind (guarded Router_Lock (closest_now E k 3)) (\<lambda>closest.
     bind (store_until_prog n E c (map (\<lambda>p. (p, True)) closest) False) (\<lambda>stored.
     bind (hand_over_prog n E cs) (\<lambda>dropped. Return (if stored then dropped else k # dropped))))"

text \<open>\<open>teardown\<close> after the threads have ended, up to the destruction of the router.\<close>

definition teardown_prog :: "nat \<Rightarrow> 'w env \<Rightarrow> bool \<Rightarrow> ('w, key list) prog" where
  "teardown_prog n E do_republish =
     guarded Chunks_Lock
      (bind (access Chunk_Data (\<lambda>s. (chunks s, s))) (\<lambda>cs.
       bind (if do_republish then hand_over_prog n E cs else Return (map fst cs)) (\<lambda>dropped.
       bind (access Chunk_Data (\<lambda>s. ((), s\<lparr>chunks := []\<rparr>))) (\<lambda>_. Return dropped))))"

section \<open>The background threads\<close>

text \<open>An iteration after the thread found that the session is not dying.\<close>

primrec republish_each_prog :: "nat \<Rightarrow> 'w env \<Rightarrow> key list \<Rightarrow> ('w, unit) prog" where
  "republish_each_prog n E [] = Return ()"
| "republish_each_prog n E (k # ks) =
     bind (access Chunk_Data (\<lambda>s. (map_of (chunks s) k, s\<lparr>chunks := AList.delete k (chunks s)\<rparr>))) (\<lambda>found.
     case found of
       None \<Rightarrow> Throw Wild_Pointer
     | Some c \<Rightarrow> bind (publish_prog n E c False) (\<lambda>_. republish_each_prog n E ks))"

definition republish_prog :: "nat \<Rightarrow> 'w env \<Rightarrow> ('w, unit) prog" where
  "republish_prog n E =
     guarded Chunks_Lock
      (bind (access Chunk_Data (\<lambda>s. (due_keys (clock_at E (world s)) (chunks s), s))) (\<lambda>ks.
       republish_each_prog n E ks))"

definition cleanup_prog :: "'w env \<Rightarrow> ('w, unit) prog" where
  "cleanup_prog E =
     guarded Chunks_Lock (access Chunk_Data (\<lambda>s. ((),
       s\<lparr>chunks := fold AList.delete (expired_keys (clock_at E (world s)) (chunks s)) (chunks s)\<rparr>)))"

definition refresh_prog :: "nat \<Rightarrow> 'w env \<Rightarrow> ('w, unit) prog" where
  "refresh_prog n E =
     bind (guarded Router_Lock (sample_now E 3600)) (\<lambda>peers. lookup_each_prog n E peers)"

end
