(* ===== verification/Thread_Safety.thy ===== *)
theory Thread_Safety
  imports Programs
begin

text \<open>
  What every program of \<open>Programs\<close> keeps while other threads run: the weakest preconditions
  of the operations. \<open>entry F H\<close> says when an operation that locks the router may start in a
  thread that holds \<open>H\<close>.
\<close>

definition entry :: "permit set \<Rightarrow> mutex set \<Rightarrow> bool" where
  "entry F H \<longleftrightarrow> Router_Lock \<notin> H \<and> (H = {} \<or> Throws_Locked \<in> F)"

lemma locked_update [simp]:
  "locked m (s\<lparr>world := w\<rparr>) = locked m s"
  "locked m (s\<lparr>router_of := r\<rparr>) = locked m s"
  "locked m (s\<lparr>chunks := cs\<rparr>) = locked m s"
  "locked m (s\<lparr>dead_peers := d\<rparr>) = locked m s"
  "locked m (s\<lparr>dying := b\<rparr>) = locked m s"
  by (cases m; simp)+

lemma wp_return: "P x H \<Longrightarrow> wp me F P (Return x) H"
  by simp

lemma wp_throw: "entry F H \<Longrightarrow> e \<in> thread_errors \<Longrightarrow> wp me F P (Throw e) H"
  by (auto simp: entry_def)

lemma wp_access:
  assumes "d = Chunk_Data \<Longrightarrow> Chunks_Lock \<in> H"
    and "\<And>s. data_ok me s \<Longrightarrow>
      data_ok me (snd (g s)) \<and> writes_only d s (snd (g s)) \<and> P (fst (g s)) H"
  shows "wp me F P (access d g) H"
  using assms by (simp add: access_def)

text \<open>An action that only reads.\<close>

lemma wp_read:
  assumes "d = Chunk_Data \<Longrightarrow> Chunks_Lock \<in> H" and "\<And>s. data_ok me s \<Longrightarrow> P (g s) H"
  shows "wp me F P (access d (\<lambda>s. (g s, s))) H"
  by (rule wp_access) (use assms in \<open>simp_all add: writes_only_def\<close>)

lemma wp_guarded:
  assumes "m \<notin> H" and "m = Chunks_Lock \<Longrightarrow> H = {} \<and> Releases_Chunks \<in> F"
    and "wp me F (\<lambda>x H'. H' = insert m H \<and> P x H) p (insert m H)"
  shows "wp me F P (guarded m p) H"
proof -
  have "wp me F (\<lambda>x. wp me F P (Unlock m (Return x))) p (insert m H)"
    by (rule wp_mono [OF assms(3)]) (use assms(1,2) in auto)
  with assms(1,2) show ?thesis by (simp add: guarded_def wp_bind)
qed

lemma wp_parse_key:
  "entry F H \<Longrightarrow> (\<And>k. wp me F P (f k) H) \<Longrightarrow> wp me F P (bind (lift (bitset_of_string str :: cpp_error + key)) f) H"
  by (cases "bitset_of_string str :: cpp_error + key")
     (auto simp: wp_bind entry_def thread_errors_def dest: bitset_of_string_error)

lemma wp_parse_peer:
  "entry F H \<Longrightarrow> (\<And>p. wp me F P (f p) H) \<Longrightarrow> wp me F P (bind (lift (rpc_peer_to_local rp)) f) H"
  by (cases "rpc_peer_to_local rp")
     (auto simp: wp_bind entry_def thread_errors_def dest: rpc_peer_to_local_error)

lemma wp_copy_bytes:
  "entry F H \<Longrightarrow> (\<And>d. wp me F P (f d) H) \<Longrightarrow> wp me F P (bind (lift (copy_bytes data sz)) f) H"
  by (cases "copy_bytes data sz")
     (auto simp: wp_bind entry_def thread_errors_def dest: copy_bytes_error)

section \<open>Actions on the router\<close>

lemma data_ok_router:
  "data_ok me s \<Longrightarrow> wf_router r \<Longrightarrow> self_peer r = self_peer (router_of s) \<Longrightarrow>
     data_ok me (s\<lparr>router_of := r\<rparr>) \<and> writes_only Router_Data s (s\<lparr>router_of := r\<rparr>)"
  by (simp add: data_ok_def writes_only_def)

lemma rpc_call_wp: "wp me F (ends H) (rpc_call f) H"
  unfolding rpc_call_def
  by (rule wp_access) (auto simp: data_ok_def writes_only_def split_def Let_def)

lemma evict_now_wp: "wp me F (ends H) (evict_now k) H"
  unfolding evict_now_def
  by (rule wp_access) (auto intro!: router.inv_evict simp: data_ok_def writes_only_def router.self_evict)

lemma insert_now_wp:
  "wp me F (\<lambda>(inserted, lru) H'. H' = H \<and> (inserted \<or> lru \<noteq> None)) (insert_now E k ep) H"
  unfolding insert_now_def
proof (rule wp_access)
  fix s :: "'a session"
  assume ok: "data_ok me s"
  then have wf: "wf_router (router_of s)" by (simp add: data_ok_def)
  obtain inserted lru r where r: "attempt_insert_peer (now_at E (world s)) k ep (router_of s) = ((inserted, lru), r)"
    by (metis prod.exhaust)
  then have "wf_router r" "self_peer r = self_peer (router_of s)"
    using router.inv_insert [OF wf] router.self_insert by (metis snd_conv)+
  moreover have "inserted \<or> lru \<noteq> None" using router.insert_full [OF wf, of "now_at E (world s)" k ep lru r] r by (cases inserted) auto
  ultimately show "data_ok me (snd (let (res, r) = attempt_insert_peer (now_at E (world s)) k ep (router_of s)
         in (res, s\<lparr>router_of := r\<rparr>))) \<and>
       writes_only Router_Data s (snd (let (res, r) = attempt_insert_peer (now_at E (world s)) k ep (router_of s)
         in (res, s\<lparr>router_of := r\<rparr>))) \<and>
       (case fst (let (res, r) = attempt_insert_peer (now_at E (world s)) k ep (router_of s)
         in (res, s\<lparr>router_of := r\<rparr>)) of (inserted, lru) \<Rightarrow> \<lambda>H'. H' = H \<and> (inserted \<or> lru \<noteq> None)) H"
    using data_ok_router [OF ok] r by simp
qed simp

lemma closest_now_wp: "wp me F (ends H) (closest_now E k n) H"
  unfolding closest_now_def
proof (rule wp_access)
  fix s :: "'a session"
  assume ok: "data_ok me s"
  then show "data_ok me (snd (let (ps, r) = closest_peers (now_at E (world s)) k n (router_of s)
         in (ps, s\<lparr>router_of := r\<rparr>))) \<and>
       writes_only Router_Data s (snd (let (ps, r) = closest_peers (now_at E (world s)) k n (router_of s)
         in (ps, s\<lparr>router_of := r\<rparr>))) \<and> H = H"
    using data_ok_router [OF ok] router.inv_closest [of "router_of s"] router.self_closest
    by (simp add: data_ok_def split_def Let_def)
qed simp

lemma sample_now_wp:
  assumes "Throws_Locked \<in> F"
  shows "wp me F (ends H) (sample_now E age) H"
  unfolding sample_now_def
proof (rule wp_seq)
  let ?g = "\<lambda>s. case random_per_bucket_peers (clock_at E (world s)) (rand_at E (world s)) age (router_of s) of
         Inl e \<Rightarrow> (Inl e, s)
       | Inr (ps, r) \<Rightarrow> (Inr ps, s\<lparr>router_of := r\<rparr>)"
  show "wp me F (ends H) (access Router_Data ?g) H"
  proof (rule wp_access)
    fix s :: "'a session"
    assume ok: "data_ok me s"
    with random_per_bucket_outcome [of "router_of s" "clock_at E (world s)" "rand_at E (world s)" age]
    show "data_ok me (snd (?g s)) \<and> writes_only Router_Data s (snd (?g s)) \<and> H = H"
      using data_ok_router [OF ok]
      by (auto simp: data_ok_def writes_only_def split: sum.splits)
  qed simp
next
  fix x H'
  assume "H' = H"
  with assms show "wp me F (ends H) (lift x) H'" by (cases x) auto
qed

section \<open>Callers\<close>

lemma ping_wp: "entry F H \<Longrightarrow> wp me F (ends H) (ping_prog E p) H"
  unfolding ping_prog_def
  by (auto intro!: wp_then [OF rpc_call_wp] wp_then [OF evict_now_wp] wp_parse_key split: option.split)

lemma locking_router:
  assumes "entry F H" and "wp me F (\<lambda>x H'. H' = insert Router_Lock H \<and> P x) p (insert Router_Lock H)"
  shows "wp me F (\<lambda>x H'. H' = H \<and> P x) (guarded Router_Lock p) H"
  by (rule wp_guarded) (use assms in \<open>auto simp: entry_def\<close>)

lemma locking_router_ends:
  assumes "entry F H" and "wp me F (ends (insert Router_Lock H)) p (insert Router_Lock H)"
  shows "wp me F (ends H) (guarded Router_Lock p) H"
  using locking_router [OF assms(1), of me "\<lambda>_. True" p] assms(2) by simp

lemma update_wp: "entry F H \<Longrightarrow> wp me F (ends H) (update_peer_prog n E k ep) H"
proof (induction n)
  case 0
  then show ?case by (auto simp: entry_def thread_errors_def)
next
  case (Suc n)
  have dead: "wp me F (ends H) (access Other_Data (\<lambda>s. ((), s\<lparr>dead_peers := dead_peers s + 1\<rparr>))) H"
    by (rule wp_access) (auto simp: data_ok_def writes_only_def)
  have ins: "wp me F (\<lambda>x H'. H' = H \<and> (fst x \<or> snd x \<noteq> None)) (guarded Router_Lock (insert_now E k ep)) H"
    by (rule locking_router [OF Suc.prems], rule wp_mono [OF insert_now_wp]) auto
  show ?case
    unfolding update_peer_prog.simps
  proof (rule wp_seq [OF ins])
    fix x :: "bool \<times> peer option" and H'
    assume "H' = H \<and> (fst x \<or> snd x \<noteq> None)"
    with Suc show "wp me F (ends H) (case x of (inserted, lru_peer) \<Rightarrow>
        if inserted then Return ()
        else case lru_peer of
            None \<Rightarrow> Throw Wild_Pointer
          | Some lru \<Rightarrow>
              bind (ping_prog E lru) (\<lambda>reply.
              if (case reply of None \<Rightarrow> False | Some other \<Rightarrow> pkey lru = pkey other) then Return ()
              else bind (guarded Router_Lock (evict_now (pkey lru))) (\<lambda>_.
                   bind (access Other_Data (\<lambda>s. ((), s\<lparr>dead_peers := dead_peers s + 1\<rparr>))) (\<lambda>_.
                   update_peer_prog n E k ep)))) H'"
      by (cases x) (auto split: option.split
          intro!: wp_then [OF ping_wp] wp_then [OF locking_router_ends] wp_then [OF dead] evict_now_wp)
  qed
qed

lemma epilogue_wp: "entry F H \<Longrightarrow> wp me F (ends H) (caller_epilogue_prog n E rp) H"
  unfolding caller_epilogue_prog_def by (intro wp_parse_peer update_wp)

lemma prelims_wp: "entry F H \<Longrightarrow> wp me F (ends H) (handler_prelims_prog n E rp) H"
  unfolding handler_prelims_prog_def
  by (intro wp_parse_peer wp_then [OF update_wp] wp_read) simp_all

lemma add_closest_wp: "entry F H \<Longrightarrow> wp me F (ends H) (add_closest_prog n E rps buffer) H"
proof (induction rps arbitrary: buffer)
  case (Cons rp rps)
  show ?case
    unfolding add_closest_prog.simps
    by (rule wp_parse_peer [OF Cons.prems], rule wp_then [OF wp_read])
       (use Cons in \<open>auto intro!: wp_then [OF update_wp]\<close>)
qed simp

lemma find_node_wp: "entry F H \<Longrightarrow> wp me F (ends H) (find_node_prog n E p k buffer) H"
  unfolding find_node_prog_def
  by (auto split: option.split
      intro!: wp_then [OF rpc_call_wp] wp_then [OF evict_now_wp] wp_then [OF epilogue_wp] wp_then [OF add_closest_wp] wp_return)

lemma find_value_wp: "entry F H \<Longrightarrow> wp me F (ends H) (find_value_prog n E p k buffer) H"
  unfolding find_value_prog_def
  by (auto split: option.split
      intro!: wp_then [OF rpc_call_wp] wp_then [OF evict_now_wp] wp_then [OF epilogue_wp] wp_then [OF add_closest_wp]
        wp_copy_bytes wp_return)

lemma store_wp: "entry F H \<Longrightarrow> wp me F (ends H) (store_prog n E p c force) H"
  unfolding store_prog_def
  by (auto split: option.split
      intro!: wp_then [OF rpc_call_wp] wp_then [OF evict_now_wp] wp_then [OF epilogue_wp] wp_return)

section \<open>Handlers\<close>

text \<open>A handler starts without a mutex.\<close>

lemma entry_idle: "entry F {}"
  by (simp add: entry_def)

lemma reading_chunks: "Releases_Chunks \<in> F \<Longrightarrow> wp me F (ends {}) (guarded Chunks_Lock (access Chunk_Data (\<lambda>s. (g s, s)))) {}"
  by (rule wp_guarded) (auto intro: wp_read)

lemma asking_closest: "entry F H \<Longrightarrow> wp me F (ends H) (guarded Router_Lock (closest_now E k i)) H"
  by (intro locking_router_ends closest_now_wp)

lemma add_chunk_wp: "Chunks_Lock \<in> H \<Longrightarrow> wp me F (ends H) (add_chunk c) H"
  unfolding add_chunk_def
  by (rule wp_access) (auto simp: data_ok_def writes_only_def filed_update)

lemma adding_chunk: "Releases_Chunks \<in> F \<Longrightarrow> wp me F (ends {}) (guarded Chunks_Lock (add_chunk c)) {}"
  by (rule wp_guarded) (auto intro: add_chunk_wp)

lemmas handler_wps = wp_parse_key [OF entry_idle] wp_copy_bytes [OF entry_idle]
  wp_then [OF prelims_wp [OF entry_idle]] wp_then [OF reading_chunks] wp_then [OF adding_chunk]
  wp_then [OF asking_closest [OF entry_idle]] wp_return

lemma find_node_handler_wp: "wp me F (ends {}) (find_node_handler n E r) {}"
  unfolding find_node_handler_def by (intro handler_wps refl)

lemma find_value_handler_wp: "Releases_Chunks \<in> F \<Longrightarrow> wp me F (ends {}) (find_value_handler n E r) {}"
  unfolding find_value_handler_def by (auto split: option.split intro!: handler_wps)

lemma store_init_handler_wp: "Releases_Chunks \<in> F \<Longrightarrow> wp me F (ends {}) (store_init_handler n E r) {}"
  unfolding store_init_handler_def by (intro handler_wps refl)

lemma store_handler_wp: "Releases_Chunks \<in> F \<Longrightarrow> wp me F (ends {}) (store_handler n E r) {}"
  unfolding store_handler_def
  by (intro handler_wps wp_then [OF wp_read] refl) (simp_all add: thread_errors_def)

lemma ping_handler_wp: "wp me F (ends {}) (ping_handler n E r) {}"
  unfolding ping_handler_def by (intro handler_wps refl)

section \<open>Lookups\<close>

lemma query_wp: "entry F H \<Longrightarrow> wp me F (ends H) (query_prog n E kind k p buffer) H"
  unfolding query_prog_def
  by (auto split: query_kind.split intro!: wp_then [OF find_node_wp] wp_then [OF find_value_wp])

lemma query_round_wp:
  "entry F H \<Longrightarrow> wp me F (ends H) (query_round_prog n E kind k quota j queried buffer ctr) H"
proof (induction n E kind k quota j queried buffer ctr rule: query_round_prog.induct)
  case (1 n E kind k quota j queried buffer ctr)
  show ?case
    by (subst query_round_prog.simps)
       (use 1 in \<open>auto simp: Let_def intro!: wp_then [OF query_wp]\<close>)
qed

lemma lookup_rounds_wp:
  "entry F H \<Longrightarrow> wp me F (ends H) (lookup_rounds_prog i n E kind k queried buffer sz d) H"
proof (induction i arbitrary: queried buffer sz d)
  case (Suc i)
  then show ?case
    by (auto simp: Let_def thread_errors_def intro!: wp_then [OF query_round_wp] wp_throw simp del: wp.simps(2))
qed simp

lemma lookup_helper_wp: "entry F H \<Longrightarrow> wp me F (ends H) (lookup_helper_prog n E kind k buffer) H"
  unfolding lookup_helper_prog_def Let_def
  by (intro wp_then [OF asking_closest] lookup_rounds_wp)

lemma final_queries_wp: "entry F H \<Longrightarrow> wp me F (ends H) (final_queries_prog n E k ps buffer) H"
  by (induction ps arbitrary: buffer) (auto intro!: wp_then [OF find_node_wp])

lemma node_lookup_bound:
  "entry F H \<Longrightarrow> wp me F (\<lambda>ps H'. H' = H \<and> length ps \<le> 20) (node_lookup_prog n E k buffer) H"
  unfolding node_lookup_prog_def
  by (auto intro!: wp_then [OF lookup_helper_wp] wp_then [OF final_queries_wp])

lemma node_lookup_wp: "entry F H \<Longrightarrow> wp me F (ends H) (node_lookup_prog n E k buffer) H"
  by (rule wp_mono [OF node_lookup_bound]) auto

lemma value_lookup_wp: "entry F H \<Longrightarrow> wp me F (ends H) (value_lookup_prog n E k) H"
  unfolding value_lookup_prog_def by (auto intro!: wp_then [OF lookup_helper_wp])

lemma lookup_each_wp: "entry F H \<Longrightarrow> wp me F (ends H) (lookup_each_prog n E ps) H"
  by (induction ps) (auto intro!: wp_then [OF node_lookup_wp])

lemma self_lookup_wp:
  "entry F H \<Longrightarrow> Throws_Locked \<in> F \<Longrightarrow> wp me F (ends H) (self_lookup_prog n E k) H"
  unfolding self_lookup_prog_def
  by (intro wp_then [OF lookup_helper_wp] wp_then [OF locking_router_ends] sample_now_wp lookup_each_wp)

section \<open>The calls of the client, startup and teardown\<close>

lemma store_closest_wp: "entry F H \<Longrightarrow> wp me F (ends H) (store_closest_prog n E c force ps d) H"
  by (induction ps arbitrary: d) (auto intro!: wp_then [OF store_wp])

text \<open>\<open>publish\<close> in a thread that holds the mutex of the chunks locks it a second time, or throws.\<close>

lemma publish_wp: "Releases_Chunks \<in> F \<Longrightarrow> wp me F (ends {}) (publish_prog n E c force) {}"
  unfolding publish_prog_def
  by (intro wp_then [OF node_lookup_wp [OF entry_idle]] wp_then [OF store_closest_wp [OF entry_idle]] wp_then [OF wp_read])
     (auto intro: adding_chunk)

lemma set_wp: "Releases_Chunks \<in> F \<Longrightarrow> wp me F (ends {}) (set_prog n E k d force) {}"
  unfolding set_prog_def by (intro wp_then [OF wp_read] publish_wp) simp_all

lemma get_wp: "Releases_Chunks \<in> F \<Longrightarrow> wp me F (ends {}) (get_prog n E k) {}"
  unfolding get_prog_def
  by (auto split: option.split intro!: wp_then [OF reading_chunks] value_lookup_wp entry_idle)

lemma ping_until_wp: "entry F H \<Longrightarrow> wp me F (ends H) (ping_until_prog i E p) H"
  by (induction i)
     (auto split: option.split intro!: wp_then [OF ping_wp] wp_throw simp: thread_errors_def simp del: wp.simps(2))

lemma join_wp: "Throws_Locked \<in> F \<Longrightarrow> wp me F (ends {}) (join_prog patience n E sk tk ep) {}"
  unfolding join_prog_def
  by (intro wp_then [OF ping_until_wp [OF entry_idle]] wp_then [OF locking_router_ends [OF entry_idle]]
      self_lookup_wp entry_idle evict_now_wp)
     (rule wp_seq [OF insert_now_wp], auto intro: evict_now_wp)

lemma store_until_wp: "entry F H \<Longrightarrow> wp me F (ends H) (store_until_prog n E c ps stored) H"
  by (induction n E c ps stored rule: store_until_prog.induct)
     (auto intro!: wp_then [OF store_wp] wp_then [OF wp_read])

lemma hand_over_wp: "entry F H \<Longrightarrow> wp me F (ends H) (hand_over_prog n E cs) H"
proof (induction cs)
  case (Cons x cs)
  have "wp me F (ends H) (bind (hand_over_prog n E cs) (\<lambda>ks. Return (f ks))) H" for f :: "key list \<Rightarrow> key list"
    by (rule wp_then [OF Cons.IH]) (use Cons.prems in simp_all)
  with Cons.prems show ?case
    by (cases x) (auto intro!: wp_then [OF asking_closest] wp_then [OF store_until_wp])
qed simp

lemma teardown_wp:
  assumes "Throws_Locked \<in> F" and "Releases_Chunks \<in> F"
  shows "wp me F (ends {}) (teardown_prog n E b) {}"
proof -
  let ?H = "{Chunks_Lock}"
  have e: "entry F ?H" using assms by (simp add: entry_def)
  have clear: "wp me F (ends ?H) (access Chunk_Data (\<lambda>s. ((), s\<lparr>chunks := []\<rparr>))) ?H"
    by (rule wp_access) (auto simp: data_ok_def writes_only_def filed_def)
  have "wp me F (ends ?H) (bind (access Chunk_Data (\<lambda>s. (chunks s, s))) (\<lambda>cs.
       bind (if b then hand_over_prog n E cs else Return (map fst cs)) (\<lambda>dropped.
       bind (access Chunk_Data (\<lambda>s. ((), s\<lparr>chunks := []\<rparr>))) (\<lambda>_. Return dropped)))) ?H"
    by (intro wp_then [OF wp_read] wp_then [OF clear] wp_then [where H = ?H] wp_return refl)
       (auto intro: hand_over_wp [OF e])
  then show ?thesis
    unfolding teardown_prog_def by (intro wp_guarded) (simp_all add: assms)
qed

section \<open>The background threads\<close>

lemma cleanup_wp: "Releases_Chunks \<in> F \<Longrightarrow> wp me F (ends {}) (cleanup_prog E) {}"
  unfolding cleanup_prog_def
  by (rule wp_guarded, simp, simp, rule wp_access) (auto simp: data_ok_def writes_only_def filed_deletes)

lemma refresh_wp: "Throws_Locked \<in> F \<Longrightarrow> wp me F (ends {}) (refresh_prog n E) {}"
  unfolding refresh_prog_def
  by (intro wp_then [OF locking_router_ends [OF entry_idle]] sample_now_wp lookup_each_wp entry_idle)

text \<open>
  \<open>publish\<close> under the mutex of the chunks never returns: it locks the mutex it holds, or
  throws. So an iteration of the republishing thread with a chunk that is due does not return.
\<close>

lemma publish_locked_wp:
  assumes "Throws_Locked \<in> F" and "Locks_Twice \<in> F" and "Chunks_Lock \<in> H" and "Router_Lock \<notin> H"
  shows "wp me F P (publish_prog n E c force) H"
proof -
  have e: "entry F H" using assms by (simp add: entry_def)
  have lock: "wp me F P (guarded Chunks_Lock (add_chunk c)) H"
    using assms by (simp add: guarded_def)
  show ?thesis
    unfolding publish_prog_def
  proof (rule wp_seq [OF node_lookup_bound [OF e]], rule wp_then [OF store_closest_wp])
    fix ps :: "peer list" and H' d
    assume "H' = H \<and> length ps \<le> 20"
    then show "entry F H'" and "wp me F P (bind (access Other_Data
        (\<lambda>s. (length ps \<le> 20 \<or> dist_between (chunk_key c) (self_key s) \<le> d, s)))
        (\<lambda>keep. if keep then guarded Chunks_Lock (add_chunk c) else Return ())) H'"
      using e lock by (auto simp: access_def writes_only_def)
  qed
qed

lemma delete_chunk_wp:
  "Chunks_Lock \<in> H \<Longrightarrow>
     wp me F (ends H) (access Chunk_Data (\<lambda>s. (map_of (chunks s) k, s\<lparr>chunks := AList.delete k (chunks s)\<rparr>))) H"
  by (rule wp_access) (auto simp: data_ok_def writes_only_def filed_delete)

lemma republish_each_wp:
  assumes "Throws_Locked \<in> F" and "Locks_Twice \<in> F" and "Chunks_Lock \<in> H" and "Router_Lock \<notin> H"
  shows "wp me F (ends H) (republish_each_prog n E ks) H"
  by (induction ks)
     (use assms in \<open>auto split: option.split intro!: wp_then [OF delete_chunk_wp] wp_then [OF publish_locked_wp]\<close>)

lemma republish_wp:
  assumes "Throws_Locked \<in> F" and "Locks_Twice \<in> F" and "Releases_Chunks \<in> F"
  shows "wp me F (ends {}) (republish_prog n E) {}"
proof -
  have "wp me F (ends {Chunks_Lock}) (bind (access Chunk_Data
      (\<lambda>s. (due_keys (clock_at E (world s)) (chunks s), s))) (republish_each_prog n E)) {Chunks_Lock}"
    by (intro wp_then [OF wp_read] republish_each_wp assms) simp_all
  then show ?thesis
    unfolding republish_prog_def by (intro wp_guarded) (simp_all add: assms)
qed

end
