(* ===== verification/Process.thy ===== *)
theory Process
  imports Thread_Safety
begin

text \<open>
  A session with its threads: those of the gRPC server, the calls of the client, the three
  background threads and the one that starts the session and tears it down. The
  steps are those of \<open>startup\<close>, \<open>teardown\<close> and the thread management of \<open>src/dht/rpc.cpp\<close>,
  and the actions of the threads in any order.
\<close>

section \<open>Threads\<close>

datatype background = Republish | Cleanup | Refresh

datatype role = Handler | Client | Background background | Accepting | Starting | Ending

text \<open>
  \<open>code\<close> is what is left of the thread's program, \<open>held\<close> the mutexes it holds. A background
  thread that sleeps is \<open>Return True\<close>; one that left its loop is \<open>Return False\<close>.
\<close>

record 'w thread =
  role :: role
  held :: "mutex set"
  code :: "('w, bool) prog"

definition new_thread :: "role \<Rightarrow> ('w, 'a) prog \<Rightarrow> 'w thread" where
  "new_thread r p = \<lparr>role = r, held = {}, code = bind p (\<lambda>_. Return True)\<rparr>"

definition sleeping :: "background \<Rightarrow> 'w thread" where
  "sleeping b = \<lparr>role = Background b, held = {}, code = Return True\<rparr>"

definition finished :: "'w thread \<Rightarrow> bool" where
  "finished t \<longleftrightarrow> (case code t of Return _ \<Rightarrow> True | Throw _ \<Rightarrow> True | _ \<Rightarrow> False)"

text \<open>One action of a thread: \<open>None\<close> when it is finished or waits for a mutex.\<close>

primrec move :: "('w, 'a) prog \<Rightarrow> mutex set \<Rightarrow> 'w session \<Rightarrow> ('w session \<times> mutex set \<times> ('w, 'a) prog) option" where
  "move (Return x) H s = None"
| "move (Throw e) H s = None"
| "move (Act d u k) H s = Some (u s, H, k s)"
| "move (Lock m p) H s = (if locked m s then None else Some (set_lock m True s, insert m H, p))"
| "move (Unlock m p) H s = Some (set_lock m False s, H - {m}, p)"

text \<open>What a background thread does when its sleep is over.\<close>

definition iteration :: "nat \<Rightarrow> 'w env \<Rightarrow> background \<Rightarrow> ('w, unit) prog" where
  "iteration n E b = (case b of
     Republish \<Rightarrow> republish_prog n E | Cleanup \<Rightarrow> cleanup_prog E | Refresh \<Rightarrow> refresh_prog n E)"

definition wake :: "nat \<Rightarrow> 'w env \<Rightarrow> background \<Rightarrow> 'w session \<Rightarrow> ('w, bool) prog" where
  "wake n E b s = (if dying s then Return False else bind (iteration n E b) (\<lambda>_. Return True))"

text \<open>The requests of other nodes and the calls of the client.\<close>

datatype incoming =
    Find_Node find_node_request
  | Find_Value find_value_request
  | Store_Init store_init_request
  | Store_Data store_request
  | Ping ping_request

definition serve :: "nat \<Rightarrow> 'w env \<Rightarrow> incoming \<Rightarrow> 'w thread" where
  "serve n E r = (case r of
     Find_Node q \<Rightarrow> new_thread Handler (find_node_handler n E q)
   | Find_Value q \<Rightarrow> new_thread Handler (find_value_handler n E q)
   | Store_Init q \<Rightarrow> new_thread Handler (store_init_handler n E q)
   | Store_Data q \<Rightarrow> new_thread Handler (store_handler n E q)
   | Ping q \<Rightarrow> new_thread Handler (ping_handler n E q))"

datatype call = Set_Call key string bool | Get_Call key

definition client_call :: "nat \<Rightarrow> 'w env \<Rightarrow> call \<Rightarrow> 'w thread" where
  "client_call n E c = (case c of
     Set_Call k data force \<Rightarrow> new_thread Client (set_prog n E k data force)
   | Get_Call k \<Rightarrow> new_thread Client (get_prog n E k))"

section \<open>The process of a session\<close>

text \<open>
  The phases of the thread that owns the session: in \<open>startup\<close>; idle; in \<open>teardown\<close>
  waiting for the server, for the background threads, handing over the chunks; at the end.
  The argument tells whether \<open>teardown\<close> republishes.
\<close>

datatype phase =
    Starting_Up
  | Running
  | Shutting_Down bool
  | Joining_Threads bool "background list"
  | Handing_Over
  | Destroyed

record 'w process =
  shared :: "'w session"
  phase :: phase
  serving :: bool
  threads :: "'w thread list"
  freed :: "peer list"

text \<open>
  \<open>BuildAndStart\<close> returns a null pointer when it cannot listen on the port, and nobody checks
  it: \<open>bound\<close> tells whether it could. The server thread stays in \<open>Wait\<close> until the server is
  shut down.
\<close>

definition handler_thread_fn :: "bool \<Rightarrow> ('w, bool) prog" where
  "handler_thread_fn bound = (if bound then Return True else Throw Null_Pointer)"

definition init_server :: "bool \<Rightarrow> 'w process \<Rightarrow> 'w process" where
  "init_server bound \<sigma> = \<sigma>\<lparr>serving := bound,
     threads := threads \<sigma> @ [\<lparr>role = Accepting, held = {}, code = handler_thread_fn bound\<rparr>]\<rparr>"

definition init_rpc_threads :: "'w process \<Rightarrow> 'w process" where
  "init_rpc_threads \<sigma> = \<sigma>\<lparr>threads := threads \<sigma> @ map sleeping [Republish, Cleanup, Refresh]\<rparr>"

text \<open>\<open>startup\<close> after it made the router: the server, the background threads, then the join.\<close>

definition launch :: "bool \<Rightarrow> nat \<Rightarrow> nat \<Rightarrow> 'w env \<Rightarrow> key \<Rightarrow> key \<Rightarrow> string \<Rightarrow> 'w session \<Rightarrow> 'w process" where
  "launch bound patience n E sk temp_key init_ep s =
     (let \<sigma> = \<lparr>shared = s, phase = Starting_Up, serving = False, threads = [], freed = []\<rparr>;
          \<sigma> = init_rpc_threads (init_server bound \<sigma>)
      in \<sigma>\<lparr>threads := threads \<sigma> @ [new_thread Starting (join_prog patience n E sk temp_key init_ep)]\<rparr>)"

text \<open>\<open>teardown\<close>: the session is marked as dying and the server takes no more requests.\<close>

definition begin_teardown :: "bool \<Rightarrow> 'w process \<Rightarrow> 'w process" where
  "begin_teardown do_republish \<sigma> =
     \<sigma>\<lparr>shared := (shared \<sigma>)\<lparr>dying := True\<rparr>, serving := False, phase := Shutting_Down do_republish\<rparr>"

text \<open>
  \<open>shutdown_server\<close> returns when the requests the server took are finished: gRPC's \<open>Shutdown\<close>
  waits for them, and then \<open>Wait\<close> returns in \<open>handler_thread_fn\<close>.
\<close>

definition server_idle :: "'w process \<Rightarrow> bool" where
  "server_idle \<sigma> \<longleftrightarrow> (\<forall>t\<in>set (threads \<sigma>). role t = Handler \<longrightarrow> finished t)"

text \<open>A background thread can be joined when it has returned.\<close>

definition has_returned :: "background \<Rightarrow> 'w process \<Rightarrow> bool" where
  "has_returned b \<sigma> \<longleftrightarrow> (\<forall>t\<in>set (threads \<sigma>). role t = Background b \<longrightarrow> code t = Return False)"

text \<open>The destructors of the tree and of the router, as the peers they free.\<close>

fun delete_tree :: "bintree \<Rightarrow> peer list" where
  "delete_tree (Leaf b c a kb) = kb"
| "delete_tree (Joint b c a zt ot) = delete_tree zt @ delete_tree ot"

definition delete_router :: "router \<Rightarrow> peer list" where
  "delete_router r = self_peer r # delete_tree (table r)"

text \<open>An exception that leaves a thread ends the process, unless gRPC catches it in a handler.\<close>

definition crashed :: "'w process \<Rightarrow> bool" where
  "crashed \<sigma> \<longleftrightarrow> (\<exists>t\<in>set (threads \<sigma>). role t \<noteq> Handler \<and> (case code t of Throw _ \<Rightarrow> True | _ \<Rightarrow> False))"

text \<open>
  The steps. Between two of them the rest of the world may have changed. The client calls
  the session while it is running, and tears it down when its calls have returned; so
  \<open>CommandControl\<close> does.
\<close>

inductive process_step :: "nat \<Rightarrow> 'w env \<Rightarrow> 'w process \<Rightarrow> 'w process \<Rightarrow> bool" for n E where
  thread_moves:
    "\<not> crashed \<sigma> \<Longrightarrow> i < length (threads \<sigma>) \<Longrightarrow> t = threads \<sigma> ! i \<Longrightarrow>
     move (code t) (held t) ((shared \<sigma>)\<lparr>world := w\<rparr>) = Some (s, H, p) \<Longrightarrow>
     process_step n E \<sigma> (\<sigma>\<lparr>shared := s, threads := (threads \<sigma>)[i := t\<lparr>held := H, code := p\<rparr>]\<rparr>)"
| thread_wakes:
    "\<not> crashed \<sigma> \<Longrightarrow> i < length (threads \<sigma>) \<Longrightarrow> t = threads \<sigma> ! i \<Longrightarrow>
     role t = Background b \<Longrightarrow> code t = Return True \<Longrightarrow>
     process_step n E \<sigma> (\<sigma>\<lparr>threads := (threads \<sigma>)[i := t\<lparr>code := wake n E b (shared \<sigma>)\<rparr>]\<rparr>)"
| request_arrives:
    "\<not> crashed \<sigma> \<Longrightarrow> serving \<sigma> \<Longrightarrow>
     process_step n E \<sigma> (\<sigma>\<lparr>threads := threads \<sigma> @ [serve n E r]\<rparr>)"
| client_calls:
    "\<not> crashed \<sigma> \<Longrightarrow> phase \<sigma> = Running \<Longrightarrow>
     process_step n E \<sigma> (\<sigma>\<lparr>threads := threads \<sigma> @ [client_call n E c]\<rparr>)"
| startup_returns:
    "\<not> crashed \<sigma> \<Longrightarrow> phase \<sigma> = Starting_Up \<Longrightarrow>
     \<forall>t\<in>set (threads \<sigma>). role t = Starting \<longrightarrow> finished t \<Longrightarrow>
     process_step n E \<sigma> (\<sigma>\<lparr>phase := Running\<rparr>)"
| teardown_begins:
    "\<not> crashed \<sigma> \<Longrightarrow> phase \<sigma> = Running \<Longrightarrow>
     \<forall>t\<in>set (threads \<sigma>). role t = Client \<longrightarrow> finished t \<Longrightarrow>
     process_step n E \<sigma> (begin_teardown b \<sigma>)"
| server_shut_down:
    "\<not> crashed \<sigma> \<Longrightarrow> phase \<sigma> = Shutting_Down b \<Longrightarrow> server_idle \<sigma> \<Longrightarrow>
     process_step n E \<sigma> (\<sigma>\<lparr>phase := Joining_Threads b [Republish, Cleanup, Refresh]\<rparr>)"
| thread_joined:
    "\<not> crashed \<sigma> \<Longrightarrow> phase \<sigma> = Joining_Threads b (x # xs) \<Longrightarrow> has_returned x \<sigma> \<Longrightarrow>
     process_step n E \<sigma> (\<sigma>\<lparr>phase := Joining_Threads b xs\<rparr>)"
| hand_over_begins:
    "\<not> crashed \<sigma> \<Longrightarrow> phase \<sigma> = Joining_Threads b [] \<Longrightarrow>
     process_step n E \<sigma> (\<sigma>\<lparr>phase := Handing_Over,
       threads := threads \<sigma> @ [new_thread Ending (teardown_prog n E b)]\<rparr>)"
| teardown_returns:
    "\<not> crashed \<sigma> \<Longrightarrow> phase \<sigma> = Handing_Over \<Longrightarrow>
     \<forall>t\<in>set (threads \<sigma>). role t = Ending \<longrightarrow> finished t \<Longrightarrow>
     process_step n E \<sigma> (\<sigma>\<lparr>phase := Destroyed, freed := delete_router (router_of (shared \<sigma>))\<rparr>)"

text \<open>The states a session can be in: it starts without chunks and with free mutexes.\<close>

inductive reachable_process ::
  "bool \<Rightarrow> nat \<Rightarrow> nat \<Rightarrow> 'w env \<Rightarrow> (nat \<Rightarrow> bool) \<Rightarrow> (nat \<Rightarrow> bool) \<Rightarrow> string \<Rightarrow> string \<Rightarrow> 'w process \<Rightarrow> bool"
  for bound patience n E draw_self draw_temp self_ep init_ep where
  initially:
    "chunks s0 = [] \<Longrightarrow> \<not> router_locked s0 \<Longrightarrow> \<not> chunks_locked s0 \<Longrightarrow>
     startup_begin E draw_self draw_temp self_ep init_ep s0 = Inr ((), s) \<Longrightarrow>
     reachable_process bound patience n E draw_self draw_temp self_ep init_ep
       (launch bound patience n E (random_key draw_self) (random_key draw_temp) init_ep s)"
| later:
    "reachable_process bound patience n E draw_self draw_temp self_ep init_ep \<sigma> \<Longrightarrow> process_step n E \<sigma> \<tau> \<Longrightarrow>
     reachable_process bound patience n E draw_self draw_temp self_ep init_ep \<tau>"

end
