(* ===== verification/Process_Invariant.thy ===== *)
theory Process_Invariant
  imports Process
begin

text \<open>
  The invariant of a session with its threads: the data is well formed, every thread keeps
  to its weakest precondition, every mutex is held by at most one thread and locked just
  when one holds it, and the phases are what the code makes them.
\<close>

section \<open>Mutexes\<close>

definition mutexes_ok :: "'w session \<Rightarrow> mutex set list \<Rightarrow> bool" where
  "mutexes_ok s hs \<longleftrightarrow> (\<forall>m. locked m s \<longleftrightarrow> (\<exists>i<length hs. m \<in> hs ! i)) \<and>
     (\<forall>m i j. i < length hs \<longrightarrow> j < length hs \<longrightarrow> m \<in> hs ! i \<longrightarrow> m \<in> hs ! j \<longrightarrow> i = j)"

lemma mutex_owner:
  "mutexes_ok s hs \<Longrightarrow> i < length hs \<Longrightarrow> j < length hs \<Longrightarrow> m \<in> hs ! i \<Longrightarrow> m \<in> hs ! j \<Longrightarrow> i = j"
  by (simp add: mutexes_ok_def)

lemma mutex_locked: "mutexes_ok s hs \<Longrightarrow> locked m s \<longleftrightarrow> (\<exists>i<length hs. m \<in> hs ! i)"
  by (simp add: mutexes_ok_def)

lemma locked_set_lock: "locked m (set_lock l b s) \<longleftrightarrow> (if m = l then b else locked m s)"
  by (cases m; cases l) auto

lemma mutexes_same: "mutexes_ok s hs \<Longrightarrow> (\<And>m. locked m t = locked m s) \<Longrightarrow> mutexes_ok t hs"
  by (simp add: mutexes_ok_def)

lemma mutexes_lock:
  assumes ok: "mutexes_ok s hs" and i: "i < length hs" and "\<not> locked m s"
  shows "mutexes_ok (set_lock m True s) (hs[i := insert m (hs ! i)])"
proof -
  let ?hs = "hs[i := insert m (hs ! i)]"
  have free: "m \<notin> hs ! j" if "j < length hs" for j
    using assms(3) that mutex_locked [OF ok] by auto
  have "\<forall>l. locked l (set_lock m True s) \<longleftrightarrow> (\<exists>j<length ?hs. l \<in> ?hs ! j)"
    using i mutex_locked [OF ok] by (auto simp: locked_set_lock nth_list_update)
  moreover have "\<forall>l j k. j < length ?hs \<longrightarrow> k < length ?hs \<longrightarrow> l \<in> ?hs ! j \<longrightarrow> l \<in> ?hs ! k \<longrightarrow> j = k"
    using free mutex_owner [OF ok] i by (auto simp: nth_list_update split: if_splits)
  ultimately show ?thesis by (simp add: mutexes_ok_def)
qed

lemma mutexes_unlock:
  assumes ok: "mutexes_ok s hs" and i: "i < length hs" and m: "m \<in> hs ! i"
  shows "mutexes_ok (set_lock m False s) (hs[i := hs ! i - {m}])"
proof -
  let ?hs = "hs[i := hs ! i - {m}]"
  have "locked l (set_lock m False s) \<longleftrightarrow> (\<exists>j<length ?hs. l \<in> ?hs ! j)" for l
  proof (cases "l = m")
    case True
    then show ?thesis
      using mutex_owner [OF ok _ i _ m] i by (auto simp: locked_set_lock nth_list_update)
  next
    case False
    then show ?thesis
      using i mutex_locked [OF ok, of l] by (auto simp: locked_set_lock nth_list_update)
  qed
  moreover have "\<forall>l j k. j < length ?hs \<longrightarrow> k < length ?hs \<longrightarrow> l \<in> ?hs ! j \<longrightarrow> l \<in> ?hs ! k \<longrightarrow> j = k"
    using mutex_owner [OF ok] i by (auto simp: nth_list_update split: if_splits)
  ultimately show ?thesis by (simp add: mutexes_ok_def)
qed

lemma mutexes_new: "mutexes_ok s hs \<Longrightarrow> mutexes_ok s (hs @ [{}])"
  by (auto simp: mutexes_ok_def nth_append less_Suc_eq)

section \<open>Threads\<close>

text \<open>The permits of each role: only the republishing thread locks a mutex twice.\<close>

definition permits :: "role \<Rightarrow> permit set" where
  "permits r = (case r of
     Handler \<Rightarrow> {Releases_Chunks}
   | Client \<Rightarrow> {Releases_Chunks}
   | Background b \<Rightarrow> insert Releases_Chunks
       (if b = Republish then {Throws_Locked, Locks_Twice} else {Throws_Locked})
   | _ \<Rightarrow> {Throws_Locked, Releases_Chunks})"

definition thread_ok :: "peer \<Rightarrow> 'w thread \<Rightarrow> bool" where
  "thread_ok me t \<longleftrightarrow> wp me (permits (role t)) (\<lambda>_ H. H = {}) (code t) (held t)"

lemma new_thread_ok:
  "(\<And>F. permits r \<subseteq> F \<Longrightarrow> wp me F (ends {}) p {}) \<Longrightarrow> thread_ok me (new_thread r p)"
  by (simp add: thread_ok_def new_thread_def wp_bind)

lemma serve_ok: "thread_ok me (serve n E r)"
  unfolding serve_def
  by (auto simp: permits_def split: incoming.split intro!: new_thread_ok find_node_handler_wp find_value_handler_wp
      store_init_handler_wp store_handler_wp ping_handler_wp)

lemma client_call_ok: "thread_ok me (client_call n E c)"
  unfolding client_call_def by (auto simp: permits_def split: call.split intro!: new_thread_ok set_wp get_wp)

lemma iteration_wp: "permits (Background b) \<subseteq> F \<Longrightarrow> wp me F (ends {}) (iteration n E b) {}"
  by (cases b) (auto simp: iteration_def permits_def intro!: republish_wp cleanup_wp refresh_wp)

lemma wake_wp: "wp me (permits (Background b)) (\<lambda>_ H. H = {}) (wake n E b s) {}"
  by (simp add: wake_def wp_bind iteration_wp)

text \<open>A move of a thread keeps the data and its weakest precondition.\<close>

lemma move_ok:
  assumes "wp me F P p H" and "data_ok me s" and "\<forall>m\<in>H. locked m s"
    and "move p H s = Some (t, H', q)"
  shows "data_ok me t" and "wp me F P q H'" and "dying t = dying s"
    and "(\<forall>m. locked m t = locked m s) \<and> H' = H \<or>
         (\<exists>m. \<not> locked m s \<and> t = set_lock m True s \<and> H' = insert m H) \<or>
         (\<exists>m. m \<in> H \<and> t = set_lock m False s \<and> H' = H - {m})"
proof -
  have lock: "data_ok me (set_lock m b s)" "dying (set_lock m b s) = dying s" for m b
    using assms(2) by (cases m; simp add: data_ok_def)+
  note cases = assms lock
  show "data_ok me t" using cases by (cases p) (auto split: if_splits)
  show "wp me F P q H'" using cases by (cases p) (auto split: if_splits)
  show "dying t = dying s" using cases by (cases p) (auto simp: writes_only_def split: if_splits)
  show "(\<forall>m. locked m t = locked m s) \<and> H' = H \<or>
         (\<exists>m. \<not> locked m s \<and> t = set_lock m True s \<and> H' = insert m H) \<or>
         (\<exists>m. m \<in> H \<and> t = set_lock m False s \<and> H' = H - {m})"
    using cases by (cases p) (auto simp: writes_only_def split: if_splits)
qed

section \<open>The invariant\<close>

definition threads_ok :: "peer \<Rightarrow> 'w process \<Rightarrow> bool" where
  "threads_ok me \<sigma> \<longleftrightarrow> data_ok me (shared \<sigma>) \<and> (\<forall>t\<in>set (threads \<sigma>). thread_ok me t) \<and>
     mutexes_ok (shared \<sigma>) (map held (threads \<sigma>))"

definition quiet :: "role \<Rightarrow> 'w process \<Rightarrow> bool" where
  "quiet r \<sigma> \<longleftrightarrow> (\<forall>t\<in>set (threads \<sigma>). role t = r \<longrightarrow> finished t)"

text \<open>The background threads that \<open>shutdown_rpc_threads\<close> has still to join.\<close>

fun awaited :: "phase \<Rightarrow> background list" where
  "awaited (Joining_Threads b xs) = xs"
| "awaited Handing_Over = []"
| "awaited Destroyed = []"
| "awaited _ = [Republish, Cleanup, Refresh]"

definition phase_ok :: "'w process \<Rightarrow> bool" where
  "phase_ok \<sigma> \<longleftrightarrow>
     (\<forall>b. Background b \<in> role ` set (threads \<sigma>)) \<and>
     (serving \<sigma> \<longrightarrow> phase \<sigma> \<in> {Starting_Up, Running}) \<and>
     (dying (shared \<sigma>) \<longleftrightarrow> phase \<sigma> \<notin> {Starting_Up, Running}) \<and>
     quiet Accepting \<sigma> \<and>
     (phase \<sigma> \<noteq> Starting_Up \<longrightarrow> quiet Starting \<sigma>) \<and>
     (phase \<sigma> \<notin> {Starting_Up, Running} \<longrightarrow> quiet Client \<sigma>) \<and>
     (phase \<sigma> \<notin> {Starting_Up, Running} \<union> range Shutting_Down \<longrightarrow> quiet Handler \<sigma>) \<and>
     (\<forall>b. b \<notin> set (awaited (phase \<sigma>)) \<longrightarrow> has_returned b \<sigma>) \<and>
     (phase \<sigma> = Destroyed \<longrightarrow> quiet Ending \<sigma>)"

lemma quiet_update:
  assumes "quiet r \<sigma>" and "i < length (threads \<sigma>)" and "role t = role (threads \<sigma> ! i)"
    and "\<not> finished (threads \<sigma> ! i) \<or> role t \<noteq> r"
  shows "quiet r (\<sigma>\<lparr>threads := (threads \<sigma>)[i := t]\<rparr>)"
proof -
  have "role t \<noteq> r" using assms by (auto simp: quiet_def)
  with assms(1) set_update_subset_insert [of "threads \<sigma>" i t] show ?thesis
    by (auto simp: quiet_def)
qed

lemma returned_update:
  assumes "has_returned b \<sigma>" and "i < length (threads \<sigma>)" and "role t = role (threads \<sigma> ! i)"
    and "code (threads \<sigma> ! i) \<noteq> Return False"
  shows "has_returned b (\<sigma>\<lparr>threads := (threads \<sigma>)[i := t]\<rparr>)"
proof -
  have "role t \<noteq> Background b" using assms by (auto simp: has_returned_def)
  with assms(1) set_update_subset_insert [of "threads \<sigma>" i t] show ?thesis
    by (auto simp: has_returned_def)
qed

lemma roles_update:
  assumes "i < length ts" and "role t = role (ts ! i)"
  shows "role ` set (ts[i := t]) = role ` set ts"
proof -
  have "map role (ts[i := t]) = map role ts"
    using assms by (metis list_update_id map_update nth_map)
  then show ?thesis by (metis set_map)
qed

lemma finished_stays: "finished t \<Longrightarrow> move (code t) H s = None"
  by (cases "code t") (simp_all add: finished_def)

lemma phase_ok_update:
  assumes "phase_ok \<sigma>" and "i < length (threads \<sigma>)" and "role t = role (threads \<sigma> ! i)"
    and "\<not> finished (threads \<sigma> ! i) \<or> (\<exists>b. role t = Background b) \<and> code (threads \<sigma> ! i) = Return True"
    and "dying s = dying (shared \<sigma>)"
  shows "phase_ok (\<sigma>\<lparr>shared := s, threads := (threads \<sigma>)[i := t]\<rparr>)"
proof -
  let ?\<tau> = "\<sigma>\<lparr>threads := (threads \<sigma>)[i := t]\<rparr>"
  have r: "code (threads \<sigma> ! i) \<noteq> Return False"
    using assms(4) by (auto simp: finished_def)
  have q: "quiet c \<sigma> \<Longrightarrow> quiet c ?\<tau>" if "\<forall>b. c \<noteq> Background b" for c
    using that assms(4) by (intro quiet_update assms(2,3)) auto
  have b: "has_returned b \<sigma> \<Longrightarrow> has_returned b ?\<tau>" for b
    by (intro returned_update assms(2,3) r)
  have "phase_ok ?\<tau>"
    using assms(1) q b roles_update [OF assms(2,3)] by (simp add: phase_ok_def)
  then show ?thesis using assms(5) by (simp add: phase_ok_def quiet_def has_returned_def)
qed

lemma threads_ok_update:
  assumes "threads_ok me \<sigma>" and "i < length (threads \<sigma>)" and "thread_ok me t"
    and "data_ok me s" and "mutexes_ok s ((map held (threads \<sigma>))[i := held t])"
  shows "threads_ok me (\<sigma>\<lparr>shared := s, threads := (threads \<sigma>)[i := t]\<rparr>)"
  using assms set_update_subset_insert [of "threads \<sigma>" i t] by (auto simp: threads_ok_def map_update)

lemma move_keeps:
  assumes "threads_ok me \<sigma>" and i: "i < length (threads \<sigma>)" and t: "t = threads \<sigma> ! i"
    and m: "move (code t) (held t) ((shared \<sigma>)\<lparr>world := w\<rparr>) = Some (s, H, p)"
  shows "threads_ok me (\<sigma>\<lparr>shared := s, threads := (threads \<sigma>)[i := t\<lparr>held := H, code := p\<rparr>]\<rparr>)"
    and "dying s = dying (shared \<sigma>)"
proof -
  let ?s = "(shared \<sigma>)\<lparr>world := w\<rparr>" and ?hs = "map held (threads \<sigma>)"
  have hi: "?hs ! i = held t" "i < length ?hs" using i t by simp_all
  have ok: "mutexes_ok ?s ?hs" "data_ok me ?s"
    using assms(1) by (simp_all add: threads_ok_def mutexes_ok_def data_ok_def)
  have "thread_ok me t" using assms(1) i t by (simp add: threads_ok_def)
  then have wp: "wp me (permits (role t)) (\<lambda>_ H. H = {}) (code t) (held t)" by (simp add: thread_ok_def)
  have l: "\<forall>m\<in>held t. locked m ?s"
    using mutex_locked [OF ok(1)] hi by auto
  note res = move_ok [OF wp ok(2) l m]
  have "mutexes_ok s (?hs[i := H])"
    using res(4)
  proof (elim disjE conjE exE)
    assume "\<forall>m. locked m s = locked m ?s" and "H = held t"
    then show ?thesis using mutexes_same [OF ok(1), of s] hi list_update_id [of ?hs i] by simp
  next
    fix m
    assume "\<not> locked m ?s" and "s = set_lock m True ?s" and "H = insert m (held t)"
    with mutexes_lock [OF ok(1) hi(2)] hi(1) show ?thesis by simp
  next
    fix m
    assume "m \<in> held t" and "s = set_lock m False ?s" and "H = held t - {m}"
    with mutexes_unlock [OF ok(1) hi(2)] hi(1) show ?thesis by simp
  qed
  with res assms(1) show "threads_ok me (\<sigma>\<lparr>shared := s, threads := (threads \<sigma>)[i := t\<lparr>held := H, code := p\<rparr>]\<rparr>)"
    by (intro threads_ok_update i) (simp_all add: thread_ok_def)
  from res(3) show "dying s = dying (shared \<sigma>)" by simp
qed

lemma threads_ok_new:
  "threads_ok me \<sigma> \<Longrightarrow> thread_ok me t \<Longrightarrow> held t = {} \<Longrightarrow> threads_ok me (\<sigma>\<lparr>threads := threads \<sigma> @ [t]\<rparr>)"
  by (auto simp: threads_ok_def intro: mutexes_new)

lemma held_new [simp]: "held (new_thread r p) = {}" "held (serve n E q) = {}" "held (client_call n E c) = {}"
  by (simp_all add: new_thread_def serve_def client_call_def split: incoming.split call.split)

lemma role_new [simp]:
  "role (new_thread r p) = r" "role (serve n E q) = Handler" "role (client_call n E c) = Client"
  by (simp_all add: new_thread_def serve_def client_call_def split: incoming.split call.split)

lemma process_step_threads:
  assumes "process_step n E \<sigma> \<tau>" and "threads_ok me \<sigma>"
  shows "threads_ok me \<tau>"
  using assms
proof cases
  case (thread_moves i t w s H p)
  with assms(2) show ?thesis using move_keeps(1) by metis
next
  case (thread_wakes i t b)
  have "thread_ok me t" using assms(2) thread_wakes(3,4) by (simp add: threads_ok_def)
  then have h: "held t = {}" by (simp only: thread_ok_def thread_wakes(6) wp.simps)
  have "threads_ok me (\<sigma>\<lparr>shared := shared \<sigma>, threads := (threads \<sigma>)[i := t\<lparr>code := wake n E b (shared \<sigma>)\<rparr>]\<rparr>)"
  proof (rule threads_ok_update [OF assms(2) thread_wakes(3)])
    show "thread_ok me (t\<lparr>code := wake n E b (shared \<sigma>)\<rparr>)"
      using thread_wakes h by (simp add: thread_ok_def wake_wp)
    have "map held (threads \<sigma>) ! i = held t" using thread_wakes by simp
    then show "mutexes_ok (shared \<sigma>) ((map held (threads \<sigma>))[i := held (t\<lparr>code := wake n E b (shared \<sigma>)\<rparr>)])"
      using assms(2) list_update_id [of "map held (threads \<sigma>)" i] by (simp add: threads_ok_def)
  qed (use assms(2) in \<open>simp add: threads_ok_def\<close>)
  with thread_wakes show ?thesis by simp
next
  case (hand_over_begins b)
  have "threads_ok me (\<sigma>\<lparr>threads := threads \<sigma> @ [new_thread Ending (teardown_prog n E b)]\<rparr>)"
    by (intro threads_ok_new assms(2) new_thread_ok teardown_wp) (auto simp: permits_def)
  with hand_over_begins show ?thesis by (simp add: threads_ok_def)
next
  case (teardown_begins b)
  with assms(2) show ?thesis by (simp add: begin_teardown_def threads_ok_def data_ok_def mutexes_ok_def)
qed (auto intro!: mutexes_new serve_ok client_call_ok simp: assms(2) threads_ok_def)

lemma process_step_phase:
  assumes "process_step n E \<sigma> \<tau>" and ok: "phase_ok \<sigma>" and "threads_ok me \<sigma>"
  shows "phase_ok \<tau>"
  using assms(1)
proof cases
  case (thread_moves i t w s H p)
  have "\<not> finished t" using thread_moves(5) finished_stays by fastforce
  with thread_moves ok move_keeps(2) [OF assms(3) thread_moves(3,4,5)] show ?thesis
    by (auto intro!: phase_ok_update)
next
  case (thread_wakes i t b)
  have "phase_ok (\<sigma>\<lparr>shared := shared \<sigma>, threads := (threads \<sigma>)[i := t\<lparr>code := wake n E b (shared \<sigma>)\<rparr>]\<rparr>)"
    using thread_wakes ok by (intro phase_ok_update) auto
  with thread_wakes show ?thesis by simp
next
  case (request_arrives r)
  with ok show ?thesis by (auto simp: phase_ok_def quiet_def has_returned_def)
next
  case (client_calls c)
  with ok show ?thesis by (auto simp: phase_ok_def quiet_def has_returned_def)
next
  case startup_returns
  with ok show ?thesis by (auto simp: phase_ok_def quiet_def has_returned_def)
next
  case (teardown_begins b)
  with ok show ?thesis by (auto simp: begin_teardown_def phase_ok_def quiet_def has_returned_def)
next
  case (server_shut_down b)
  then have b: "x \<in> set (awaited (phase \<tau>))" for x by (cases x) simp_all
  with server_shut_down ok show ?thesis
    by (auto simp: phase_ok_def quiet_def has_returned_def server_idle_def)
next
  case (thread_joined b x xs)
  have "has_returned c \<sigma>" if "c \<notin> set xs" for c
    using that thread_joined ok by (cases "c = x") (auto simp: phase_ok_def)
  with thread_joined ok show ?thesis by (auto simp: phase_ok_def quiet_def has_returned_def)
next
  case (hand_over_begins b)
  with ok show ?thesis by (auto simp: phase_ok_def quiet_def has_returned_def)
next
  case teardown_returns
  with ok show ?thesis by (auto simp: phase_ok_def quiet_def has_returned_def)
qed

section \<open>Reachable states\<close>

lemma new_router_self: "self_peer (new_router now sk ep k other) = \<lparr>pkey = sk, endpoint = ep\<rparr>"
  by (simp add: new_router_def router.self_insert)

lemma launch_ok:
  assumes "chunks s0 = []" and "\<not> router_locked s0" and "\<not> chunks_locked s0"
    and "startup_begin E ds dt self_ep init_ep s0 = Inr ((), s)"
  shows "threads_ok \<lparr>pkey = random_key ds, endpoint = self_ep\<rparr> (launch bound patience n E sk tk init_ep s)"
    and "phase_ok (launch bound patience n E sk tk init_ep s)"
proof -
  let ?me = "\<lparr>pkey = random_key ds, endpoint = self_ep\<rparr>"
  have s: "s = s0\<lparr>dying := False, router_locked := False,
      router_of := new_router (now_at E (world s0)) (random_key ds) self_ep (random_key dt) init_ep\<rparr>"
    using assms(2,4) by (auto simp: startup_begin_def lock_router_def unlock_router_def Let_def)
  have "data_ok ?me s"
    using assms(1) new_router_wf router.self_insert by (simp add: s data_ok_def filed_def new_router_self)
  moreover have "\<not> locked m s" for m
    using assms(3) by (cases m) (simp_all add: s)
  then have "mutexes_ok s [{}, {}, {}, {}, {}]"
    by (auto simp: mutexes_ok_def nth_Cons split: nat.splits)
  moreover have "thread_ok ?me (new_thread Starting (join_prog patience n E sk tk init_ep))"
    by (rule new_thread_ok) (auto intro: join_wp simp: permits_def)
  ultimately show "threads_ok ?me (launch bound patience n E sk tk init_ep s)"
    by (simp add: launch_def Let_def threads_ok_def init_server_def init_rpc_threads_def sleeping_def
        thread_ok_def handler_thread_fn_def permits_def)
  have "\<exists>t\<in>set (map sleeping [Republish, Cleanup, Refresh]). role t = Background b" for b
    by (cases b) (simp_all add: sleeping_def)
  moreover have "b \<in> set [Republish, Cleanup, Refresh]" for b by (cases b) simp_all
  ultimately show "phase_ok (launch bound patience n E sk tk init_ep s)"
    by (auto simp: launch_def Let_def phase_ok_def init_server_def init_rpc_threads_def quiet_def
        finished_def handler_thread_fn_def sleeping_def s image_iff)
qed

lemma reachable_ok:
  assumes "reachable_process bound patience n E ds dt self_ep init_ep \<sigma>"
  shows "threads_ok \<lparr>pkey = random_key ds, endpoint = self_ep\<rparr> \<sigma>" and "phase_ok \<sigma>"
proof -
  have "threads_ok \<lparr>pkey = random_key ds, endpoint = self_ep\<rparr> \<sigma> \<and> phase_ok \<sigma>"
    using assms
  proof induction
    case (initially s0 s)
    then show ?case by (intro conjI launch_ok)
  next
    case (later \<sigma> \<tau>)
    then show ?case using process_step_threads process_step_phase by blast
  qed
  then show "threads_ok \<lparr>pkey = random_key ds, endpoint = self_ep\<rparr> \<sigma>" and "phase_ok \<sigma>" by blast+
qed

end
