(* ===== verification/Thread_Runs.thy ===== *)
theory Thread_Runs
  imports Programs
begin

text \<open>
  Executed without interruption and with two rounds for \<open>update_peer\<close>, the programs of
  \<open>Programs\<close> are the operations of \<open>Rpc\<close>, \<open>Lookup\<close> and \<open>Session\<close>.
\<close>

named_theorems runs

lemma run_guarded_router:
  "run (guarded Router_Lock p) s =
     and_then (lock_router s) (\<lambda>(_, s). and_then (run p s) (\<lambda>(x, s). Inr (x, unlock_router s)))"
  by (simp add: guarded_def lock_router_def unlock_router_def)

lemma run_guarded_chunks:
  "run (guarded Chunks_Lock p) s =
     and_then (lock_chunks s) (\<lambda>(_, s). and_then (run p s) (\<lambda>(x, s). Inr (x, unlock_chunks s)))"
  by (simp add: guarded_def lock_chunks_def unlock_chunks_def)

lemmas run_actions =
  run_guarded_router run_guarded_chunks rpc_call_def evict_now_def insert_now_def closest_now_def
  add_chunk_def and_then_assoc split_def Let_def

lemma run_ping [runs]: "run (ping_prog E p) s = ping E p s"
  by (simp add: ping_prog_def ping_def run_actions split: option.split)

lemma run_update_loop: "run (update_peer_prog n E k ep) s = update_peer_loop n E k ep s"
  by (induction n arbitrary: s)
     (auto simp: update_peer_loop.simps run_ping run_actions
       split: option.split intro!: and_then_cong)

lemma run_update [runs]: "run (update_peer_prog 2 E k ep) s = update_peer E k ep s"
  by (simp add: run_update_loop update_peer_def)

lemma run_epilogue [runs]: "run (caller_epilogue_prog 2 E rp) s = rpc_caller_epilogue E rp s"
  by (simp add: caller_epilogue_prog_def rpc_caller_epilogue_def runs and_then_assoc)

lemma run_prelims [runs]: "run (handler_prelims_prog 2 E rp) s = rpc_handler_prelims E rp s"
  by (simp add: handler_prelims_prog_def rpc_handler_prelims_def runs run_actions)

lemma run_add_closest [runs]: "run (add_closest_prog 2 E rps buffer) s = add_closest_peers E rps buffer s"
  by (induction rps arbitrary: buffer s)
     (auto simp: runs run_actions intro!: and_then_cong)

lemma run_find_node [runs]: "run (find_node_prog 2 E p k buffer) s = find_node E p k buffer s"
  by (simp add: find_node_prog_def find_node_def runs run_actions split: option.split)

lemma run_find_value [runs]: "run (find_value_prog 2 E p k buffer) s = find_value E p k buffer s"
  by (auto simp: find_value_prog_def find_value_def runs run_actions split: option.split intro!: and_then_cong)

lemma run_store [runs]: "run (store_prog 2 E p c force) s = store E p c force s"
  by (auto simp: store_prog_def store_def runs run_actions split: option.split intro!: and_then_cong)

section \<open>Handlers\<close>

lemma run_find_node_handler: "run (find_node_handler 2 E r) s = handle_find_node E r s"
  by (simp add: find_node_handler_def handle_find_node_def runs run_actions)

lemma run_find_value_handler: "run (find_value_handler 2 E r) s = handle_find_value E r s"
  by (auto simp: find_value_handler_def handle_find_value_def runs run_actions lock_chunks_def
      split: option.split intro!: and_then_cong)

lemma run_store_init_handler: "run (store_init_handler 2 E r) s = handle_store_init E r s"
  by (auto simp: store_init_handler_def handle_store_init_def runs run_actions lock_chunks_def
      intro!: and_then_cong)

lemma run_store_handler: "run (store_handler 2 E r) s = handle_store E r s"
  by (simp add: store_handler_def handle_store_def runs run_actions)

lemma run_ping_handler: "run (ping_handler 2 E r) s = handle_ping E r s"
  by (simp add: ping_handler_def handle_ping_def runs run_actions)

section \<open>Lookups\<close>

lemma run_query:
  assumes "found_data q = None"
  obtains e where "run (query_prog 2 E kind k p (closest_buffer q)) s = Inl e"
      and "query_fn E kind k p q s = Inl e"
  | halt ok grown data t
    where "run (query_prog 2 E kind k p (closest_buffer q)) s = Inr ((halt, ok, grown, data), t)"
      and "query_fn E kind k p q s = Inr ((halt, q\<lparr>closest_buffer := grown,
             status_ctr := (if ok then Suc (status_ctr q) else status_ctr q), found_data := data\<rparr>), t)"
      and "\<not> ok \<Longrightarrow> grown = closest_buffer q" and "halt \<longleftrightarrow> data \<noteq> None"
proof (cases kind)
  case Node_Query
  show thesis
  proof (cases "find_node E p k (closest_buffer q) s")
    case (Inl e)
    with Node_Query show thesis by (intro that(1)) (simp_all add: query_prog_def query_fn_def runs)
  next
    case (Inr r)
    then obtain ok grown t where r: "find_node E p k (closest_buffer q) s = Inr ((ok, grown), t)"
      by (metis prod.exhaust)
    with Node_Query assms find_node_failed [of E p k "closest_buffer q" s grown t] show thesis
      by (intro that(2) [of False ok grown None t]) (auto simp: query_prog_def query_fn_def runs)
  qed
next
  case Value_Query
  show thesis
  proof (cases "find_value E p k (closest_buffer q) s")
    case (Inl e)
    with Value_Query show thesis by (intro that(1)) (simp_all add: query_prog_def query_fn_def runs)
  next
    case (Inr r)
    then obtain ok grown data t where r: "find_value E p k (closest_buffer q) s = Inr ((ok, grown, data), t)"
      by (metis prod.exhaust)
    with Value_Query find_value_failed [of E p k "closest_buffer q" s grown data t] show thesis
      by (intro that(2) [of "data \<noteq> None" ok grown data t]) (auto simp: query_prog_def query_fn_def runs)
  qed
qed

lemma run_query_round:
  assumes "found_data q = None"
  shows "run (query_round_prog 2 E kind k quota j queried (closest_buffer q) (status_ctr q)) s =
    and_then (query_round E kind k quota j queried q s)
      (\<lambda>((halt, queried, q), s). Inr ((halt, queried, closest_buffer q, found_data q), s))"
  using assms
proof (induction E kind k quota j queried q s rule: query_round.induct)
  case (1 E kind k quota j queried q s)
  note unfold = query_round_prog.simps [of 2 E kind k quota j queried "closest_buffer q" "status_ctr q"]
    query_round.simps [of E kind k quota j queried q s]
  show ?case
  proof (cases "j < length (closest_buffer q) \<and> \<not> quota \<le> status_ctr q")
    case False
    with 1(3) show ?thesis by (simp add: unfold if_not_P [OF False])
  next
    case go: True
    let ?p = "closest_buffer q ! j"
    show ?thesis
    proof (cases "pkey ?p \<in> queried")
      case True
      with go 1(1) [OF go refl True 1(3)] show ?thesis by (simp add: unfold)
    next
      case False
      show ?thesis
      proof (rule run_query [OF 1(3), of E kind k ?p s])
        fix e
        assume "run (query_prog 2 E kind k ?p (closest_buffer q)) s = Inl e" "query_fn E kind k ?p q s = Inl e"
        with go False show ?thesis by (simp add: unfold Let_def)
      next
        fix halt ok grown data t
        assume r: "run (query_prog 2 E kind k ?p (closest_buffer q)) s = Inr ((halt, ok, grown, data), t)"
          "query_fn E kind k ?p q s = Inr ((halt, q\<lparr>closest_buffer := grown,
             status_ctr := (if ok then Suc (status_ctr q) else status_ctr q), found_data := data\<rparr>), t)"
          "\<not> ok \<Longrightarrow> grown = closest_buffer q" "halt \<longleftrightarrow> data \<noteq> None"
        show ?thesis
        proof (cases data)
          case None
          with r(4) have "\<not> halt" by simp
          from 1(2) [OF go refl False r(2) refl refl this] None r(1-3) \<open>\<not> halt\<close> go False show ?thesis
            by (cases ok) (simp_all add: unfold Let_def)
        next
          case (Some d)
          with r go False show ?thesis by (simp add: unfold Let_def)
        qed
      qed
    qed
  qed
qed

lemma run_lookup_rounds:
  "run (lookup_rounds_prog i 2 E kind k queried buffer sz d) s =
     lookup_rounds i E kind k queried buffer sz d s"
proof (induction i arbitrary: queried buffer sz d s)
  case (Suc i)
  show ?case
    using run_query_round [of "\<lparr>closest_buffer = buffer, status_ctr = 0, found_data = None\<rparr>" E kind k
        "min 3 (length buffer)" 0 queried s]
    by (auto simp: Suc and_then_assoc Let_def split_def intro!: and_then_cong)
qed simp

lemma run_lookup_helper: "run (lookup_helper_prog 2 E kind k buffer) s = lookup_helper E kind k buffer s"
  by (simp add: lookup_helper_prog_def lookup_helper_def run_lookup_rounds run_actions)

lemma run_final_queries: "run (final_queries_prog 2 E k ps buffer) s = final_queries E k ps buffer s"
  by (induction ps arbitrary: buffer s) (auto simp: runs split_def intro!: and_then_cong)

lemma run_node_lookup: "run (node_lookup_prog 2 E k buffer) s = node_lookup E k buffer s"
  by (simp add: node_lookup_prog_def node_lookup_def run_lookup_helper run_final_queries split_def)

lemma run_value_lookup: "run (value_lookup_prog 2 E k) s = value_lookup E k s"
  by (simp add: value_lookup_prog_def value_lookup_def run_lookup_helper split_def)

lemma run_lookup_each: "run (lookup_each_prog 2 E ps) s = lookup_each E ps s"
  by (induction ps arbitrary: s) (auto simp: run_node_lookup split_def intro!: and_then_cong)

lemma run_sample:
  "run (sample_now E age) s =
     and_then (random_per_bucket_peers (clock_at E (world s)) (rand_at E (world s)) age (router_of s))
       (\<lambda>(ps, r). Inr (ps, s\<lparr>router_of := r\<rparr>))"
  by (cases "random_per_bucket_peers (clock_at E (world s)) (rand_at E (world s)) age (router_of s)")
     (simp_all add: sample_now_def split_def)

lemma run_self_lookup: "run (self_lookup_prog 2 E k) s = self_lookup E k s"
  by (simp add: self_lookup_prog_def self_lookup_def run_lookup_helper run_lookup_each run_sample
      run_guarded_router and_then_assoc split_def)

section \<open>The calls of the client, startup and teardown\<close>

lemma run_store_closest: "run (store_closest_prog 2 E c force ps d) s = store_closest E c force ps d s"
  by (induction ps arbitrary: d s) (auto simp: runs split_def intro!: and_then_cong)

lemma run_publish: "run (publish_prog 2 E c force) s = publish E c force s"
  by (auto simp: publish_prog_def publish_def run_node_lookup run_store_closest run_actions
      intro!: and_then_cong)

lemma run_set: "run (set_prog 2 E k d force) s = session_set E k d force s"
  by (simp add: set_prog_def session_set_def run_publish)

lemma run_get: "run (get_prog 2 E k) s = session_get E k s"
  by (auto simp: get_prog_def session_get_def run_value_lookup run_actions
      split: option.split intro!: and_then_cong)

lemma run_ping_until: "run (ping_until_prog i E p) s = ping_until i E p s"
  by (induction i arbitrary: s) (auto simp: runs split_def split: option.split intro!: and_then_cong)

lemma run_join: "run (join_prog patience 2 E sk tk ep) s = startup_join patience E sk tk ep s"
  by (auto simp: join_prog_def startup_join_def run_ping_until run_self_lookup run_actions lock_router_def
      intro!: and_then_cong)

lemma run_store_until: "run (store_until_prog 2 E c ps stored) s = store_until E c ps stored s"
  by (induction E c ps stored s rule: store_until.induct)
     (auto simp: runs split_def intro!: and_then_cong)

lemma run_hand_over: "run (hand_over_prog 2 E cs) s = hand_over E cs s"
  by (induction cs arbitrary: s) (auto simp: run_store_until run_actions intro!: and_then_cong)

lemma run_teardown: "teardown E b s = run (teardown_prog 2 E b) (s\<lparr>dying := True\<rparr>)"
  by (auto simp: teardown_prog_def teardown_def run_hand_over run_actions intro!: and_then_cong)

section \<open>The background threads\<close>

lemma run_republish_each: "run (republish_each_prog 2 E ks) s = republish_each E ks s"
  by (induction ks arbitrary: s) (auto simp: run_publish split_def split: option.split intro!: and_then_cong)

lemma run_republish:
  "\<not> dying s \<Longrightarrow> republish_step E s = and_then (run (republish_prog 2 E) s) (\<lambda>(_, s). Inr (True, s))"
  by (simp add: republish_step_def republish_prog_def run_republish_each run_actions)

lemma run_cleanup:
  "\<not> dying s \<Longrightarrow> cleanup_step E s = and_then (run (cleanup_prog E) s) (\<lambda>(_, s). Inr (True, s))"
  by (simp add: cleanup_step_def cleanup_prog_def run_actions)

lemma run_refresh:
  "\<not> dying s \<Longrightarrow> refresh_step E s = and_then (run (refresh_prog 2 E) s) (\<lambda>(_, s). Inr (True, s))"
  by (simp add: refresh_step_def refresh_prog_def run_lookup_each run_sample run_guarded_router
      and_then_assoc split_def)

end
