(* ===== verification/Process_Examples.thy ===== *)
theory Process_Examples
  imports Process_Invariant Thread_Runs Files_Properties
begin

text \<open>
  Uninterrupted threads: what a thread does that is not interrupted is what \<open>run\<close> says, so the
  sequential operations are among the interleavings. Then the states of a session that the
  witnesses of the properties use.
\<close>

section \<open>Uninterrupted threads\<close>

abbreviation steps :: "nat \<Rightarrow> 'w env \<Rightarrow> 'w process \<Rightarrow> 'w process \<Rightarrow> bool" where
  "steps n E \<equiv> (process_step n E)\<^sup>*\<^sup>*"

text \<open>The mutexes a thread holds at the end of an uninterrupted run.\<close>

primrec held_after :: "('w, 'a) prog \<Rightarrow> 'w session \<Rightarrow> mutex set \<Rightarrow> mutex set" where
  "held_after (Return x) s H = H"
| "held_after (Throw e) s H = H"
| "held_after (Act d u k) s H = held_after (k s) (u s) H"
| "held_after (Lock m p) s H = held_after p (set_lock m True s) (insert m H)"
| "held_after (Unlock m p) s H = held_after p (set_lock m False s) (H - {m})"

lemma move_steps:
  assumes "\<not> crashed \<sigma>" and "i < length (threads \<sigma>)"
    and "move (code (threads \<sigma> ! i)) (held (threads \<sigma> ! i)) (shared \<sigma>) = Some (s, H, p)"
  shows "process_step n E \<sigma>
    (\<sigma>\<lparr>shared := s, threads := (threads \<sigma>)[i := (threads \<sigma> ! i)\<lparr>held := H, code := p\<rparr>]\<rparr>)"
proof -
  have "(shared \<sigma>)\<lparr>world := world (shared \<sigma>)\<rparr> = shared \<sigma>" by simp
  then show ?thesis
    using process_step.thread_moves [OF assms(1,2) refl, of "world (shared \<sigma>)"] assms(3) by metis
qed

definition throws :: "'w thread \<Rightarrow> bool" where
  "throws t \<longleftrightarrow> (case code t of Throw _ \<Rightarrow> True | _ \<Rightarrow> False)"

lemma crashed_iff: "crashed \<sigma> \<longleftrightarrow> (\<exists>t\<in>set (threads \<sigma>). role t \<noteq> Handler \<and> throws t)"
  by (simp add: crashed_def throws_def)

lemma uncrashed_update:
  "\<not> crashed \<sigma> \<Longrightarrow> \<not> throws t \<Longrightarrow> \<not> crashed (\<sigma>\<lparr>shared := s, threads := (threads \<sigma>)[i := t]\<rparr>)"
  using set_update_subset_insert [of "threads \<sigma>" i t] by (auto simp: crashed_iff)

definition at_code :: "'w process \<Rightarrow> nat \<Rightarrow> 'w session \<Rightarrow> mutex set \<Rightarrow> ('w, bool) prog \<Rightarrow> 'w process" where
  "at_code \<sigma> i s H p =
     \<sigma>\<lparr>shared := s, threads := (threads \<sigma>)[i := (threads \<sigma> ! i)\<lparr>held := H, code := p\<rparr>]\<rparr>"

lemma at_code_move:
  assumes "\<not> crashed \<sigma>" and "i < length (threads \<sigma>)" and "move p H s = Some (t, H', q)"
  shows "process_step n E (at_code \<sigma> i s H p) (at_code \<sigma> i t H' q)"
proof -
  have "\<not> throws ((threads \<sigma> ! i)\<lparr>held := H, code := p\<rparr>)"
    using assms(3) by (cases p) (simp_all add: throws_def)
  then have c: "\<not> crashed (at_code \<sigma> i s H p)"
    unfolding at_code_def by (rule uncrashed_update [OF assms(1)])
  show ?thesis
    using move_steps [OF c, of i t H' q] assms(2,3) by (simp add: at_code_def)
qed

lemma move_in_world:
  assumes "\<not> crashed \<sigma>" and "i < length (threads \<sigma>)" and "threads \<sigma> ! i = t"
    and "move (code t) (held t) ((shared \<sigma>)\<lparr>world := w\<rparr>) = Some (s, H, p)"
  shows "process_step n E \<sigma> (at_code \<sigma> i s H p)"
  unfolding at_code_def assms(3) by (rule thread_moves [OF assms(1,2) assms(3) [symmetric] assms(4)])

lemma at_code_run:
  assumes "\<not> crashed \<sigma>" and "i < length (threads \<sigma>)" and "run p s = Inr (x, t)"
  shows "steps n E (at_code \<sigma> i s H p) (at_code \<sigma> i t (held_after p s H) (Return x))"
  using assms(3)
proof (induction p arbitrary: s H)
  case (Act d u k)
  then have "steps n E (at_code \<sigma> i (u s) H (k s)) (at_code \<sigma> i t (held_after (k s) (u s) H) (Return x))"
    by simp
  with at_code_move [OF assms(1,2), of "Act d u k" H s "u s" H "k s"] show ?case
    by (auto intro: converse_rtranclp_into_rtranclp)
next
  case (Lock m p)
  then have "\<not> locked m s" and "run p (set_lock m True s) = Inr (x, t)" by (simp_all split: if_splits)
  with Lock.IH [OF this(2), of "insert m H"] at_code_move [OF assms(1,2), of "Lock m p" H s "set_lock m True s" "insert m H" p] show ?case
    by (auto intro: converse_rtranclp_into_rtranclp)
next
  case (Unlock m p)
  then have "run p (set_lock m False s) = Inr (x, t)" by simp
  with Unlock.IH [OF this, of "H - {m}"] at_code_move [OF assms(1,2), of "Unlock m p" H s "set_lock m False s" "H - {m}" p] show ?case
    by (auto intro: converse_rtranclp_into_rtranclp)
qed simp_all

lemma at_code_now: "i < length (threads \<sigma>) \<Longrightarrow> threads \<sigma> ! i = t \<Longrightarrow> at_code \<sigma> i (shared \<sigma>) (held t) (code t) = \<sigma>"
  by (auto simp: at_code_def)

lemma uninterrupted:
  assumes "\<not> crashed \<sigma>" and "i < length (threads \<sigma>)" and "threads \<sigma> ! i = t"
    and "run (code t) (shared \<sigma>) = Inr (x, s)"
  shows "steps n E \<sigma> (at_code \<sigma> i s (held_after (code t) (shared \<sigma>) (held t)) (Return x))"
  using at_code_run [OF assms(1,2,4), of n E "held t"] at_code_now [OF assms(2,3)] by simp

section \<open>A session that started\<close>

abbreviation sample_reach :: "unit env \<Rightarrow> unit process \<Rightarrow> bool" where
  "sample_reach E \<equiv> reachable_process True 1 2 E (\<lambda>_. False) (\<lambda>_. True) ''a:1'' ''b:1''"

definition sample_launch :: "unit env \<Rightarrow> unit process" where
  "sample_launch E = launch True 1 2 E (random_key (\<lambda>_. False)) (random_key (\<lambda>_. True)) ''b:1''
     (snd (projr (startup_begin E (\<lambda>_. False) (\<lambda>_. True) ''a:1'' ''b:1'' (sample_session full_router))))"

lemma sample_launch_reachable: "sample_reach E (sample_launch E)"
proof -
  obtain s where s: "startup_begin E (\<lambda>_. False) (\<lambda>_. True) ''a:1'' ''b:1'' (sample_session full_router) = Inr ((), s)"
    by (simp add: startup_begin_def lock_router_def sample_session_def Let_def)
  show ?thesis
    unfolding sample_launch_def s by (simp, rule initially [OF _ _ _ s]) (simp_all add: sample_session_def)
qed

lemma steps_reachable:
  assumes "steps 2 E \<sigma> \<tau>" and "sample_reach E \<sigma>"
  shows "sample_reach E \<tau>"
  using assms by (induction rule: rtranclp_induct) (auto intro: later)

lemma sample_start_threads:
  "threads (sample_launch E) =
     [\<lparr>role = Accepting, held = {}, code = Return True\<rparr>, sleeping Republish, sleeping Cleanup, sleeping Refresh,
      new_thread Starting (join_prog 1 2 E (random_key (\<lambda>_. False)) (random_key (\<lambda>_. True)) ''b:1'')]"
  "phase (sample_launch E) = Starting_Up" "serving (sample_launch E)"
  by (simp_all add: sample_launch_def launch_def Let_def init_server_def init_rpc_threads_def handler_thread_fn_def)

lemma sample_uncrashed: "\<not> crashed (sample_launch E)"
  by (simp add: crashed_iff sample_start_threads sleeping_def new_thread_def throws_def join_prog_def ping_prog_def
      rpc_call_def access_def)

text \<open>In a network where the other node answers, the session starts.\<close>

lemma sample_keys: "random_key (\<lambda>_. False) = 0" "random_key (\<lambda>_. True) = - 1"
  by (rule bit_eqI, simp add: random_key_bit)+

lemma first_router: "new_router 5 0 ''a:1'' (- 1) ''b:1'' =
    \<lparr>self_peer = sample_self, table = Leaf 159 1 5 [\<lparr>pkey = - 1, endpoint = ''b:1''\<rparr>]\<rparr>"
proof -
  have "insert_loop (Suc 159) 5 0 (- 1) ''b:1'' (new_tree 5 159) =
      (Inserted, Leaf 159 1 5 [\<lparr>pkey = - 1, endpoint = ''b:1''\<rparr>])"
    unfolding insert_loop.simps by (simp add: new_tree_def kbucket_max_def)
  then show ?thesis by (simp add: new_router_def attempt_insert_peer_def sample_self_def)
qed

lemma second_router: "attempt_insert_peer 5 1 ''b:1'' (new_router 5 0 ''a:1'' (- 1) ''b:1'') = ((True, None),
    \<lparr>self_peer = sample_self, table = Leaf 159 2 5 [sample_peer 1, \<lparr>pkey = - 1, endpoint = ''b:1''\<rparr>]\<rparr>)"
proof -
  have "insert_loop (Suc 159) 5 0 1 ''b:1'' (Leaf 159 1 5 [\<lparr>pkey = - 1, endpoint = ''b:1''\<rparr>]) =
      (Inserted, Leaf 159 2 5 [sample_peer 1, \<lparr>pkey = - 1, endpoint = ''b:1''\<rparr>])"
    unfolding insert_loop.simps by (simp add: kbucket_max_def sample_peer_def)
  then show ?thesis by (simp add: first_router attempt_insert_peer_def sample_self_def)
qed

lemma started_router:
  "evict_peer (- 1) (snd (attempt_insert_peer 5 1 ''b:1'' (new_router 5 0 ''a:1'' (- 1) ''b:1''))) = lone_router 5"
proof -
  have "evict_loop (Suc 159) (- 1) (Leaf 159 2 5 [sample_peer 1, \<lparr>pkey = - 1, endpoint = ''b:1''\<rparr>]) =
      (True, Leaf 159 1 5 [sample_peer 1])"
    unfolding evict_loop.simps by (simp add: sample_peer_def)
  then show ?thesis by (simp add: second_router evict_peer_def sample_self_def lone_router_def)
qed

lemma lone_lookup:
  assumes "lone s"
  shows "\<exists>x t. lookup_helper friendly_env Node_Query k [] s = Inr (x, t) \<and> lone t"
proof -
  have ok: "session_ok s" "lone (after_closest friendly_env k s)"
    using calm_friendly assms by (simp_all add: calm_def)
  have "known_closest s k \<noteq> []" using assms by (auto simp: lone_def lone_router_def)
  then have "sort_peers k (known_closest s k) \<noteq> []" by (metis length_0_conv length_sort_peers)
  from calm_lookup_rounds [OF calm_friendly ok(2) this, of 160 k "{}"] show ?thesis
    by (simp add: lookup_helper_eq [OF ok(1)]) metis
qed

lemma lone_self_lookup:
  assumes "lone s"
  shows "\<exists>t. self_lookup friendly_env k s = Inr ((), t) \<and> lone t"
proof -
  obtain x u where u: "lookup_helper friendly_env Node_Query k [] s = Inr (x, u)" "lone u"
    using lone_lookup [OF assms] by blast
  then obtain a where a: "router_of u = lone_router a" "\<not> router_locked u" by (auto simp: lone_def)
  have sample: "random_per_bucket_peers (clock_at friendly_env (world u)) (rand_at friendly_env (world u)) 0 (lone_router a)
      = Inr ([sample_peer 1], lone_router 0)"
    by (simp add: random_per_bucket_peers_def lone_router_def friendly_env_def to_seconds_def ticks_per_second_def)
  let ?v = "u\<lparr>router_of := lone_router 0\<rparr>"
  have v: "lone ?v" using a by (auto simp: lone_def)
  then have "known_closest ?v (pkey (sample_peer 1)) \<noteq> []" by (auto simp: lone_def lone_router_def)
  from calm_node_lookup [OF calm_friendly v this] obtain ps t
    where t: "node_lookup friendly_env (pkey (sample_peer 1)) [] ?v = Inr (ps, t)" "lone t" by blast
  have "unlock_router (u\<lparr>router_locked := True, router_of := lone_router 0\<rparr>) = ?v"
    using a by (simp add: unlock_router_def)
  with u a sample t show ?thesis by (simp add: self_lookup_def lock_router_def)
qed

lemma lone_join:
  assumes "router_of s = new_router 5 0 ''a:1'' (- 1) ''b:1''" and "\<not> router_locked s"
  shows "\<exists>t. startup_join 1 friendly_env 0 (- 1) ''b:1'' s = Inr ((), t) \<and> lone t"
proof -
  let ?r = "snd (attempt_insert_peer 5 1 ''b:1'' (new_router 5 0 ''a:1'' (- 1) ''b:1''))"
  let ?s = "s\<lparr>router_of := lone_router 5\<rparr>"
  have "lone ?s" using assms(2) by (auto simp: lone_def)
  from lone_self_lookup [OF this] obtain t where t: "self_lookup friendly_env 0 ?s = Inr ((), t)" "lone t" by blast
  have ping: "ping friendly_env \<lparr>pkey = - 1, endpoint = ''b:1''\<rparr> s = Inr (Some (sample_peer 1), s)"
    by (simp add: ping_def friendly_env_def friend_def local_to_rpc_peer_def sample_peer_def bitset_roundtrip)
  have "unlock_router (s\<lparr>router_locked := True, router_of := evict_peer (- 1) ?r\<rparr>) = ?s"
    using assms started_router by (simp add: unlock_router_def)
  with t ping assms show ?thesis
    by (simp add: startup_join_def lock_router_def Let_def sample_peer_def numeral_1_eq_Suc_0)
qed

lemma sample_shared:
  "router_of (shared (sample_launch E)) = new_router (now_at E ()) 0 ''a:1'' (- 1) ''b:1''"
  "\<not> router_locked (shared (sample_launch E))" "\<not> chunks_locked (shared (sample_launch E))"
  "chunks (shared (sample_launch E)) = []" "\<not> dying (shared (sample_launch E))"
  by (simp_all add: sample_launch_def launch_def Let_def init_server_def init_rpc_threads_def
      startup_begin_def lock_router_def unlock_router_def sample_session_def sample_keys)

abbreviation listening :: "unit thread" where
  "listening \<equiv> \<lparr>role = Accepting, held = {}, code = Return True\<rparr>"

abbreviation ended :: "role \<Rightarrow> mutex set \<Rightarrow> bool \<Rightarrow> unit thread" where
  "ended r H b \<equiv> \<lparr>role = r, held = H, code = Return b\<rparr>"

lemma sleeping_ended: "sleeping b = ended (Background b) {} True"
  by (simp add: sleeping_def)

lemma ended_simps [simp]: "finished (ended r H b)" "\<not> throws (ended r H b)"
  by (simp_all add: finished_def throws_def)

text \<open>Startup returned, and the client called \<open>teardown\<close>: a state of the process that ends.\<close>

lemma sample_ending:
  obtains \<sigma> H where "sample_reach friendly_env \<sigma>" and "phase \<sigma> = Shutting_Down False"
    and "threads \<sigma> = [listening, sleeping Republish, sleeping Cleanup, sleeping Refresh, ended Starting H True]"
    and "dying (shared \<sigma>)"
proof -
  let ?\<sigma> = "sample_launch friendly_env" and ?E = friendly_env
  let ?start = "new_thread Starting (join_prog 1 2 ?E 0 (- 1) ''b:1'') :: unit thread"
  obtain t where t: "startup_join 1 ?E 0 (- 1) ''b:1'' (shared ?\<sigma>) = Inr ((), t)"
    using lone_join [of "shared ?\<sigma>"] sample_shared [of ?E] by auto
  have start: "threads ?\<sigma> ! 4 = ?start" "4 < length (threads ?\<sigma>)"
    by (simp_all add: sample_start_threads sample_keys)
  have "run (code ?start) (shared ?\<sigma>) = Inr (True, t)"
    using t by (simp add: new_thread_def run_join)
  from uninterrupted [OF sample_uncrashed start(2,1) this] obtain H
    where st: "steps 2 ?E ?\<sigma> (at_code ?\<sigma> 4 t H (Return True))" by blast
  let ?\<tau> = "at_code ?\<sigma> 4 t H (Return True)"
  have ts: "threads ?\<tau> = [listening, sleeping Republish, sleeping Cleanup, sleeping Refresh, ended Starting H True]"
    and ph: "phase ?\<tau> = Starting_Up"
    by (simp_all add: at_code_def sample_start_threads new_thread_def)
  have c: "\<not> crashed ?\<tau>" by (simp add: crashed_iff ts sleeping_ended)
  have "process_step 2 ?E ?\<tau> (?\<tau>\<lparr>phase := Running\<rparr>)"
    by (rule startup_returns [OF c ph]) (simp add: ts sleeping_ended)
  moreover have "process_step 2 ?E (?\<tau>\<lparr>phase := Running\<rparr>) (begin_teardown False (?\<tau>\<lparr>phase := Running\<rparr>))"
    by (rule teardown_begins) (use c in \<open>simp_all add: crashed_iff ts sleeping_ended\<close>)
  ultimately have "steps 2 ?E ?\<sigma> (begin_teardown False (?\<tau>\<lparr>phase := Running\<rparr>))"
    using st by (meson rtranclp.rtrancl_into_rtrancl)
  from steps_reachable [OF this sample_launch_reachable] show thesis
    by (rule that) (simp_all add: begin_teardown_def ts)
qed

text \<open>Everything is destroyed.\<close>

lemma waking:
  assumes "sample_reach E \<sigma>" and "threads \<sigma> = us @ sleeping b # vs" and "dying (shared \<sigma>)"
    and "\<forall>t\<in>set (threads \<sigma>). \<not> throws t"
  shows "sample_reach E (\<sigma>\<lparr>threads := us @ ended (Background b) {} False # vs\<rparr>)"
proof -
  have "process_step 2 E \<sigma> (\<sigma>\<lparr>threads := (threads \<sigma>)[length us := (sleeping b)\<lparr>code := wake 2 E b (shared \<sigma>)\<rparr>]\<rparr>)"
    by (rule thread_wakes) (use assms in \<open>simp_all add: crashed_iff sleeping_def\<close>)
  moreover have "(threads \<sigma>)[length us := (sleeping b)\<lparr>code := wake 2 E b (shared \<sigma>)\<rparr>] =
      us @ ended (Background b) {} False # vs"
    using assms(2,3) by (simp add: wake_def sleeping_def)
  ultimately show ?thesis using assms(1) by (auto intro: later)
qed

lemma sample_destroyed:
  obtains \<sigma> where "sample_reach friendly_env \<sigma>" and "phase \<sigma> = Destroyed"
proof -
  let ?E = friendly_env
  obtain \<sigma> H where r: "sample_reach ?E \<sigma>" and ph: "phase \<sigma> = Shutting_Down False" and d: "dying (shared \<sigma>)"
    and ts: "threads \<sigma> = [listening, sleeping Republish, sleeping Cleanup, sleeping Refresh, ended Starting H True]"
    by (rule sample_ending)
  let ?done = "\<lambda>b. ended (Background b) {} False"
  let ?ts = "[listening, ?done Republish, ?done Cleanup, ?done Refresh, ended Starting H True]"
  have r1: "sample_reach ?E (\<sigma>\<lparr>threads := ?ts\<rparr>)"
    using waking [of ?E "\<sigma>\<lparr>threads := [listening, ?done Republish, ?done Cleanup, sleeping Refresh, ended Starting H True]\<rparr>"
        "[listening, ?done Republish, ?done Cleanup]" Refresh "[ended Starting H True]"]
      waking [of ?E "\<sigma>\<lparr>threads := [listening, ?done Republish, sleeping Cleanup, sleeping Refresh, ended Starting H True]\<rparr>"
        "[listening, ?done Republish]" Cleanup "[sleeping Refresh, ended Starting H True]"]
      waking [of ?E \<sigma> "[listening]" Republish "[sleeping Cleanup, sleeping Refresh, ended Starting H True]"]
      r d ts by (simp add: sleeping_ended)
  let ?joining = "\<lambda>xs. \<sigma>\<lparr>threads := ?ts, phase := Joining_Threads False xs\<rparr>"
  have c: "\<not> crashed (\<sigma>\<lparr>threads := ?ts\<rparr>)" "\<not> crashed (?joining xs)" for xs by (simp_all add: crashed_iff)
  have r2: "sample_reach ?E (?joining [Republish, Cleanup, Refresh])"
    using later [OF r1 server_shut_down [OF c(1), of False]] ph by (simp add: server_idle_def)
  have j: "sample_reach ?E (?joining xs)" if "sample_reach ?E (?joining (b # xs))" for b xs
    using later [OF that thread_joined [where b = False, OF c(2)]] by (cases b) (simp_all add: has_returned_def)
  note r3 = j [OF j [OF j [OF r2]]]
  let ?t = "new_thread Ending (teardown_prog 2 ?E False) :: unit thread"
  let ?\<tau> = "\<sigma>\<lparr>phase := Handing_Over, threads := ?ts @ [?t]\<rparr>"
  have r4: "sample_reach ?E ?\<tau>"
    using later [OF r3 hand_over_begins [where b = False, OF c(2)]] by simp
  have "\<not> locked Chunks_Lock (shared ?\<tau>)"
  proof
    assume l: "locked Chunks_Lock (shared ?\<tau>)"
    have ok: "mutexes_ok (shared ?\<tau>) (map held (threads ?\<tau>))" "thread_ok \<lparr>pkey = 0, endpoint = ''a:1''\<rparr> (ended Starting H True)"
      using reachable_ok(1) [OF r4] by (simp_all add: threads_ok_def sample_keys)
    from ok(2) have "H = {}" by (simp add: thread_ok_def)
    moreover have "\<exists>h\<in>set (map held (threads ?\<tau>)). Chunks_Lock \<in> h"
      using mutex_locked [OF ok(1), of Chunks_Lock] l by (metis nth_mem)
    ultimately show False by (simp add: new_thread_def)
  qed
  then obtain s where "run (teardown_prog 2 ?E False) (shared ?\<tau>) = Inr (map fst (chunks (shared ?\<tau>)), s)"
    by (simp add: teardown_prog_def run_guarded_chunks lock_chunks_def access_def)
  then have run: "run (code ?t) (shared ?\<tau>) = Inr (True, s)" by (simp add: new_thread_def)
  have t: "?\<tau> = ?\<tau>" "5 < length (threads ?\<tau>)" "threads ?\<tau> ! 5 = ?t" by simp_all
  have c3: "\<not> crashed ?\<tau>"
    by (simp add: crashed_iff throws_def new_thread_def teardown_prog_def guarded_def)
  from uninterrupted [OF c3 t(2,3) run] obtain H' where
    st: "steps 2 ?E ?\<tau> (at_code ?\<tau> 5 s H' (Return True))" by blast
  let ?\<upsilon> = "at_code ?\<tau> 5 s H' (Return True)"
  have u: "threads ?\<upsilon> = ?ts @ [ended Ending H' True]" "phase ?\<upsilon> = Handing_Over"
    by (simp_all add: at_code_def new_thread_def)
  have "process_step 2 ?E ?\<upsilon> (?\<upsilon>\<lparr>phase := Destroyed, freed := delete_router (router_of (shared ?\<upsilon>))\<rparr>)"
    by (rule teardown_returns) (use u in \<open>simp_all add: crashed_iff\<close>)
  from later [OF steps_reachable [OF st r4] this] show thesis by (rule that) simp
qed

section \<open>Threads at work\<close>

lemma waking_up:
  assumes "sample_reach E \<sigma>" and "\<not> crashed \<sigma>" and "i < length (threads \<sigma>)"
    and "threads \<sigma> ! i = sleeping b" and "\<not> dying (shared \<sigma>)"
  shows "sample_reach E (at_code \<sigma> i (shared \<sigma>) {} (bind (iteration 2 E b) (\<lambda>_. Return True)))"
proof -
  have "process_step 2 E \<sigma> (\<sigma>\<lparr>threads := (threads \<sigma>)[i := (sleeping b)\<lparr>code := wake 2 E b (shared \<sigma>)\<rparr>]\<rparr>)"
    by (rule thread_wakes) (use assms in \<open>simp_all add: sleeping_def\<close>)
  then show ?thesis using assms by (auto simp: at_code_def wake_def sleeping_def intro: later)
qed

lemma moving:
  assumes "sample_reach E (at_code \<sigma> i s H p)" and "\<not> crashed \<sigma>" and "i < length (threads \<sigma>)"
    and "move p H s = Some (t, H', q)"
  shows "sample_reach E (at_code \<sigma> i t H' q)"
  using later [OF assms(1) at_code_move [OF assms(2-4)]] .

text \<open>The cleanup thread holds the chunks and is about to use them.\<close>

definition cleaning :: "unit env \<Rightarrow> unit process" where
  "cleaning E = at_code (sample_launch E) 2 (set_lock Chunks_Lock True (shared (sample_launch E))) {Chunks_Lock}
     (bind (bind (access Chunk_Data (\<lambda>s. ((),
        s\<lparr>chunks := fold AList.delete (expired_keys (clock_at E (world s)) (chunks s)) (chunks s)\<rparr>)))
       (\<lambda>x. Unlock Chunks_Lock (Return x))) (\<lambda>_. Return True))"

lemma cleaning_reachable: "sample_reach E (cleaning E)"
proof -
  have i: "2 < length (threads (sample_launch E))" "threads (sample_launch E) ! 2 = sleeping Cleanup"
    by (simp_all add: sample_start_threads)
  have w: "sample_reach E (at_code (sample_launch E) 2 (shared (sample_launch E)) {}
      (bind (iteration 2 E Cleanup) (\<lambda>_. Return True)))"
    by (rule waking_up [OF sample_launch_reachable sample_uncrashed i]) (simp add: sample_shared)
  show ?thesis
    unfolding cleaning_def
    by (rule moving [OF w sample_uncrashed i(1)])
       (simp add: iteration_def cleanup_prog_def guarded_def sample_shared)
qed

lemma cleaning_threads:
  "threads (cleaning E) ! 2 = \<lparr>role = Background Cleanup, held = {Chunks_Lock}, code = code (threads (cleaning E) ! 2)\<rparr>"
  "length (threads (cleaning E)) = 5" "threads (cleaning E) ! Suc 0 = sleeping Republish" "\<not> crashed (cleaning E)"
  "chunks_locked (shared (cleaning E))" "\<not> dying (shared (cleaning E))"
proof -
  show "threads (cleaning E) ! 2 = \<lparr>role = Background Cleanup, held = {Chunks_Lock}, code = code (threads (cleaning E) ! 2)\<rparr>"
    "length (threads (cleaning E)) = 5" "threads (cleaning E) ! Suc 0 = sleeping Republish"
    "chunks_locked (shared (cleaning E))" "\<not> dying (shared (cleaning E))"
    by (simp_all add: cleaning_def at_code_def sample_start_threads sleeping_def sample_shared)
  show "\<not> crashed (cleaning E)"
    unfolding cleaning_def at_code_def
    by (rule uncrashed_update [OF sample_uncrashed]) (simp add: throws_def access_def)
qed

text \<open>Then the republishing thread waits for it.\<close>

lemma republish_waits:
  obtains \<sigma> where "sample_reach E \<sigma>" and "\<not> crashed \<sigma>" and "length (threads \<sigma>) = 5"
    and "\<exists>p. threads \<sigma> ! 1 = \<lparr>role = Background Republish, held = {}, code = Lock Chunks_Lock p\<rparr>"
    and "chunks_locked (shared \<sigma>)" and "\<forall>i<5. i \<noteq> 1 \<longrightarrow> (\<forall>p. code (threads \<sigma> ! i) \<noteq> Lock Chunks_Lock p \<and> code (threads \<sigma> ! i) \<noteq> Lock Router_Lock p)"
proof -
  let ?p = "bind (iteration 2 E Republish) (\<lambda>_. Return True)"
  let ?\<sigma> = "at_code (cleaning E) 1 (shared (cleaning E)) {} ?p"
  have r: "sample_reach E ?\<sigma>"
    by (rule waking_up [OF cleaning_reachable]) (simp_all add: cleaning_threads)
  have p: "\<exists>q. ?p = Lock Chunks_Lock q" by (simp add: iteration_def republish_prog_def guarded_def)
  show thesis
  proof (rule that [OF r])
    show "\<not> crashed ?\<sigma>"
      unfolding at_code_def by (rule uncrashed_update) (use p in \<open>auto simp: cleaning_threads throws_def\<close>)
    show "\<exists>p. threads ?\<sigma> ! 1 = \<lparr>role = Background Republish, held = {}, code = Lock Chunks_Lock p\<rparr>"
      using p by (simp add: at_code_def cleaning_threads sleeping_def)
    show "\<forall>i<5. i \<noteq> 1 \<longrightarrow> (\<forall>p. code (threads ?\<sigma> ! i) \<noteq> Lock Chunks_Lock p \<and> code (threads ?\<sigma> ! i) \<noteq> Lock Router_Lock p)"
      by (auto simp: at_code_def cleaning_def sample_start_threads sleeping_def new_thread_def access_def
          join_prog_def ping_prog_def rpc_call_def less_Suc_eq numeral_eq_Suc)
  qed (simp_all add: at_code_def cleaning_threads)
qed

text \<open>A chunk was stored, and 4000 seconds later the republishing thread found that it is due.\<close>

definition late_env :: "unit env" where
  "late_env = silent_env\<lparr>clock_at := \<lambda>_ i. 4000 * ticks_per_second + int i\<rparr>"

definition store_one :: store_request where
  "store_one = \<lparr>st_sender = local_to_rpc_peer \<lparr>pkey = 0, endpoint = ''a:1''\<rparr>,
     st_chunk_key = bitset_to_string (1 :: key), st_data = ''x'', st_size = 1, st_original_publish = 0\<rparr>"

lemma store_one_accepted:
  "\<exists>a. handle_store late_env store_one (shared (sample_launch late_env)) =
     Inr (a, (shared (sample_launch late_env))\<lparr>chunks := [(1, new_chunk 5 1 ''x'' False 0)]\<rparr>)"
proof -
  let ?s = "shared (sample_launch late_env)"
  have self: "self_peer (router_of ?s) = \<lparr>pkey = 0, endpoint = ''a:1''\<rparr>"
    by (simp add: sample_shared new_router_self)
  have ok: "session_ok ?s" by (simp add: session_ok_def sample_shared new_router_wf)
  have "attempt_insert_peer (now_at late_env (world ?s)) 0 ''a:1'' (router_of ?s) = ((True, None), router_of ?s)"
    by (simp add: router.insert_self self)
  from update_peer_inserted [OF ok this] have "update_peer late_env 0 ''a:1'' ?s = Inr ((), ?s)"
    by (simp add: update_peer_def numeral_2_eq_2)
  moreover have "size_of_int32 1 = 1" by (simp add: size_of_int32_def)
  ultimately show ?thesis
    by (simp add: handle_store_def rpc_handler_prelims_def rpc_peer_to_local_def store_one_def local_to_rpc_peer_def
        bitset_roundtrip copy_bytes_def sample_shared lock_chunks_def unlock_chunks_def Let_def new_chunk_def
        late_env_def)
qed

lemma republishing_reachable:
  obtains \<sigma> where "sample_reach late_env \<sigma>" and "1 < length (threads \<sigma>)"
    and "threads \<sigma> ! 1 = \<lparr>role = Background Republish, held = {Chunks_Lock},
      code = bind (bind (republish_each_prog 2 late_env [1]) (\<lambda>x. Unlock Chunks_Lock (Return x))) (\<lambda>_. Return True)\<rparr>"
proof -
  let ?E = late_env and ?\<sigma> = "sample_launch late_env"
  let ?t = "serve 2 ?E (Store_Data store_one)"
  let ?\<tau> = "?\<sigma>\<lparr>threads := threads ?\<sigma> @ [?t]\<rparr>"
  let ?s = "(shared ?\<sigma>)\<lparr>chunks := [(1, new_chunk 5 1 ''x'' False 0)]\<rparr>"
  have r1: "sample_reach ?E ?\<tau>"
    by (rule later [OF sample_launch_reachable request_arrives [OF sample_uncrashed]]) (simp add: sample_start_threads)
  have c1: "\<not> crashed ?\<tau>" using sample_uncrashed [of ?E] by (simp add: crashed_iff)
  have i1: "5 < length (threads ?\<tau>)" "threads ?\<tau> ! 5 = ?t" by (simp_all add: sample_start_threads)
  have "run (code ?t) (shared ?\<tau>) = Inr (True, ?s)"
    using store_one_accepted by (auto simp: serve_def new_thread_def run_store_handler)
  from uninterrupted [OF c1 i1 this] obtain H where
    st: "steps 2 ?E ?\<tau> (at_code ?\<tau> 5 ?s H (Return True))" by blast
  let ?\<upsilon> = "at_code ?\<tau> 5 ?s H (Return True)"
  have r2: "sample_reach ?E ?\<upsilon>" by (rule steps_reachable [OF st r1])
  have c2: "\<not> crashed ?\<upsilon>"
    unfolding at_code_def by (rule uncrashed_update [OF c1]) (simp add: throws_def)
  have i2: "1 < length (threads ?\<upsilon>)" "threads ?\<upsilon> ! 1 = sleeping Republish"
    by (simp_all add: at_code_def sample_start_threads)
  have r3: "sample_reach ?E (at_code ?\<upsilon> 1 (shared ?\<upsilon>) {} (bind (iteration 2 ?E Republish) (\<lambda>_. Return True)))"
    by (rule waking_up [OF r2 c2 i2]) (simp add: at_code_def sample_shared)
  let ?rest = "\<lambda>ks. bind (bind (republish_each_prog 2 ?E ks) (\<lambda>x. Unlock Chunks_Lock (Return x))) (\<lambda>_. Return True)"
  let ?l = "set_lock Chunks_Lock True (shared ?\<upsilon>)"
  have r4: "sample_reach ?E (at_code ?\<upsilon> 1 ?l {Chunks_Lock}
      (Act Chunk_Data (\<lambda>s. s) (\<lambda>s. ?rest (due_keys (clock_at ?E (world s)) (chunks s)))))"
    by (rule moving [OF r3 c2 i2(1)])
       (simp add: iteration_def republish_prog_def guarded_def access_def at_code_def sample_shared)
  have r5: "sample_reach ?E (at_code ?\<upsilon> 1 ?l {Chunks_Lock} (?rest (due_keys (clock_at ?E (world ?l)) (chunks ?l))))"
    by (rule moving [OF r4 c2 i2(1)]) simp
  have "due_keys (clock_at ?E (world ?l)) (chunks ?l) = [1]"
    by (simp add: due_keys_def late_env_def at_code_def new_chunk_def to_seconds_def ticks_per_second_def)
  with r5 have "sample_reach ?E (at_code ?\<upsilon> 1 ?l {Chunks_Lock} (?rest [1]))" by simp
  then show thesis
    by (rule that) (use i2 in \<open>simp_all add: at_code_def sleeping_def sample_start_threads\<close>)
qed

end
