(* ===== verification/Process_Properties.thy ===== *)
theory Process_Properties
  imports Process_Examples
begin

text \<open>
  What the threads of a session do to each other: the invariant of every reachable state, the
  accesses to the chunks and to the routing table, deadlocks, and the end of \<open>teardown\<close>.
\<close>

section \<open>The programs are the operations\<close>


section \<open>The data in every reachable state\<close>


lemma sole_holder:
  "threads_ok me \<sigma> \<Longrightarrow> i < length (threads \<sigma>) \<Longrightarrow> j < length (threads \<sigma>) \<Longrightarrow>
     m \<in> held (threads \<sigma> ! i) \<Longrightarrow> m \<in> held (threads \<sigma> ! j) \<Longrightarrow> i = j"
  using mutex_owner [of "shared \<sigma>" "map held (threads \<sigma>)" i j m] by (simp add: threads_ok_def)

section \<open>Data races\<close>

text \<open>A thread is about to use the data when its next action reads or writes it.\<close>

definition uses :: "data \<Rightarrow> 'w thread \<Rightarrow> bool" where
  "uses d t \<longleftrightarrow> (case code t of Act e _ _ \<Rightarrow> e = d | _ \<Rightarrow> False)"

lemma uses_chunks_held:
  assumes "threads_ok me \<sigma>" and "j < length (threads \<sigma>)" and "uses Chunk_Data (threads \<sigma> ! j)"
  shows "Chunks_Lock \<in> held (threads \<sigma> ! j)"
proof -
  have "thread_ok me (threads \<sigma> ! j)" using assms(1,2) by (simp add: threads_ok_def)
  with assms(3) show ?thesis by (auto simp: thread_ok_def uses_def split: prog.splits)
qed

text \<open>C8: There is no race on the chunks: two threads are never about to use the chunks at once,
  and a thread that is holds their mutex.
\<close>

theorem no_race_on_chunks:
  assumes "reachable_process bound patience n E ds dt self_ep init_ep \<sigma>"
    and "i < length (threads \<sigma>)" and "uses Chunk_Data (threads \<sigma> ! i)"
  shows "Chunks_Lock \<in> held (threads \<sigma> ! i) \<and>
    (\<forall>j<length (threads \<sigma>). uses Chunk_Data (threads \<sigma> ! j) \<longrightarrow> j = i)"
proof -
  note ok = reachable_ok(1) [OF assms(1)]
  with assms(2,3) uses_chunks_held [OF ok] sole_holder [OF ok] show ?thesis by blast
qed

text \<open>What \<open>startup\<close> does first when its ping is not answered.\<close>

lemma starter_evicts:
  assumes "rpc_ping E init_ep \<lparr>pg_sender = rpc_caller_prelims s\<rparr> w = (None, w')" and "0 < patience"
  shows "\<exists>u k. move (code (new_thread Starting (join_prog patience n E sk temp_key init_ep))) {} (s\<lparr>world := w\<rparr>) =
    Some (s\<lparr>world := w'\<rparr>, {}, Act Router_Data u k)"
proof -
  let ?ping = "ping_prog E \<lparr>pkey = temp_key, endpoint = init_ep\<rparr>"
  obtain i where i: "patience = Suc i" using assms(2) by (metis gr0_implies_Suc)
  have "rpc_caller_prelims (s\<lparr>world := w\<rparr>) = rpc_caller_prelims s" by (simp add: rpc_caller_prelims_def)
  then have "\<exists>u k. ?ping = Act Other_Data u k \<and> u (s\<lparr>world := w\<rparr>) = s\<lparr>world := w'\<rparr> \<and>
      (\<exists>v l. k (s\<lparr>world := w\<rparr>) = Act Router_Data v l)"
    using assms(1) by (simp add: ping_prog_def rpc_call_def access_def evict_now_def)
  then obtain u k v l where p: "?ping = Act Other_Data u k"
      "u (s\<lparr>world := w\<rparr>) = s\<lparr>world := w'\<rparr>" "k (s\<lparr>world := w\<rparr>) = Act Router_Data v l" by blast
  have "\<exists>f. code (new_thread Starting (join_prog patience n E sk temp_key init_ep)) = bind ?ping f"
    unfolding new_thread_def thread.simps join_prog_def i ping_until_prog.simps prog_bind_assoc
    by (rule exI, rule refl)
  with p show ?thesis by auto
qed

text \<open>C29: The routing table is raced for: when the first ping of \<open>startup\<close> is not answered, the thread
  that starts the session evicts the other node without locking the table, and a request that
  arrives meanwhile can be about to change the table at the same moment.
\<close>

theorem router_race:
  assumes "chunks s0 = []" and "\<not> router_locked s0" and "\<not> chunks_locked s0"
    and s: "startup_begin E ds dt self_ep init_ep s0 = Inr ((), s)" and "0 < patience" and "0 < n"
    and silent: "rpc_ping E init_ep \<lparr>pg_sender = rpc_caller_prelims s\<rparr> w = (None, w')"
  shows "\<exists>\<sigma> i j. reachable_process True patience n E ds dt self_ep init_ep \<sigma> \<and>
    i < length (threads \<sigma>) \<and> j < length (threads \<sigma>) \<and> i \<noteq> j \<and>
    uses Router_Data (threads \<sigma> ! i) \<and> uses Router_Data (threads \<sigma> ! j) \<and> held (threads \<sigma> ! i) = {}"
proof -
  let ?reach = "reachable_process True patience n E ds dt self_ep init_ep"
  let ?\<sigma> = "launch True patience n E (random_key ds) (random_key dt) init_ep s"
  obtain i m where n: "patience = Suc i" "n = Suc m" using assms(5,6) by (metis gr0_implies_Suc)
  let ?start = "new_thread Starting (join_prog patience n E (random_key ds) (random_key dt) init_ep)"
  have ts: "threads ?\<sigma> = [\<lparr>role = Accepting, held = {}, code = Return True\<rparr>, sleeping Republish, sleeping Cleanup,
      sleeping Refresh, ?start]" and sh: "shared ?\<sigma> = s" "serving ?\<sigma>"
    by (simp_all add: launch_def Let_def init_server_def init_rpc_threads_def handler_thread_fn_def)
  have c: "\<not> crashed ?\<sigma>"
    unfolding crashed_iff ts
    by (simp add: throws_def sleeping_def new_thread_def join_prog_def n ping_prog_def rpc_call_def access_def)
  have r: "?reach ?\<sigma>" by (rule initially [OF assms(1-3) s])
  have "held ?start = {}" by (simp add: new_thread_def)
  with starter_evicts [OF silent assms(5)]
  obtain u k where evict: "move (code ?start) (held ?start) (s\<lparr>world := w\<rparr>) =
      Some (s\<lparr>world := w'\<rparr>, {}, Act Router_Data u k)" by metis
  let ?\<tau> = "at_code ?\<sigma> 4 (s\<lparr>world := w'\<rparr>) {} (Act Router_Data u k)"
  have "process_step n E ?\<sigma> ?\<tau>"
  proof (rule move_in_world [OF c])
    show "move (code ?start) (held ?start) ((shared ?\<sigma>)\<lparr>world := w\<rparr>) =
        Some (s\<lparr>world := w'\<rparr>, {}, Act Router_Data u k)"
      unfolding sh(1) by (rule evict)
  qed (simp_all add: ts)
  with r have r1: "?reach ?\<tau>" by (rule later)
  have c1: "\<not> crashed ?\<tau>" unfolding at_code_def by (rule uncrashed_update [OF c]) (simp add: throws_def)
  let ?ping = "serve n E (Ping \<lparr>pg_sender = local_to_rpc_peer default_peer\<rparr>)"
  let ?\<upsilon> = "?\<tau>\<lparr>threads := threads ?\<tau> @ [?ping]\<rparr>"
  have r2: "?reach ?\<upsilon>" by (rule later [OF r1 request_arrives [OF c1]]) (simp add: at_code_def sh)
  have c2: "\<not> crashed ?\<upsilon>" using c1 by (simp add: crashed_iff)
  obtain v l where ping: "code ?ping = Lock Router_Lock (Act Router_Data v l)"
    by (simp add: serve_def new_thread_def ping_handler_def handler_prelims_prog_def rpc_peer_to_local_def
        local_to_rpc_peer_def bitset_roundtrip n guarded_def insert_now_def access_def)
  have free: "\<not> router_locked s" using s by (auto simp: startup_begin_def lock_router_def unlock_router_def Let_def split: if_splits)
  let ?last = "at_code ?\<upsilon> 5 (set_lock Router_Lock True (shared ?\<upsilon>)) {Router_Lock} (Act Router_Data v l)"
  have "process_step n E (at_code ?\<upsilon> 5 (shared ?\<upsilon>) {} (code ?ping)) ?last"
    by (rule at_code_move [OF c2]) (use ping free in \<open>simp_all add: at_code_def ts sh\<close>)
  moreover have "at_code ?\<upsilon> 5 (shared ?\<upsilon>) {} (code ?ping) = ?\<upsilon>"
    by (simp add: at_code_def ts serve_def new_thread_def)
  ultimately have "?reach ?last" using r2 by (auto intro: later)
  then show ?thesis
    by (intro exI [of _ ?last] exI [of _ 4] exI [of _ 5]) (simp add: at_code_def ts uses_def new_thread_def)
qed

section \<open>Deadlocks\<close>

definition can_move :: "'w process \<Rightarrow> nat \<Rightarrow> bool" where
  "can_move \<sigma> i \<longleftrightarrow> i < length (threads \<sigma>) \<and>
     move (code (threads \<sigma> ! i)) (held (threads \<sigma> ! i)) (shared \<sigma>) \<noteq> None"

definition waits_for :: "'w process \<Rightarrow> nat \<Rightarrow> mutex \<Rightarrow> bool" where
  "waits_for \<sigma> i m \<longleftrightarrow> i < length (threads \<sigma>) \<and> locked m (shared \<sigma>) \<and>
     (case code (threads \<sigma> ! i) of Lock l _ \<Rightarrow> l = m | _ \<Rightarrow> False)"

text \<open>A thread that waits for a mutex it holds itself waits forever.\<close>

definition stuck :: "'w process \<Rightarrow> nat \<Rightarrow> bool" where
  "stuck \<sigma> i \<longleftrightarrow> (\<exists>m. waits_for \<sigma> i m \<and> m \<in> held (threads \<sigma> ! i))"

lemma cannot_move:
  assumes "threads_ok me \<sigma>" and "i < length (threads \<sigma>)" and "\<not> can_move \<sigma> i"
  shows "finished (threads \<sigma> ! i) \<or> (\<exists>m. waits_for \<sigma> i m)"
  using assms by (cases "code (threads \<sigma> ! i)") (auto simp: can_move_def finished_def waits_for_def split: if_splits)

lemma finished_holds_nothing:
  assumes "threads_ok me \<sigma>" and "\<not> crashed \<sigma>" and "t \<in> set (threads \<sigma>)" and "finished t"
  shows "held t = {}"
proof -
  have "wp me (permits (role t)) (\<lambda>_ H. H = {}) (code t) (held t)"
    using assms(1,3) by (simp add: threads_ok_def thread_ok_def)
  with assms(2-4) show ?thesis
    by (cases "code t") (auto simp: finished_def crashed_def permits_def)
qed

lemma holder_exists:
  assumes "threads_ok me \<sigma>" and "locked m (shared \<sigma>)"
  obtains j where "j < length (threads \<sigma>)" and "m \<in> held (threads \<sigma> ! j)"
  using assms mutex_locked [of "shared \<sigma>" "map held (threads \<sigma>)" m] by (auto simp: threads_ok_def)

text \<open>A thread that waits holds nothing, or the chunks and waits for the router, or is stuck.\<close>

lemma waiting_holds:
  assumes "threads_ok me \<sigma>" and "waits_for \<sigma> i m" and "\<not> stuck \<sigma> i"
  shows "held (threads \<sigma> ! i) \<subseteq> {Chunks_Lock}" and "held (threads \<sigma> ! i) \<noteq> {} \<Longrightarrow> m = Router_Lock"
proof -
  have w: "wp me (permits (role (threads \<sigma> ! i))) (\<lambda>_ H. H = {}) (code (threads \<sigma> ! i)) (held (threads \<sigma> ! i))"
    using assms(1,2) by (simp add: threads_ok_def thread_ok_def waits_for_def)
  obtain p where p: "code (threads \<sigma> ! i) = Lock m p" and m: "m \<notin> held (threads \<sigma> ! i)"
    using assms(2,3) by (auto simp: waits_for_def stuck_def split: prog.splits)
  show r: "held (threads \<sigma> ! i) \<noteq> {} \<Longrightarrow> m = Router_Lock"
    using w p m by (cases m) auto
  have "l = Chunks_Lock" if "l \<in> held (threads \<sigma> ! i)" for l
    using that r m by (cases l) auto
  then show "held (threads \<sigma> ! i) \<subseteq> {Chunks_Lock}" by blast
qed

text \<open>C7: Threads wait for each other in chains of at most two: a thread that waits for a mutex
  waits for one that can go on, or for one that holds the chunks and waits for the router, which
  a third holds that can go on; the only other possibility is a thread that waits for a mutex it
  holds itself.
\<close>

theorem no_deadlock:
  assumes "reachable_process bound patience n E ds dt self_ep init_ep \<sigma>" and "\<not> crashed \<sigma>"
    and "\<forall>i. \<not> stuck \<sigma> i" and "waits_for \<sigma> i m"
  shows "\<exists>j<length (threads \<sigma>). m \<in> held (threads \<sigma> ! j) \<and>
    (can_move \<sigma> j \<or> m = Chunks_Lock \<and> waits_for \<sigma> j Router_Lock \<and>
       (\<exists>k. can_move \<sigma> k \<and> Router_Lock \<in> held (threads \<sigma> ! k)))"
proof -
  note ok = reachable_ok(1) [OF assms(1)]
  have goes: "can_move \<sigma> j \<or> m = Chunks_Lock \<and> waits_for \<sigma> j Router_Lock"
    if "j < length (threads \<sigma>)" "m \<in> held (threads \<sigma> ! j)" for j m
  proof (cases "can_move \<sigma> j")
    case False
    from cannot_move [OF ok that(1) False] finished_holds_nothing [OF ok assms(2), of "threads \<sigma> ! j"] that
    obtain l where l: "waits_for \<sigma> j l" by auto
    with assms(3) waiting_holds [OF ok l] that show ?thesis by auto
  qed simp
  from assms(4) obtain j where j: "j < length (threads \<sigma>)" "m \<in> held (threads \<sigma> ! j)"
    using holder_exists [OF ok] by (auto simp: waits_for_def)
  from goes [OF this] show ?thesis
  proof
    assume w: "m = Chunks_Lock \<and> waits_for \<sigma> j Router_Lock"
    then have "locked Router_Lock (shared \<sigma>)" by (simp only: waits_for_def)
    then obtain k where k: "k < length (threads \<sigma>)" "Router_Lock \<in> held (threads \<sigma> ! k)"
      by (rule holder_exists [OF ok])
    with goes [OF k] have "can_move \<sigma> k" by simp
    with w j k show ?thesis by blast
  qed (use j in blast)
qed

section \<open>The republishing thread\<close>

text \<open>What is left of an iteration of the republishing thread after it found the due chunks \<open>ks\<close>.\<close>

definition republishing :: "nat \<Rightarrow> 'w env \<Rightarrow> key list \<Rightarrow> ('w, bool) prog" where
  "republishing n E ks =
     bind (bind (republish_each_prog n E ks) (\<lambda>x. Unlock Chunks_Lock (Return x))) (\<lambda>_. Return True)"

lemma scan_for_due:
  "bind (iteration n E Republish) (\<lambda>_. Return True) =
     Lock Chunks_Lock (Act Chunk_Data (\<lambda>s. s) (\<lambda>s. republishing n E (due_keys (clock_at E (world s)) (chunks s))))"
  by (simp add: iteration_def republish_prog_def guarded_def access_def republishing_def)

text \<open>A thread that holds the chunks for good: it neither returns nor unlocks them.\<close>

definition holds_forever :: "peer \<Rightarrow> 'w process \<Rightarrow> nat \<Rightarrow> bool" where
  "holds_forever me \<sigma> i \<longleftrightarrow> i < length (threads \<sigma>) \<and> role (threads \<sigma> ! i) = Background Republish \<and>
     Chunks_Lock \<in> held (threads \<sigma> ! i) \<and>
     wp me {Throws_Locked, Locks_Twice} (\<lambda>_ _. False) (code (threads \<sigma> ! i)) (held (threads \<sigma> ! i))"

lemma republishing_forever:
  "wp me {Throws_Locked, Locks_Twice} (\<lambda>_ _. False) (republishing n E (k # ks)) {Chunks_Lock}"
  by (auto simp: republishing_def prog_bind_assoc split: option.split
      intro!: wp_then [OF delete_chunk_wp])
     (simp add: wp_bind publish_locked_wp)

lemma forever_step:
  assumes "process_step n E \<sigma> \<tau>" and ok: "threads_ok me \<sigma>" and h: "holds_forever me \<sigma> i"
  shows "holds_forever me \<tau> i"
  using assms(1)
proof cases
  case (thread_moves j t w s H p)
  show ?thesis
  proof (cases "j = i")
    case False
    with h thread_moves(1) show ?thesis by (simp add: holds_forever_def)
  next
    case True
    let ?s = "(shared \<sigma>)\<lparr>world := w\<rparr>"
    have t: "t = threads \<sigma> ! i" using thread_moves(4) True by simp
    have "mutexes_ok (shared \<sigma>) (map held (threads \<sigma>))" and d: "data_ok me ?s"
      using ok by (simp_all add: threads_ok_def data_ok_def)
    from mutex_locked [OF this(1)] h t have l: "\<forall>m\<in>held t. locked m ?s"
      by (auto simp: holds_forever_def)
    have wp: "wp me {Throws_Locked, Locks_Twice} (\<lambda>_ _. False) (code t) (held t)"
      and c: "Chunks_Lock \<in> held t"
      using h t by (simp_all add: holds_forever_def)
    have "Chunks_Lock \<in> H"
      using wp c thread_moves(5) by (cases "code t") (auto split: if_splits)
    with move_ok(2) [OF wp d l thread_moves(5)] h t thread_moves(1) True show ?thesis
      by (simp add: holds_forever_def)
  qed
next
  case (thread_wakes j t b)
  then have "j \<noteq> i" using h by (auto simp: holds_forever_def)
  with h thread_wakes(1) show ?thesis by (simp add: holds_forever_def)
qed (use h in \<open>auto simp: holds_forever_def begin_teardown_def nth_append\<close>)

text \<open>C28: A chunk that is due hangs the session: once the republishing thread found one, it never
  unlocks the chunks again, so no other thread ever uses them, and a \<open>teardown\<close> never gets
  past joining the threads.
\<close>

theorem due_chunk_hangs:
  assumes "reachable_process bound patience n E ds dt self_ep init_ep \<sigma>"
    and "i < length (threads \<sigma>)" and "role (threads \<sigma> ! i) = Background Republish"
    and "held (threads \<sigma> ! i) = {Chunks_Lock}" and "code (threads \<sigma> ! i) = republishing n E (k # ks)"
    and "(process_step n E)\<^sup>*\<^sup>* \<sigma> \<tau>"
  shows "Chunks_Lock \<in> held (threads \<tau> ! i) \<and>
    (\<forall>j<length (threads \<tau>). j \<noteq> i \<longrightarrow> \<not> uses Chunk_Data (threads \<tau> ! j)) \<and>
    phase \<tau> \<notin> {Handing_Over, Destroyed}"
proof -
  let ?me = "\<lparr>pkey = random_key ds, endpoint = self_ep\<rparr>"
  have start: "holds_forever ?me \<sigma> i"
    using assms(2-5) by (simp add: holds_forever_def republishing_forever)
  have "reachable_process bound patience n E ds dt self_ep init_ep \<tau> \<and> holds_forever ?me \<tau> i"
    using assms(6)
  proof induction
    case base
    show ?case using assms(1) start by simp
  next
    case (step \<tau> \<upsilon>)
    then have r: "reachable_process bound patience n E ds dt self_ep init_ep \<tau>" by simp
    with step forever_step [OF step(2) reachable_ok(1) [OF r]] later show ?case by blast
  qed
  then have r: "reachable_process bound patience n E ds dt self_ep init_ep \<tau>"
    and h: "holds_forever ?me \<tau> i" by simp_all
  note ok = reachable_ok(1) [OF r]
  have i: "i < length (threads \<tau>)" "Chunks_Lock \<in> held (threads \<tau> ! i)"
    using h by (simp_all add: holds_forever_def)
  have "\<not> uses Chunk_Data (threads \<tau> ! j)" if "j < length (threads \<tau>)" "j \<noteq> i" for j
  proof
    assume "uses Chunk_Data (threads \<tau> ! j)"
    with ok that(1) have "Chunks_Lock \<in> held (threads \<tau> ! j)" by (rule uses_chunks_held)
    with that i show False using sole_holder [OF ok] by blast
  qed
  moreover have "code (threads \<tau> ! i) \<noteq> Return False" "role (threads \<tau> ! i) = Background Republish"
    using h by (auto simp: holds_forever_def)
  then have "\<not> has_returned Republish \<tau>" using i(1) nth_mem by (fastforce simp: has_returned_def)
  then have "phase \<tau> \<notin> {Handing_Over, Destroyed}"
    using reachable_ok(2) [OF r] by (auto simp: phase_ok_def)
  ultimately show ?thesis using i(2) by blast
qed

section \<open>Witnesses\<close>


theorem no_race_on_chunks_witness:
  "uses Chunk_Data (threads (cleaning late_env) ! 2) \<and> Chunks_Lock \<in> held (threads (cleaning late_env) ! 2)"
proof -
  have "uses Chunk_Data (threads (cleaning late_env) ! 2)"
    by (simp add: uses_def cleaning_def at_code_def sample_start_threads access_def)
  with no_race_on_chunks [OF cleaning_reachable [of late_env], of 2] cleaning_threads(2) show ?thesis by simp
qed

theorem router_race_witness:
  "\<exists>\<sigma> i j. reachable_process True 1 2 silent_env (\<lambda>_. False) (\<lambda>_. True) ''a:1'' ''b:1'' \<sigma> \<and>
     i \<noteq> j \<and> uses Router_Data (threads \<sigma> ! i) \<and> uses Router_Data (threads \<sigma> ! j)"
proof -
  obtain s where s: "startup_begin silent_env (\<lambda>_. False) (\<lambda>_. True) ''a:1'' ''b:1'' (sample_session full_router) = Inr ((), s)"
    by (simp add: startup_begin_def lock_router_def sample_session_def Let_def)
  show ?thesis
    using router_race [OF _ _ _ s, of 1 2 "()" "()"] by (simp add: sample_session_def) blast
qed

theorem no_deadlock_witness:
  "\<exists>\<sigma> j. waits_for \<sigma> 1 Chunks_Lock \<and> Chunks_Lock \<in> held (threads \<sigma> ! j) \<and>
     reachable_process True 1 2 late_env (\<lambda>_. False) (\<lambda>_. True) ''a:1'' ''b:1'' \<sigma>"
proof -
  obtain \<sigma> p where r: "sample_reach late_env \<sigma>" "\<not> crashed \<sigma>" "length (threads \<sigma>) = 5" "chunks_locked (shared \<sigma>)"
    and p: "threads \<sigma> ! 1 = \<lparr>role = Background Republish, held = {}, code = Lock Chunks_Lock p\<rparr>"
    and other: "\<forall>i<5. i \<noteq> 1 \<longrightarrow> (\<forall>p. code (threads \<sigma> ! i) \<noteq> Lock Chunks_Lock p \<and> code (threads \<sigma> ! i) \<noteq> Lock Router_Lock p)"
    by (rule republish_waits [of late_env]) blast
  have w: "waits_for \<sigma> 1 Chunks_Lock" using r p by (simp add: waits_for_def)
  have none: "code (threads \<sigma> ! i) \<noteq> Lock m q" if "i < 5" "i \<noteq> 1" for i m q
    using other that by (cases m) auto
  have "\<not> stuck \<sigma> i" for i
  proof
    assume "stuck \<sigma> i"
    then obtain m q where "i < 5" "code (threads \<sigma> ! i) = Lock m q" "m \<in> held (threads \<sigma> ! i)"
      using r(3) by (cases "code (threads \<sigma> ! i)") (auto simp: stuck_def waits_for_def)
    with none [of i m q] p show False by (cases "i = 1") auto
  qed
  with no_deadlock [OF r(1,2) _ w] w r(1) show ?thesis by blast
qed

theorem due_chunk_hangs_witness:
  "\<exists>\<sigma>. reachable_process True 1 2 late_env (\<lambda>_. False) (\<lambda>_. True) ''a:1'' ''b:1'' \<sigma> \<and>
     (\<forall>\<tau>. (process_step 2 late_env)\<^sup>*\<^sup>* \<sigma> \<tau> \<longrightarrow> phase \<tau> \<noteq> Destroyed)"
proof -
  obtain \<sigma> where r: "sample_reach late_env \<sigma>" and i: "1 < length (threads \<sigma>)"
    and t: "threads \<sigma> ! 1 = \<lparr>role = Background Republish, held = {Chunks_Lock}, code = republishing 2 late_env [1]\<rparr>"
    unfolding republishing_def by (rule republishing_reachable)
  have "role (threads \<sigma> ! 1) = Background Republish" "held (threads \<sigma> ! 1) = {Chunks_Lock}"
    "code (threads \<sigma> ! 1) = republishing 2 late_env [1]"
    unfolding t by simp_all
  from due_chunk_hangs [OF r i this] r show ?thesis by blast
qed

end
