(* ===== verification/Process_Teardown.thy ===== *)
theory Process_Teardown
  imports Process_Properties
begin

text \<open>
  The end of a session: \<open>teardown\<close> always comes to its end unless a thread waits for a mutex it
  holds itself, the chunks are handed over when no other thread of the session runs any more, and
  what is freed at the end is freed once.
\<close>

section \<open>Memory\<close>

lemma delete_tree_peers: "mset (tree_all_peers t acc) = mset (delete_tree t) + mset acc"
  by (induction t arbitrary: acc) (auto simp: ac_simps)

lemma delete_router_peers: "mset (delete_router r) = add_mset (self_peer r) (mset (all_peers r))"
  using delete_tree_peers [of "table r" "[]"] by (simp add: delete_router_def all_peers_def)

section \<open>Nothing runs after the end\<close>

lemma returned_not_waking: "has_returned b \<sigma> \<Longrightarrow> t \<in> set (threads \<sigma>) \<Longrightarrow> role t = Background b \<Longrightarrow> finished t"
  by (simp add: has_returned_def finished_def)

lemma quietD: "quiet r \<sigma> \<Longrightarrow> t \<in> set (threads \<sigma>) \<Longrightarrow> role t = r \<Longrightarrow> finished t"
  by (simp add: quiet_def)

lemma end_phases:
  assumes "phase_ok \<sigma>" and "phase \<sigma> \<in> {Handing_Over, Destroyed}"
  shows "quiet Starting \<sigma>" and "quiet Client \<sigma>" and "quiet Handler \<sigma>" and "quiet Accepting \<sigma>"
    and "has_returned b \<sigma>" and "phase \<sigma> = Destroyed \<Longrightarrow> quiet Ending \<sigma>"
proof -
  have p: "phase \<sigma> \<notin> {Starting_Up, Running} \<union> range Shutting_Down" "awaited (phase \<sigma>) = []"
    using assms(2) by auto
  then show "quiet Starting \<sigma>" "quiet Client \<sigma>" "quiet Handler \<sigma>" "quiet Accepting \<sigma>"
    using assms(1) unfolding phase_ok_def by blast+
  show "has_returned b \<sigma>" and "phase \<sigma> = Destroyed \<Longrightarrow> quiet Ending \<sigma>"
    using assms(1) p(2) by (simp_all add: phase_ok_def)
qed

lemma alone_at_end:
  assumes "phase_ok \<sigma>" and "phase \<sigma> \<in> {Handing_Over, Destroyed}" and "t \<in> set (threads \<sigma>)"
  shows "finished t \<or> role t = Ending \<and> phase \<sigma> = Handing_Over"
proof (cases "role t")
  case (Background b)
  with returned_not_waking [OF end_phases(5) [OF assms(1,2)] assms(3)] show ?thesis by simp
next
  case Ending
  with end_phases(6) [OF assms(1,2)] assms(2,3) show ?thesis by (auto dest: quietD)
qed (use end_phases(1-4) [OF assms(1,2)] assms(3) in \<open>simp_all add: quietD\<close>)

lemma destroyed_final:
  assumes "phase_ok \<sigma>" and "phase \<sigma> = Destroyed"
  shows "\<not> process_step n E \<sigma> \<tau>"
proof
  assume "process_step n E \<sigma> \<tau>"
  then show False
  proof cases
    case (thread_moves i t w s H p)
    have "finished t" using alone_at_end [OF assms(1)] assms(2) thread_moves(3,4) by auto
    with thread_moves(5) show False by (simp add: finished_stays)
  next
    case (thread_wakes i t b)
    then have "has_returned b \<sigma>" using assms by (simp add: phase_ok_def)
    with thread_wakes show False by (auto simp: has_returned_def)
  qed (use assms in \<open>auto simp: phase_ok_def\<close>)
qed


section \<open>Teardown comes to an end\<close>

text \<open>What is left of a thread gets smaller with every action, and when it leaves its loop.\<close>

definition shorter :: "(('w, bool) prog \<times> ('w, bool) prog) set" where
  "shorter = {(q, p). (\<exists>H s t H'. move p H s = Some (t, H', q)) \<or> p = Return True \<and> q = Return False}"

lemma wf_shorter: "wf shorter"
proof (rule wfUNIVI)
  fix P :: "('w, bool) prog \<Rightarrow> bool" and p
  assume ih: "\<forall>p. (\<forall>q. (q, p) \<in> shorter \<longrightarrow> P q) \<longrightarrow> P p"
  show "P p"
  proof (induction p)
    case (Return x)
    have "P (Return False)" by (rule ih [rule_format]) (simp add: shorter_def)
    then have "P q" if "(q, Return x) \<in> shorter" for q using that by (simp add: shorter_def)
    with ih show ?case by blast
  qed (rule ih [rule_format]; auto simp: shorter_def split: if_splits)+
qed

definition thread_order :: "('w thread \<times> 'w thread) set" where
  "thread_order = inv_image shorter code"

fun rank :: "phase \<Rightarrow> nat" where
  "rank (Shutting_Down b) = 6"
| "rank (Joining_Threads b xs) = 2 + length xs"
| "rank Handing_Over = 1"
| "rank Destroyed = 0"
| "rank _ = 7"

definition process_order :: "('w process \<times> 'w process) set" where
  "process_order = inv_image (less_than <*lex*> listrel1 thread_order) (\<lambda>\<sigma>. (rank (phase \<sigma>), threads \<sigma>))"

lemma wf_process_order: "wf process_order"
  unfolding process_order_def thread_order_def
  by (intro wf_inv_image wf_lex_prod wf_less_than) (simp add: wf_listrel1_iff wf_inv_image wf_shorter)

lemma update_order:
  assumes "i < length ts" and "(t, ts ! i) \<in> r"
  shows "(ts[i := t], ts) \<in> listrel1 r"
  using assms by (auto simp: listrel1_def upd_conv_take_nth_drop intro!: exI [of _ "take i ts"] id_take_nth_drop)

definition ending :: "'w process \<Rightarrow> bool" where
  "ending \<sigma> \<longleftrightarrow> phase \<sigma> \<notin> {Starting_Up, Running}"

lemma ending_step:
  assumes "process_step n E \<sigma> \<tau>" and "phase_ok \<sigma>" and "ending \<sigma>"
  shows "ending \<tau>" and "(\<tau>, \<sigma>) \<in> process_order"
proof -
  have e: "dying (shared \<sigma>)" "\<not> serving \<sigma>"
    using assms(2,3) by (auto simp: phase_ok_def ending_def)
  have "ending \<tau> \<and> (\<tau>, \<sigma>) \<in> process_order"
    using assms(1)
  proof cases
    case (thread_moves i t w s H p)
    then have "(p, code (threads \<sigma> ! i)) \<in> shorter" by (auto simp: shorter_def)
    with thread_moves assms(3) show ?thesis
      by (auto simp: process_order_def thread_order_def ending_def intro!: update_order)
  next
    case (thread_wakes i t b)
    then have "(wake n E b (shared \<sigma>), code (threads \<sigma> ! i)) \<in> shorter"
      using e by (simp add: wake_def shorter_def)
    with thread_wakes assms(3) show ?thesis
      by (auto simp: process_order_def thread_order_def ending_def intro!: update_order)
  qed (use e assms(3) in \<open>auto simp: process_order_def ending_def\<close>)
  then show "ending \<tau>" and "(\<tau>, \<sigma>) \<in> process_order" by simp_all
qed

text \<open>A state from which nothing can happen is the end, unless a thread crashed or is stuck.\<close>

lemma only_republish_stuck:
  assumes "threads_ok me \<sigma>" and "stuck \<sigma> i"
  shows "role (threads \<sigma> ! i) = Background Republish"
proof -
  obtain m p where w: "i < length (threads \<sigma>)" "code (threads \<sigma> ! i) = Lock m p" "m \<in> held (threads \<sigma> ! i)"
    using assms(2) by (cases "code (threads \<sigma> ! i)") (auto simp: stuck_def waits_for_def)
  then have "thread_ok me (threads \<sigma> ! i)" using assms(1) by (simp add: threads_ok_def)
  with w have "Locks_Twice \<in> permits (role (threads \<sigma> ! i))" by (simp add: thread_ok_def)
  then show ?thesis by (auto simp: permits_def split: role.splits if_splits)
qed

lemma mover_steps:
  assumes "\<not> crashed \<sigma>" and "can_move \<sigma> i"
  shows "\<exists>\<tau>. process_step n E \<sigma> \<tau>"
proof -
  obtain s H p where m: "i < length (threads \<sigma>)"
      "move (code (threads \<sigma> ! i)) (held (threads \<sigma> ! i)) (shared \<sigma>) = Some (s, H, p)"
    using assms(2) by (auto simp: can_move_def)
  have "(shared \<sigma>)\<lparr>world := world (shared \<sigma>)\<rparr> = shared \<sigma>" by simp
  with m(2) show ?thesis
    using process_step.thread_moves [OF assms(1) m(1) refl, of "world (shared \<sigma>)"] by metis
qed

lemma blocked_all_finished:
  assumes "reachable_process bound patience n E ds dt self_ep init_ep \<sigma>" and "\<not> crashed \<sigma>"
    and "\<forall>i. \<not> stuck \<sigma> i" and "\<nexists>\<tau>. process_step n E \<sigma> \<tau>" and "t \<in> set (threads \<sigma>)"
  shows "finished t"
proof -
  obtain i where i: "i < length (threads \<sigma>)" "threads \<sigma> ! i = t"
    using assms(5) by (auto simp: in_set_conv_nth)
  have no: "\<not> can_move \<sigma> j" for j using mover_steps [OF assms(2)] assms(4) by blast
  have "\<not> waits_for \<sigma> i m" for m using no_deadlock [OF assms(1-3), of i m] no by blast
  with cannot_move [OF reachable_ok(1) [OF assms(1)] i(1) no] i(2) show ?thesis by blast
qed

lemma blocked_is_destroyed:
  assumes r: "reachable_process bound patience n E ds dt self_ep init_ep \<sigma>" and c: "\<not> crashed \<sigma>"
    and s: "\<forall>i. \<not> stuck \<sigma> i" and e: "ending \<sigma>" and no: "\<nexists>\<tau>. process_step n E \<sigma> \<tau>"
  shows "phase \<sigma> = Destroyed"
proof -
  note fin = blocked_all_finished [OF r c s no]
  have ret: "has_returned b \<sigma>" for b
    unfolding has_returned_def
  proof (intro ballI impI)
    fix t
    assume t: "t \<in> set (threads \<sigma>)" "role t = Background b"
    then obtain i where "i < length (threads \<sigma>)" "t = threads \<sigma> ! i" by (auto simp: in_set_conv_nth)
    with process_step.thread_wakes [OF c this t(2)] no have "code t \<noteq> Return True" by blast
    moreover have "\<nexists>e. code t = Throw e" using c t by (force simp: crashed_def)
    ultimately show "code t = Return False"
      using fin [OF t(1)] by (cases "code t") (auto simp: finished_def)
  qed
  show ?thesis
  proof (cases "phase \<sigma>")
    case (Shutting_Down b)
    with process_step.server_shut_down [OF c Shutting_Down] fin no show ?thesis
      unfolding server_idle_def by blast
  next
    case (Joining_Threads b xs)
    show ?thesis
    proof (cases xs)
      case Nil
      with process_step.hand_over_begins [OF c, of b] Joining_Threads no show ?thesis by blast
    next
      case (Cons y ys)
      with process_step.thread_joined [OF c, of b y ys] Joining_Threads ret no show ?thesis by blast
    qed
  next
    case Handing_Over
    with process_step.teardown_returns [OF c] fin no show ?thesis by blast
  qed (use e in \<open>auto simp: ending_def\<close>)
qed

lemma republish_stays_finished:
  assumes "process_step n E \<sigma> \<tau>" and "phase_ok \<sigma>" and "ending \<sigma>" and "quiet (Background Republish) \<sigma>"
  shows "quiet (Background Republish) \<tau>"
  using assms(1)
proof cases
  case (thread_moves i t w s H p)
  have "\<not> finished (threads \<sigma> ! i)" using thread_moves(4,5) finished_stays by fastforce
  with thread_moves assms(4) have "quiet (Background Republish)
      (\<sigma>\<lparr>threads := (threads \<sigma>)[i := t\<lparr>held := H, code := p\<rparr>]\<rparr>)"
    by (intro quiet_update) auto
  with thread_moves(1) show ?thesis by (simp add: quiet_def)
next
  case (thread_wakes i t b)
  have "dying (shared \<sigma>)" using assms(2,3) by (auto simp: phase_ok_def ending_def)
  with assms(4) thread_wakes set_update_subset_insert [of "threads \<sigma>" i "t\<lparr>code := wake n E b (shared \<sigma>)\<rparr>"]
  show ?thesis by (auto simp: quiet_def finished_def wake_def)
next
  case (hand_over_begins b)
  with assms(4) show ?thesis by (simp add: quiet_def)
next
  case (request_arrives r)
  with assms(4) show ?thesis by (simp add: quiet_def)
next
  case (client_calls c)
  with assms(4) show ?thesis by (simp add: quiet_def)
qed (use assms(4) in \<open>simp_all add: quiet_def begin_teardown_def\<close>)


section \<open>Witnesses\<close>



end
