(* ===== verification/Daemonize.thy ===== *)
theory Daemonize
  imports Daemon
begin

text \<open>
  The start of the daemon's process in \<open>src/client/daemon.cpp\<close>: the file descriptors it is left
  with, its wait for the files of the client, and the home directory.
\<close>

section \<open>File descriptors\<close>

text \<open>
  The descriptors of a process: entry \<open>i\<close> is the name of the file that is open as \<open>i\<close>. The
  length of the table is \<open>getdtablesize()\<close>.
\<close>

type_synonym descriptors = "string option list"

definition close_fd :: "nat \<Rightarrow> descriptors \<Rightarrow> descriptors" where
  "close_fd i fds = fds[i := None]"

fun lowest_free :: "descriptors \<Rightarrow> nat" where
  "lowest_free [] = 0"
| "lowest_free (None # fds) = 0"
| "lowest_free (Some f # fds) = Suc (lowest_free fds)"

text \<open>\<open>open\<close> takes the lowest free descriptor; its result is -1 when there is none.\<close>

definition open_fd :: "string \<Rightarrow> descriptors \<Rightarrow> int \<times> descriptors" where
  "open_fd file fds =
     (let i = lowest_free fds in
      if i < length fds then (int i, fds[i := Some file]) else (- 1, fds))"

text \<open>\<open>dup2(oldfd, newfd)\<close> makes \<open>newfd\<close> a copy of \<open>oldfd\<close>; it fails when \<open>oldfd\<close> is not open.\<close>

definition dup2 :: "nat \<Rightarrow> int \<Rightarrow> descriptors \<Rightarrow> descriptors" where
  "dup2 oldfd newfd fds =
     (if oldfd < length fds \<and> fds ! oldfd \<noteq> None \<and> 0 \<le> newfd \<and> nat newfd < length fds
      then fds[nat newfd := fds ! oldfd] else fds)"

section \<open>The daemon's process\<close>

text \<open>The loop that closes the descriptors from \<open>i\<close> down to 0.\<close>

primrec close_down :: "nat \<Rightarrow> descriptors \<Rightarrow> descriptors" where
  "close_down 0 fds = close_fd 0 fds"
| "close_down (Suc i) fds = close_down i (close_fd (Suc i) fds)"

definition STDIN_FILENO :: nat where "STDIN_FILENO = 0"
definition STDOUT_FILENO :: nat where "STDOUT_FILENO = 1"

definition setup_daemon :: "descriptors \<Rightarrow> descriptors" where
  "setup_daemon fds =
     (let fds = close_down (length fds) fds;
          (i, fds) = open_fd ''/dev/null'' fds;
          fds = dup2 STDIN_FILENO i fds
      in dup2 STDOUT_FILENO i fds)"

text \<open>
  The wait for the three files, which ends after 60 rounds of a second at the latest. The
  files in round \<open>i\<close> are \<open>files i\<close>; \<open>n\<close> is the number of rounds that are left. The result
  is the round that ends the wait.
\<close>

definition files_ready :: "string \<Rightarrow> nat \<Rightarrow> string set \<Rightarrow> bool" where
  "files_ready dir session_id paths \<longleftrightarrow>
     logs_file dir session_id \<in> paths \<and> cmd_file dir session_id \<in> paths \<and> err_file dir session_id \<in> paths"

primrec wait_rounds :: "string \<Rightarrow> nat \<Rightarrow> (nat \<Rightarrow> string set) \<Rightarrow> nat \<Rightarrow> nat \<Rightarrow> nat" where
  "wait_rounds dir session_id files i 0 = i"
| "wait_rounds dir session_id files i (Suc n) =
     (if files_ready dir session_id (files i) then i
      else wait_rounds dir session_id files (Suc i) n)"

definition await_files :: "string \<Rightarrow> nat \<Rightarrow> (nat \<Rightarrow> string set) \<Rightarrow> nat" where
  "await_files dir session_id files = wait_rounds dir session_id files 0 60"

text \<open>The descriptors of the daemon once its logger is open.\<close>

definition daemon_descriptors :: "string \<Rightarrow> nat \<Rightarrow> descriptors \<Rightarrow> descriptors" where
  "daemon_descriptors dir session_id fds = snd (open_fd (logs_file dir session_id) (setup_daemon fds))"

definition get_home_dir :: "(string \<Rightarrow> string option) \<Rightarrow> string" where
  "get_home_dir getenv = (case getenv ''HOME'' of None \<Rightarrow> ''/tmp/'' | Some home \<Rightarrow> home)"

section \<open>What the daemon starts with\<close>

lemma close_down_entries:
  "length (close_down i fds) = length fds \<and>
   (\<forall>j<length fds. close_down i fds ! j = (if j \<le> i then None else fds ! j))"
  by (induction i arbitrary: fds) (auto simp: close_fd_def nth_list_update le_Suc_eq)

lemma close_down_all: "close_down (length fds) fds = replicate (length fds) None"
  by (rule nth_equalityI) (use close_down_entries [of "length fds" fds] in auto)

lemma lowest_free_opened: "lowest_free (map Some xs @ None # fds) = length xs"
  by (induction xs) auto

lemma open_fd_next:
  "open_fd file (map Some xs @ None # fds) = (int (length xs), map Some (xs @ [file]) @ fds)"
  by (simp add: open_fd_def lowest_free_opened list_update_append)

lemma setup_daemon_opens:
  assumes "length fds = Suc n"
  shows "setup_daemon fds = map Some [''/dev/null''] @ replicate n None"
proof -
  have "close_down (length fds) fds = None # replicate n None"
    using close_down_all [of fds] assms by (metis replicate_Suc)
  moreover have "open_fd ''/dev/null'' (None # replicate n None) = (0, map Some [''/dev/null''] @ replicate n None)"
    using open_fd_next [of "''/dev/null''" "[]" "replicate n None"] by simp
  ultimately show ?thesis
    by (cases n) (simp_all add: setup_daemon_def dup2_def STDIN_FILENO_def STDOUT_FILENO_def Let_def)
qed

lemma daemon_descriptors_opens:
  assumes "length fds = Suc (Suc n)"
  shows "daemon_descriptors dir session_id fds =
    map Some [''/dev/null'', logs_file dir session_id] @ replicate n None"
proof -
  have "setup_daemon fds = map Some [''/dev/null''] @ None # replicate n None"
    using setup_daemon_opens [OF assms] by simp
  with open_fd_next [of "logs_file dir session_id" "[''/dev/null'']" "replicate n None"]
  show ?thesis by (simp add: daemon_descriptors_def)
qed

text \<open>C36: The daemon's standard output is not redirected to \<open>/dev/null\<close>: only descriptor 0 is. The
  arguments of \<open>dup2\<close> are swapped, so descriptor 1, which \<open>std::cout\<close> and the default logger of
  \<open>spdlog\<close> write to, becomes the next file that is opened, the log of the session, and
  descriptor 2 the one after it, whatever it is.
\<close>

theorem daemon_output_not_redirected:
  assumes "3 \<le> length fds"
  shows "setup_daemon fds ! 0 = Some ''/dev/null'' \<and> setup_daemon fds ! STDOUT_FILENO = None \<and>
    daemon_descriptors dir session_id fds ! STDOUT_FILENO = Some (logs_file dir session_id) \<and>
    fst (open_fd file (daemon_descriptors dir session_id fds)) = 2"
proof -
  obtain n where n: "length fds = Suc (Suc (Suc n))"
    using assms by (metis Suc_le_D Suc_le_mono numeral_3_eq_3)
  have d: "daemon_descriptors dir session_id fds =
      map Some [''/dev/null'', logs_file dir session_id] @ None # replicate n None"
    using daemon_descriptors_opens [OF n] by simp
  have "fst (open_fd file (daemon_descriptors dir session_id fds)) = 2"
    unfolding d open_fd_next by simp
  then show ?thesis by (simp add: setup_daemon_opens [OF n] d STDOUT_FILENO_def)
qed

theorem daemon_output_not_redirected_witness:
  "setup_daemon [Some ''tty'', Some ''tty'', Some ''tty'', Some ''client_logs''] ! STDOUT_FILENO = None \<and>
   daemon_descriptors ''d'' 7 [Some ''tty'', Some ''tty'', Some ''tty'', Some ''client_logs''] ! STDOUT_FILENO =
     Some (logs_file ''d'' 7)"
  using daemon_output_not_redirected [of "[Some ''tty'', Some ''tty'', Some ''tty'', Some ''client_logs'']"]
  by simp

text \<open>
  The wait takes at most 60 rounds, and ends in the first one in which the files are there.
\<close>

lemma wait_rounds_least:
  "i \<le> k \<Longrightarrow> k < i + n \<Longrightarrow> files_ready dir session_id (files k) \<Longrightarrow>
   wait_rounds dir session_id files i n \<le> k"
proof (induction n arbitrary: i)
  case (Suc n)
  then show ?case by (cases "i = k") auto
qed simp

lemma wait_rounds_result:
  "wait_rounds dir session_id files i n = i + n \<or>
   files_ready dir session_id (files (wait_rounds dir session_id files i n))"
  by (induction n arbitrary: i) (simp_all, metis add_Suc)

lemma wait_rounds_bound: "wait_rounds dir session_id files i n \<le> i + n"
  by (induction n arbitrary: i) (simp, metis add_Suc add_Suc_right le_add1 wait_rounds.simps(2))

lemma await_files_ends:
  "await_files dir session_id files \<le> 60"
  "await_files dir session_id files < 60 \<Longrightarrow> files_ready dir session_id (files (await_files dir session_id files))"
  unfolding await_files_def
  using wait_rounds_bound [of dir session_id files 0 60] wait_rounds_result [of dir session_id files 0 60]
  by auto

text \<open>
  After \<open>add_daemon_files\<close> of the parent, which makes the three files, the wait is over.
\<close>

lemma await_files_after_add:
  assumes "add_daemon_files creatable dir session_id paths = Inr (True, paths')"
    and "creatable (logs_file dir session_id)"
    and "files k = paths'" and "k < 60"
  shows "await_files dir session_id files \<le> k"
proof -
  have "files_ready dir session_id (files k)"
    using assms(1-3)
    by (auto simp: add_daemon_files_def files_ready_def create_directory_def touch_def mkfifo_def Let_def
             split: if_splits prod.splits sum.splits)
  with wait_rounds_least [of 0 k 60] assms(4) show ?thesis by (simp add: await_files_def)
qed

end
