(* ===== verification/Reliever.thy ===== *)
theory Reliever
  imports Prelude
begin

text \<open>
  The thread of \<open>start_background_strain_reliever_cmd\<close> and \<open>exit_cmd\<close> of \<open>src/client/cmd.cpp\<close>,
  statement by statement, in any order: the mutex and the condition variable of
  \<open>session_metadata\<close>, and the flag \<open>dying\<close> that both use. \<open>Commands.strain_step\<close> is one
  undisturbed turn of the thread.
\<close>

section \<open>The two threads\<close>

text \<open>
  Where the reliever is: before it locks \<open>meta_lock\<close>; before the test of its inner loop;
  after the test, about to call \<open>wait\<close>; asleep; awake, before it has the mutex again; after
  the loop; before the test of \<open>dying\<close>; with that many dummy sets to do; at its end.
\<close>

datatype reliever_at =
    Locking | Testing | Blocking | Waiting | Relocking | Clearing | Deciding | Relieving nat | Returned

text \<open>The thread that gives the commands: in other commands, or inside \<open>exit_cmd\<close>.\<close>

datatype commander_at = Serving | Notifying | Joining | Tearing_Down

record handshake =
  dying_flag :: bool
  dead :: uint
  dead_peers_thresh :: uint
  meta_locked :: bool
  reliever :: reliever_at
  commander :: commander_at

text \<open>The thread is started with the counter \<open>d\<close>, which the program never sets.\<close>

definition reliever_started :: "uint \<Rightarrow> handshake" where
  "reliever_started d = \<lparr>dying_flag = False, dead = d, dead_peers_thresh = 15, meta_locked = False,
     reliever = Locking, commander = Serving\<rparr>"

definition must_wait :: "handshake \<Rightarrow> bool" where
  "must_wait \<sigma> \<longleftrightarrow> \<not> dying_flag \<sigma> \<and> dead_peers_thresh \<sigma> \<le> dead \<sigma>"

definition notify_all :: "handshake \<Rightarrow> handshake" where
  "notify_all \<sigma> = (if reliever \<sigma> = Waiting then \<sigma>\<lparr>reliever := Relocking\<rparr> else \<sigma>)"

text \<open>
  A step of one of the two. A \<open>wait\<close> can also end without a notification: it does so when
  \<open>spurious\<close> holds.
\<close>

inductive handshake_step :: "bool \<Rightarrow> handshake \<Rightarrow> handshake \<Rightarrow> bool" for spurious where
  locks: "reliever \<sigma> = Locking \<Longrightarrow> \<not> meta_locked \<sigma> \<Longrightarrow>
    handshake_step spurious \<sigma> (\<sigma>\<lparr>meta_locked := True, reliever := Testing\<rparr>)"
| tests: "reliever \<sigma> = Testing \<Longrightarrow>
    handshake_step spurious \<sigma> (\<sigma>\<lparr>reliever := if must_wait \<sigma> then Blocking else Clearing\<rparr>)"
| waits: "reliever \<sigma> = Blocking \<Longrightarrow>
    handshake_step spurious \<sigma> (\<sigma>\<lparr>meta_locked := False, reliever := Waiting\<rparr>)"
| wakes: "reliever \<sigma> = Waiting \<Longrightarrow> spurious \<Longrightarrow>
    handshake_step spurious \<sigma> (\<sigma>\<lparr>reliever := Relocking\<rparr>)"
| relocks: "reliever \<sigma> = Relocking \<Longrightarrow> \<not> meta_locked \<sigma> \<Longrightarrow>
    handshake_step spurious \<sigma> (\<sigma>\<lparr>meta_locked := True, reliever := Testing\<rparr>)"
| clears: "reliever \<sigma> = Clearing \<Longrightarrow>
    handshake_step spurious \<sigma> (\<sigma>\<lparr>dead := 0, meta_locked := False, reliever := Deciding\<rparr>)"
| returns: "reliever \<sigma> = Deciding \<Longrightarrow> dying_flag \<sigma> \<Longrightarrow>
    handshake_step spurious \<sigma> (\<sigma>\<lparr>reliever := Returned\<rparr>)"
| relieves: "reliever \<sigma> = Deciding \<Longrightarrow> \<not> dying_flag \<sigma> \<Longrightarrow> k < 10 \<Longrightarrow>
    handshake_step spurious \<sigma> (\<sigma>\<lparr>reliever := Relieving k\<rparr>)"
| sets: "reliever \<sigma> = Relieving (Suc k) \<Longrightarrow>
    handshake_step spurious \<sigma> (\<sigma>\<lparr>reliever := Relieving k\<rparr>)"
| loops: "reliever \<sigma> = Relieving 0 \<Longrightarrow>
    handshake_step spurious \<sigma> (\<sigma>\<lparr>reliever := Locking\<rparr>)"
| exit_begins: "commander \<sigma> = Serving \<Longrightarrow>
    handshake_step spurious \<sigma> (\<sigma>\<lparr>dying_flag := True, commander := Notifying\<rparr>)"
| exit_notifies: "commander \<sigma> = Notifying \<Longrightarrow>
    handshake_step spurious \<sigma> (notify_all (\<sigma>\<lparr>commander := Joining\<rparr>))"
| exit_joins: "commander \<sigma> = Joining \<Longrightarrow> reliever \<sigma> = Returned \<Longrightarrow>
    handshake_step spurious \<sigma> (\<sigma>\<lparr>commander := Tearing_Down\<rparr>)"

text \<open>Meanwhile \<open>update_peer\<close> of any session counts a dead peer, with the mutex.\<close>

inductive peer_dies :: "handshake \<Rightarrow> handshake \<Rightarrow> bool" where
  "\<not> meta_locked \<sigma> \<Longrightarrow> peer_dies \<sigma> (\<sigma>\<lparr>dead := dead \<sigma> + 1\<rparr>)"

text \<open>An execution, with the number of steps of the two threads.\<close>

inductive handshake_steps :: "bool \<Rightarrow> nat \<Rightarrow> handshake \<Rightarrow> handshake \<Rightarrow> bool" for spurious where
  here: "handshake_steps spurious 0 \<sigma> \<sigma>"
| step: "handshake_steps spurious n \<sigma> \<tau> \<Longrightarrow> handshake_step spurious \<tau> \<upsilon> \<Longrightarrow> handshake_steps spurious (Suc n) \<sigma> \<upsilon>"
| death: "handshake_steps spurious n \<sigma> \<tau> \<Longrightarrow> peer_dies \<tau> \<upsilon> \<Longrightarrow> handshake_steps spurious n \<sigma> \<upsilon>"

section \<open>The exit of a client\<close>

text \<open>
  In every state that is reached, the mutex is held exactly where the reliever's code holds
  it, and \<open>exit_cmd\<close> has set the flag.
\<close>

definition handshake_ok :: "handshake \<Rightarrow> bool" where
  "handshake_ok \<sigma> \<longleftrightarrow>
     meta_locked \<sigma> = (reliever \<sigma> \<in> {Testing, Blocking, Clearing}) \<and>
     dying_flag \<sigma> = (commander \<sigma> \<noteq> Serving) \<and> (\<forall>k. reliever \<sigma> = Relieving k \<longrightarrow> k < 10) \<and>
     (commander \<sigma> = Tearing_Down \<longrightarrow> reliever \<sigma> = Returned)"

lemma handshake_step_ok: "handshake_step spurious \<sigma> \<tau> \<Longrightarrow> handshake_ok \<sigma> \<Longrightarrow> handshake_ok \<tau>"
  by (induction rule: handshake_step.induct) (auto simp: handshake_ok_def notify_all_def)

lemma peer_dies_ok: "peer_dies \<sigma> \<tau> \<Longrightarrow> handshake_ok \<sigma> \<Longrightarrow> handshake_ok \<tau>"
  by (induction rule: peer_dies.induct) (simp add: handshake_ok_def)

lemma handshake_steps_ok: "handshake_steps spurious n \<sigma> \<tau> \<Longrightarrow> handshake_ok \<sigma> \<Longrightarrow> handshake_ok \<tau>"
  by (induction rule: handshake_steps.induct) (blast intro: handshake_step_ok peer_dies_ok)+

lemma handshake_ok_started: "handshake_ok (reliever_started d)"
  by (simp add: handshake_ok_def reliever_started_def)

text \<open>The notification is lost when the reliever is not yet, or still, asleep.\<close>

definition notification_lost :: "handshake \<Rightarrow> bool" where
  "notification_lost \<sigma> \<longleftrightarrow> commander \<sigma> = Joining \<and> reliever \<sigma> \<in> {Blocking, Waiting}"

lemma lost_step: "handshake_step False \<sigma> \<tau> \<Longrightarrow> notification_lost \<sigma> \<Longrightarrow> notification_lost \<tau>"
  by (induction rule: handshake_step.induct) (auto simp: notification_lost_def)

lemma lost_death: "peer_dies \<sigma> \<tau> \<Longrightarrow> notification_lost \<sigma> \<Longrightarrow> notification_lost \<tau>"
  by (induction rule: peer_dies.induct) (simp add: notification_lost_def)

lemma lost_forever: "handshake_steps False n \<sigma> \<tau> \<Longrightarrow> notification_lost \<sigma> \<Longrightarrow> notification_lost \<tau>"
  by (induction rule: handshake_steps.induct) (blast intro: lost_step lost_death)+

text \<open>C30: \<open>exit_cmd\<close> can wait for its background thread forever: it sets \<open>dying\<close> and notifies without
  holding \<open>meta_lock\<close>, so the notification can fall between the thread's test and its \<open>wait\<close>,
  and nobody notifies again. It takes 15 dead peers, or as much garbage in the counter.
  (\<open>handshake_steps False\<close> is for a \<open>wait\<close> that ends on notifications only.)
\<close>

theorem exit_can_hang:
  assumes "15 \<le> d"
  shows "\<exists>\<sigma> m. handshake_steps False m (reliever_started d) \<sigma> \<and> commander \<sigma> = Joining \<and>
    (\<forall>n \<tau>. handshake_steps False n \<sigma> \<tau> \<longrightarrow> commander \<tau> = Joining \<and> reliever \<tau> \<noteq> Returned)"
proof -
  let ?at = "\<lambda>f m r c. \<lparr>dying_flag = f, dead = d, dead_peers_thresh = 15, meta_locked = m, reliever = r, commander = c\<rparr>"
  let ?lost = "?at True True Blocking Joining"
  note st = handshake_steps.step
  have "handshake_step False (reliever_started d) (?at False True Testing Serving)"
    using locks [of "reliever_started d"] by (simp add: reliever_started_def)
  moreover have "handshake_step False (?at False True Testing Serving) (?at False True Blocking Serving)"
    using tests [of "?at False True Testing Serving"] assms by (simp add: must_wait_def)
  moreover have "handshake_step False (?at False True Blocking Serving) (?at True True Blocking Notifying)"
    using exit_begins [of "?at False True Blocking Serving"] by simp
  moreover have "handshake_step False (?at True True Blocking Notifying) ?lost"
    using exit_notifies [of "?at True True Blocking Notifying"] by (simp add: notify_all_def)
  ultimately have "\<exists>m. handshake_steps False m (reliever_started d) ?lost"
    by (blast intro: here st)
  moreover have "notification_lost ?lost" by (simp add: notification_lost_def)
  then have "handshake_steps False n ?lost \<tau> \<Longrightarrow> commander \<tau> = Joining \<and> reliever \<tau> \<noteq> Returned" for n \<tau>
    using lost_forever by (force simp: notification_lost_def)
  ultimately show ?thesis by (metis handshake.select_convs(6))
qed

theorem exit_can_hang_witness:
  "\<exists>\<sigma> m. handshake_steps False m (reliever_started 15) \<sigma> \<and> commander \<sigma> = Joining \<and>
    (\<forall>n \<tau>. handshake_steps False n \<sigma> \<tau> \<longrightarrow> commander \<tau> = Joining \<and> reliever \<tau> \<noteq> Returned)"
  using exit_can_hang [of 15] by simp

text \<open>Otherwise the exit makes progress: what is left to do, and that it can be done.\<close>

definition remaining :: "handshake \<Rightarrow> nat" where
  "remaining \<sigma> =
     (case reliever \<sigma> of Returned \<Rightarrow> 0 | Deciding \<Rightarrow> 1 | Clearing \<Rightarrow> 2 | Testing \<Rightarrow> 3 | Locking \<Rightarrow> 4
        | Relieving k \<Rightarrow> 5 + k | _ \<Rightarrow> 4) + (if commander \<sigma> = Joining then 1 else 0)"

definition leaving :: "handshake \<Rightarrow> bool" where
  "leaving \<sigma> \<longleftrightarrow> handshake_ok \<sigma> \<and> commander \<sigma> \<in> {Joining, Tearing_Down} \<and> reliever \<sigma> \<notin> {Blocking, Waiting}"

lemma leaving_step:
  assumes "handshake_step spurious \<sigma> \<tau>" and "leaving \<sigma>"
  shows "leaving \<tau>" and "remaining \<tau> < remaining \<sigma>"
proof -
  have "handshake_ok \<tau>" using assms handshake_step_ok by (auto simp: leaving_def)
  moreover from assms have "commander \<tau> \<in> {Joining, Tearing_Down} \<and> reliever \<tau> \<notin> {Blocking, Waiting} \<and>
      remaining \<tau> < remaining \<sigma>"
    by (induction rule: handshake_step.induct)
       (auto simp: leaving_def handshake_ok_def remaining_def must_wait_def)
  ultimately show "leaving \<tau>" and "remaining \<tau> < remaining \<sigma>" by (auto simp: leaving_def)
qed

lemma leaving_death:
  "peer_dies \<sigma> \<tau> \<Longrightarrow> leaving \<sigma> \<Longrightarrow> leaving \<tau> \<and> remaining \<tau> = remaining \<sigma>"
  by (induction rule: peer_dies.induct) (simp add: leaving_def handshake_ok_def remaining_def)

lemma leaving_steps:
  "handshake_steps spurious n \<sigma> \<tau> \<Longrightarrow> leaving \<sigma> \<Longrightarrow> leaving \<tau> \<and> n + remaining \<tau> \<le> remaining \<sigma>"
proof (induction rule: handshake_steps.induct)
  case (step n \<sigma> \<tau> \<upsilon>)
  then show ?case using leaving_step [OF step.hyps(2)] by fastforce
qed (auto dest: leaving_death)

lemma leaving_bound: "leaving \<sigma> \<Longrightarrow> remaining \<sigma> \<le> 15"
  by (auto simp: leaving_def handshake_ok_def remaining_def split: reliever_at.splits)

lemma leaving_progress:
  assumes "leaving \<sigma>" and "commander \<sigma> \<noteq> Tearing_Down"
  shows "\<exists>\<tau>. handshake_step False \<sigma> \<tau>"
proof (cases "reliever \<sigma>")
  case (Relieving k)
  then show ?thesis by (cases k) (auto intro: sets loops)
next
  case Deciding
  with assms show ?thesis by (auto simp: leaving_def handshake_ok_def intro: returns)
qed (use assms in \<open>auto simp: leaving_def handshake_ok_def intro: locks tests relocks clears exit_joins\<close>)



end
