(* ===== verification/Spec2Isabelle.thy ===== *)
theory Spec2Isabelle
  imports Keys_Properties Files_Properties Pipes_Properties Lifecycle Session_Life Process_Teardown
    Daemonize Reliever
begin

text \<open>
  Distft stores files in a Kademlia-like distributed hash table. A client process runs a
  cluster of sessions, the nodes of the table; it is a daemon that takes commands through
  named pipes, or an interactive program. This development models the C++ code under \<open>src/src\<close>
  from the bits of a key up to the command line, and proves what it does.

  \<^bold>\<open>The program and its model.\<close>
  \<^item> \<open>utils/utils.h\<close>, \<open>utils/utils.cpp\<close>: \<open>Keys\<close>. A \<open>Key\<close> (\<open>std::bitset<160>\<close>) is a 160-bit
    word; \<open>Dist\<close>, \<open>Peer\<close> and \<open>Chunk\<close> are a type of its own and two records; distances are an
    instance of \<open>linorder\<close>. SHA1 and the random bits are parameters.
  \<^item> \<open>dht/router.h\<close>, \<open>dht/router.cpp\<close>: \<open>Router\<close>. A \<open>BinaryTree\<close> is a datatype with the
    constructors \<open>Leaf\<close> and \<open>Joint\<close>, its counters unsigned words; each loop over the depth is a
    recursion with 160 iterations. The clock is an argument.
  \<^item> \<open>dht/dht.proto\<close>, \<open>dht/session.h\<close>, \<open>dht/rpc.cpp\<close>: \<open>Session_State\<close> (messages, the record
    \<open>session\<close>, the environment, the mutexes) and \<open>Rpc\<close> (callers, handlers, \<open>update_peer\<close>). A
    session runs in an environment \<open>'w env\<close>: functions on a world \<open>'w\<close> that answer a call or
    leave it unanswered, which stands for any status of gRPC that is not OK. A mutex is a flag;
    locking it twice is the error \<open>Deadlock\<close>.
  \<^item> \<open>dht/session.cpp\<close>: \<open>Lookup\<close> (the iterative lookup with its two query closures) and
    \<open>Session\<close> (startup, teardown, publish, set, get, and an iteration of each background thread).
  \<^item> \<open>client/file.cpp\<close>: \<open>Files\<close>. The threads of an operation run in the order of a parameter.
  \<^item> \<open>client/cmd.cpp\<close>: \<open>Cluster\<close> connects the sessions of a process, each the network of the
    others; \<open>Commands\<close> has the class \<open>CommandControl\<close> as the record \<open>control\<close>, its commands
    and the strain reliever.
  \<^item> \<open>client/daemon.cpp\<close>: \<open>Pipes\<close> (the four functions on the named pipes, over the results of
    \<open>open\<close>, \<open>read\<close> and \<open>write\<close>), \<open>Daemon\<close> (the loop of the daemon, the local files) and
    \<open>Daemonize\<close> (\<open>setup_daemon\<close> on a table of file descriptors, the wait for the files).
  \<^item> \<open>client/founder.cpp\<close>: \<open>Daemon\<close>, from \<open>print_result\<close> on: the handlers of the client and its
    command line. \<open>client/interactive.cpp\<close>: \<open>Console\<close>.

  \<^bold>\<open>Threads.\<close> The theories above execute an operation from its begin to its end. The rest of
  \<open>dht/rpc.cpp\<close> and \<open>dht/session.cpp\<close>, the server, the background threads, \<open>startup\<close> and \<open>teardown\<close>
  around them, is about threads, and modelled so:
  \<^item> \<open>Threads\<close>: a thread is a program of actions on the session, of \<open>lock\<close> and of \<open>unlock\<close>; the
    operation is what it does when it runs alone (\<open>run\<close>), and a weakest precondition (\<open>wp\<close>)
    tells what it does beside others.
  \<^item> \<open>Programs\<close>: every operation of a session as such a program, cut at the locks of the code.
    \<open>Thread_Runs\<close> proves each equal to the operation it was cut from.
  \<^item> \<open>Process\<close>: a session with its threads (\<open>init_server\<close>, \<open>init_rpc_threads\<close>, the requests gRPC
    takes, the calls of the client), and the phases from \<open>startup\<close> to the destructors, as the
    step relation \<open>process_step\<close>: one action of any thread, or one step of the owner.
  \<^item> \<open>Reliever\<close>: the strain reliever and \<open>exit_cmd\<close>, with their mutex and condition variable.

  An operation that can fail returns \<open>cpp_error + 'a\<close> (\<open>Prelude\<close>): each exception, each
  undefined access and each deadlock of the code is an \<open>Inl\<close>; \<open>and_then\<close> is sequencing.

  \<^bold>\<open>The interfaces.\<close> \<open>peer_table\<close> and its extension \<open>peer_lookup\<close> (\<open>Peer_Table\<close>) are what a session
  relies on in its router; \<open>Router_Contract\<close> and \<open>Router_Closest\<close> prove them for the tree.
  \<open>kv_store\<close> is what the file layer relies on in one session, proved in \<open>Session_Store\<close>.
  \<open>world_relation\<close> (\<open>Network\<close>) is what an operation may do to the network, proved for a peer in
  \<open>Two_Nodes\<close>. \<open>steady_queries\<close> and \<open>steady_nodes\<close> (\<open>Steady\<close>) are a network in which every query
  succeeds, proved for a mesh of sessions in \<open>Mesh\<close> and for two starting sessions in
  \<open>Bootstrap\<close>. \<open>shared_session\<close> (\<open>Shared_Files\<close>) is a session that is a window on one map from keys
  to data, proved in \<open>Catalog\<close>.

  \<^bold>\<open>What is proved.\<close>
  \<^item> Keys: the comparison of distances, the text form and the keys of digests (\<open>Keys_Properties\<close>).
  \<^item> Router: the tree's invariant under every operation (\<open>Router_Invariant\<close>), insertion and
    eviction as updates of a map of contacts, the order of the answers to \<open>closest_peers\<close> and
    where it falls short (\<open>Router_Closest\<close>, \<open>Router_Properties\<close>).
  \<^item> RPC: the handlers always answer well-formed requests, \<open>update_peer\<close> ends within two rounds
    and follows the least-recently-used policy, what a message makes a node read
    (\<open>Handlers\<close>, \<open>Rpc_Properties\<close>).
  \<^item> Sessions: which errors each operation ends in, what a lookup returns, what set makes get
    return, startup and teardown, the background threads (\<open>Lookup_Results\<close>, \<open>Session\<close>,
    \<open>Session_Properties\<close>); the session as a state machine under any sequence of calls, requests
    and thread iterations (\<open>Session_Life\<close>); data that goes from one node to another (\<open>Two_Nodes\<close>).
  \<^item> A cluster: the nodes of a mesh keep knowing each other (\<open>Mesh_Node\<close>, \<open>Mesh\<close>), so the cluster
    is one map from keys to data (\<open>Mesh_Map\<close>), the file layer on it is a catalog of names and
    contents (\<open>Shared_Files\<close>), and the commands refine the catalog's operations (\<open>Catalog\<close>).
    \<open>bootstrap_cmd\<close> with two endpoints reaches that state from nothing (\<open>Bootstrap\<close>).
  \<^item> The client: what a reader of the pipes understands, and the bytes on which it never returns
    (\<open>Pipes_Properties\<close>); a client, the pipes, the daemon and its sessions together store, list
    and load files as the catalog says (\<open>Remote\<close>), in any sequence of requests and with the
    strain reliever in between (\<open>Relief\<close>, \<open>Conversation\<close>), from the start of the daemon to its
    exit (\<open>Lifecycle\<close>); the errors of the client, session ids, local files, endpoints, the
    terminal and the strain reliever (\<open>Client_Properties\<close>); what \<open>setup_daemon\<close> leaves open
    (\<open>Daemonize\<close>).
  \<^item> Threads: whatever the interleaving, the data of a session stays well formed and each mutex
    has its holder; the chunks are never raced for, and the routing table is; threads do not
    wait for each other in a circle; the republishing thread locks a mutex twice and hangs the
    session; without that, teardown ends, and nothing happens after it (\<open>Thread_Safety\<close>,
    \<open>Process_Invariant\<close>, \<open>Process_Examples\<close>, \<open>Process_Properties\<close>, \<open>Process_Teardown\<close>); when \<open>exit_cmd\<close>
    ends, and the wakeup it can lose (\<open>Reliever\<close>).

  \<^bold>\<open>Bounds and fuel.\<close> The loops over the depth of the tree have 160 iterations, as in the code;
  the loop of \<open>update_peer\<close> gets two rounds, which is proved to be enough when it runs alone; beside
  other threads it gets any number \<open>n\<close>, and gives up with an error after it, since another thread
  may fill the kbucket every time; the lookup has the
  160 rounds of \<open>MAX_LOOKUP_ITERS\<close>. Three loops have no bound in the code: the wait of startup for
  its neighbour (the parameter \<open>patience\<close>; a neighbour that answers ends it at once), the loop of
  the terminal, whose first argument counts iterations, and the reading loops on a pipe, which
  are partial functions with the value \<open>None\<close> for a call that does not return. The statements
  about a mesh are for 2 to 20 sessions (\<open>KBUCKET_MAX\<close>), data below 2 GB, files below 8 TB,
  and a digest without collisions on the chunks and names in use, none of which is a random key.

  \<^bold>\<open>What is not modelled.\<close> Threads are interleaved in one session and its mutexes, and between the
  reliever and \<open>exit_cmd\<close>; the commands of a client and the sessions of a cluster run one
  after the other, and only the order of the threads that a command starts together varies;
  the startups of a cluster all begin before the first one waits for its neighbour. An action
  of a thread is atomic: a remote call is one action, and what the code still reads through the
  pointers of \<open>closest_peers\<close> or through a chunk after it unlocked the mutex is read with them, so
  races on the inside of a peer or a chunk are not seen. A
  session that calls back into the session that is calling it is not modelled; it does not
  happen, since no router holds its own endpoint and only a full kbucket makes a handler call
  anyone. \<open>setsid\<close>, the log lines, the prompts of the terminal and the freeing of chunks are left
  out. \<open>client/transient.cpp\<close> is empty. Starting more than two sessions is modelled, but that
  they all end up knowing each other is not proved: the made-up keys of startup can reach
  other sessions before they are forgotten.
\<close>

end
